(* ===== verification/Ledger_Prelude.thy ===== *)
theory Ledger_Prelude
  imports Main "HOL-Library.Word" "HOL-Library.AList"
begin

text \<open>
  Shared vocabulary of the development. Nothing here models a particular file of the
  repository: it is the part of Python the code is written in. Exceptions are the left
  summand of a sum (\<open>bindE\<close> is sequencing, \<open>foldE\<close> a loop that may raise), code that
  also changes a store is an \<^emph>\<open>action\<close>, a function from the store to a result and the
  store it leaves behind (\<open>bindM\<close>, \<open>catchM\<close>); the store survives a raised exception, as
  it does in Python. Below them are list slicing and indexing with Python's treatment of
  negative numbers, \<open>max(..., default=d)\<close> and the decimal and hexadecimal printing behind
  \<open>str\<close> of an \<open>int\<close> and of a \<open>UUID\<close>, with the lemmas the component theories share.
\<close>

named_theorems result_iffs \<open>characterisations of when a sequenced computation returns or raises\<close>

section \<open>Raising computations\<close>

definition bindE :: "'e + 'a \<Rightarrow> ('a \<Rightarrow> 'e + 'b) \<Rightarrow> 'e + 'b" where
  "bindE r f = (case r of Inl e \<Rightarrow> Inl e | Inr x \<Rightarrow> f x)"

lemma bindE_simps [simp]:
  "bindE (Inl e) f = Inl e"
  "bindE (Inr x) f = f x"
  by (simp_all add: bindE_def)

lemma bindE_eq_Inr [result_iffs]: "bindE r f = Inr y \<longleftrightarrow> (\<exists>x. r = Inr x \<and> f x = Inr y)"
  by (cases r) simp_all

lemma bindE_eq_Inl [result_iffs]:
  "bindE r f = Inl e \<longleftrightarrow> r = Inl e \<or> (\<exists>x. r = Inr x \<and> f x = Inl e)"
  by (cases r) simp_all

lemma bindE_assoc: "bindE (bindE r f) g = bindE r (\<lambda>x. bindE (f x) g)"
  by (cases r) simp_all

lemma bindE_cong [fundef_cong]:
  "r = r' \<Longrightarrow> (\<And>x. r' = Inr x \<Longrightarrow> f x = g x) \<Longrightarrow> bindE r f = bindE r' g"
  by (cases r') simp_all

text \<open>A check that raises \<open>e\<close> unless \<open>b\<close> holds.\<close>

definition guardE :: "bool \<Rightarrow> 'e \<Rightarrow> 'e + unit" where
  "guardE b e = (if b then Inr () else Inl e)"

lemma guardE_simps [simp]:
  "guardE True e = Inr ()"
  "guardE False e = Inl e"
  by (simp_all add: guardE_def)

lemma guardE_eq_Inr [result_iffs]: "guardE b e = Inr u \<longleftrightarrow> b"
  by (simp add: guardE_def)

lemma guardE_eq_Inl [result_iffs]: "guardE b e = Inl e' \<longleftrightarrow> \<not> b \<and> e' = e"
  by (auto simp: guardE_def)

text \<open>A \<open>for\<close> loop over a list whose body may raise.\<close>

primrec foldE :: "('s \<Rightarrow> 'a \<Rightarrow> 'e + 's) \<Rightarrow> 's \<Rightarrow> 'a list \<Rightarrow> 'e + 's" where
  "foldE f s [] = Inr s"
| "foldE f s (x # xs) = bindE (f s x) (\<lambda>s'. foldE f s' xs)"

lemma foldE_append: "foldE f s (xs @ ys) = bindE (foldE f s xs) (\<lambda>s'. foldE f s' ys)"
  by (induction xs arbitrary: s) (simp_all add: bindE_assoc)

lemma foldE_invariant:
  assumes "foldE f s xs = Inr s'" and "P s"
    and "\<And>s x s'. P s \<Longrightarrow> x \<in> set xs \<Longrightarrow> f s x = Inr s' \<Longrightarrow> P s'"
  shows "P s'"
  using assms
proof (induction xs arbitrary: s)
  case Nil
  then show ?case by simp
next
  case (Cons x xs)
  from Cons.prems(1) obtain t where t: "f s x = Inr t" and rest: "foldE f t xs = Inr s'"
    by (auto simp: result_iffs)
  have "P t" using Cons.prems(2) t by (auto intro: Cons.prems(3))
  with rest show ?case
    by (rule Cons.IH) (auto intro: Cons.prems(3))
qed

text \<open>A list comprehension whose element expression may raise.\<close>

primrec mapE :: "('a \<Rightarrow> 'e + 'b) \<Rightarrow> 'a list \<Rightarrow> 'e + 'b list" where
  "mapE f [] = Inr []"
| "mapE f (x # xs) = bindE (f x) (\<lambda>y. bindE (mapE f xs) (\<lambda>ys. Inr (y # ys)))"

lemma mapE_Inr_map: "(\<And>x. x \<in> set xs \<Longrightarrow> f x = Inr (g x)) \<Longrightarrow> mapE f xs = Inr (map g xs)"
  by (induction xs) simp_all

lemma mapE_append:
  "mapE f (xs @ ys) = bindE (mapE f xs) (\<lambda>us. bindE (mapE f ys) (\<lambda>vs. Inr (us @ vs)))"
  by (induction xs) (simp_all add: bindE_assoc, cases "mapE f ys", simp_all)

lemma mapE_eq_Inr: "mapE f xs = Inr ys \<longleftrightarrow> list_all2 (\<lambda>x y. f x = Inr y) xs ys"
proof (induction xs arbitrary: ys)
  case Nil
  then show ?case by auto
next
  case (Cons x xs)
  then show ?case by (cases ys) (auto simp: result_iffs)
qed

section \<open>Actions on a store\<close>

type_synonym ('s, 'e, 'a) action = "'s \<Rightarrow> ('e + 'a) \<times> 's"

definition returnM :: "'a \<Rightarrow> ('s, 'e, 'a) action" where
  "returnM x = (\<lambda>s. (Inr x, s))"

definition raiseM :: "'e \<Rightarrow> ('s, 'e, 'a) action" where
  "raiseM e = (\<lambda>s. (Inl e, s))"

definition liftE :: "'e + 'a \<Rightarrow> ('s, 'e, 'a) action" where
  "liftE r = (\<lambda>s. (r, s))"

definition bindM :: "('s, 'e, 'a) action \<Rightarrow> ('a \<Rightarrow> ('s, 'e, 'b) action) \<Rightarrow> ('s, 'e, 'b) action" where
  "bindM m f = (\<lambda>s. case m s of (Inl e, s') \<Rightarrow> (Inl e, s') | (Inr x, s') \<Rightarrow> f x s')"

text \<open>\<open>try: m except e: h(e)\<close>; the changes \<open>m\<close> made before it raised stay.\<close>

definition catchM :: "('s, 'e, 'a) action \<Rightarrow> ('e \<Rightarrow> ('s, 'e, 'a) action) \<Rightarrow> ('s, 'e, 'a) action" where
  "catchM m h = (\<lambda>s. case m s of (Inl e, s') \<Rightarrow> h e s' | (Inr x, s') \<Rightarrow> (Inr x, s'))"

lemma action_simps [simp]:
  "returnM x s = (Inr x, s)"
  "raiseM e s = (Inl e, s)"
  "liftE r s = (r, s)"
  by (simp_all add: returnM_def raiseM_def liftE_def)

lemma bindM_Inr: "m s = (Inr x, s') \<Longrightarrow> bindM m f s = f x s'"
  by (simp add: bindM_def)

lemma bindM_Inl: "m s = (Inl e, s') \<Longrightarrow> bindM m f s = (Inl e, s')"
  by (simp add: bindM_def)

lemma bindM_run: "m s = (r, s') \<Longrightarrow> bindM m f s = (case r of Inl e \<Rightarrow> (Inl e, s') | Inr x \<Rightarrow> f x s')"
  by (simp add: bindM_def split: sum.splits)

lemma bindM_base [simp]:
  "bindM (returnM x) f = f x"
  "bindM (raiseM e) f s = (Inl e, s)"
  "bindM (liftE (Inr x)) f s = f x s"
  "bindM (liftE (Inl e)) f s = (Inl e, s)"
  by (simp_all add: bindM_def returnM_def raiseM_def liftE_def)

lemma catchM_Inr: "m s = (Inr x, s') \<Longrightarrow> catchM m h s = (Inr x, s')"
  by (simp add: catchM_def)

lemma catchM_Inl: "m s = (Inl e, s') \<Longrightarrow> catchM m h s = h e s'"
  by (simp add: catchM_def)

text \<open>A \<open>for\<close> loop whose body is an action.\<close>

primrec foldM :: "('b \<Rightarrow> 'a \<Rightarrow> ('s, 'e, 'b) action) \<Rightarrow> 'b \<Rightarrow> 'a list \<Rightarrow> ('s, 'e, 'b) action" where
  "foldM f b [] = returnM b"
| "foldM f b (x # xs) = bindM (f b x) (\<lambda>b'. foldM f b' xs)"

lemma foldM_pure:
  assumes "\<And>b x. f b x s = (g b x, s)"
  shows "foldM f b xs s = (foldE g b xs, s)"
  by (induction xs arbitrary: b) (auto simp: bindM_def bindE_def assms split: sum.splits)

text \<open>
  A relation every action of a program respects: \<open>keeps R m\<close> says that \<open>m\<close> moves the
  store along the reflexive and transitive relation \<open>R\<close>, whatever it returns or raises.
\<close>

definition keeps :: "('s \<Rightarrow> 's \<Rightarrow> bool) \<Rightarrow> ('s, 'e, 'a) action \<Rightarrow> bool" where
  "keeps R m \<longleftrightarrow> (\<forall>s. R s (snd (m s)))"

lemma keepsD: "keeps R m \<Longrightarrow> m s = (r, s') \<Longrightarrow> R s s'"
  by (metis keeps_def snd_conv)

lemma keeps_pure [intro]:
  assumes "reflp R"
  shows "keeps R (returnM x)" "keeps R (raiseM e)" "keeps R (liftE r)"
  using assms by (simp_all add: keeps_def reflp_def)

lemma keeps_bindM [intro]:
  assumes "transp R" and "keeps R m" and "\<And>x. keeps R (f x)"
  shows "keeps R (bindM m f)"
  unfolding keeps_def
proof
  fix s
  show "R s (snd (bindM m f s))"
  proof (cases "m s")
    case (Pair r s')
    then have "R s s'" using assms(2) by (rule keepsD [rotated])
    moreover have "R s' (snd (f x s'))" for x using assms(3) by (simp add: keeps_def)
    ultimately show ?thesis using Pair assms(1)
      by (cases r) (auto simp: bindM_def dest: transpD)
  qed
qed

lemma keeps_catchM [intro]:
  assumes "transp R" and "keeps R m" and "\<And>e. keeps R (h e)"
  shows "keeps R (catchM m h)"
  unfolding keeps_def
proof
  fix s
  show "R s (snd (catchM m h s))"
  proof (cases "m s")
    case (Pair r s')
    then have "R s s'" using assms(2) by (rule keepsD [rotated])
    moreover have "R s' (snd (h e s'))" for e using assms(3) by (simp add: keeps_def)
    ultimately show ?thesis using Pair assms(1)
      by (cases r) (auto simp: catchM_def dest: transpD)
  qed
qed

text \<open>\<open>yields P m\<close>: whatever \<open>m\<close> returns satisfies \<open>P\<close>.\<close>

definition yields :: "('a \<Rightarrow> bool) \<Rightarrow> ('s, 'e, 'a) action \<Rightarrow> bool" where
  "yields P m \<longleftrightarrow> (\<forall>s x s'. m s = (Inr x, s') \<longrightarrow> P x)"

lemma yields_liftE: "(\<And>x. r = Inr x \<Longrightarrow> P x) \<Longrightarrow> yields P (liftE r)"
  by (simp add: yields_def)

lemma yields_bindM: "(\<And>x. yields P (f x)) \<Longrightarrow> yields P (bindM m f)"
  unfolding yields_def bindM_def by (auto split: prod.splits sum.splits)

lemma yields_catchM: "yields P m \<Longrightarrow> (\<And>e. yields P (h e)) \<Longrightarrow> yields P (catchM m h)"
  unfolding yields_def catchM_def by (auto split: prod.splits sum.splits)

lemma yields_raiseM: "yields P (raiseM e)"
  by (simp add: yields_def)

lemma keeps_bindM_yields:
  assumes "transp R" and "keeps R m" and "yields P m" and "\<And>x. P x \<Longrightarrow> keeps R (f x)"
  shows "keeps R (bindM m f)"
  unfolding keeps_def
proof
  fix s
  show "R s (snd (bindM m f s))"
  proof (cases "m s")
    case (Pair r s')
    then have R: "R s s'" using assms(2) by (rule keepsD [rotated])
    show ?thesis
    proof (cases r)
      case (Inr x)
      then have "keeps R (f x)" using Pair assms(3,4) by (auto simp: yields_def)
      then have "R s' (snd (f x s'))" by (simp add: keeps_def)
      with R Pair Inr assms(1) show ?thesis by (auto simp: bindM_def dest: transpD)
    qed (use R Pair in \<open>simp add: bindM_def\<close>)
  qed
qed

section \<open>Python lists\<close>

text \<open>\<open>xs[i]\<close>: a negative index counts from the end, out of range raises.\<close>

definition py_index :: "'e \<Rightarrow> 'a list \<Rightarrow> int \<Rightarrow> 'e + 'a" where
  "py_index err xs i =
     (let n = int (length xs); j = (if i < 0 then i + n else i)
      in if 0 \<le> j \<and> j < n then Inr (xs ! nat j) else Inl err)"

lemma py_index_nth: "0 \<le> i \<Longrightarrow> i < int (length xs) \<Longrightarrow> py_index err xs i = Inr (xs ! nat i)"
  by (simp add: py_index_def)

text \<open>\<open>xs[:n]\<close> and \<open>xs[a:b]\<close>: bounds are clamped, a negative bound counts from the end.\<close>

definition py_clamp :: "int \<Rightarrow> int \<Rightarrow> nat" where
  "py_clamp len i = nat (max 0 (min len (if i < 0 then i + len else i)))"

definition py_take :: "int \<Rightarrow> 'a list \<Rightarrow> 'a list" where
  "py_take n xs = take (py_clamp (int (length xs)) n) xs"

definition py_slice :: "int \<Rightarrow> int \<Rightarrow> 'a list \<Rightarrow> 'a list" where
  "py_slice a b xs =
     (let i = py_clamp (int (length xs)) a; j = py_clamp (int (length xs)) b
      in take (j - i) (drop i xs))"

lemma py_take_take: "0 \<le> n \<Longrightarrow> py_take n xs = take (nat n) xs"
  by (cases "nat n \<le> length xs") (auto simp: py_take_def py_clamp_def min_def nat_le_iff)

lemma py_slice_nonneg:
  assumes "0 \<le> a" "0 \<le> n"
  shows "py_slice a (a + n) xs = take (nat n) (drop (nat a) xs)"
proof (cases "nat a \<le> length xs")
  case True
  then have "py_clamp (int (length xs)) a = nat a"
    using assms by (simp add: py_clamp_def min_def nat_le_iff)
  moreover have "take (py_clamp (int (length xs)) (a + n) - nat a) (drop (nat a) xs)
      = take (nat n) (drop (nat a) xs)"
  proof (cases "a + n \<le> int (length xs)")
    case True
    then have "py_clamp (int (length xs)) (a + n) - nat a = nat n"
      using assms by (simp add: py_clamp_def min_def nat_add_distrib)
    then show ?thesis by simp
  next
    case False
    then have "py_clamp (int (length xs)) (a + n) - nat a = length (drop (nat a) xs)"
      and "length (drop (nat a) xs) \<le> nat n"
      using assms by (auto simp: py_clamp_def min_def)
    then show ?thesis by simp
  qed
  ultimately show ?thesis by (simp add: py_slice_def Let_def)
next
  case False
  then have "drop (nat a) xs = []" and "py_clamp (int (length xs)) a = length xs"
    using assms by (auto simp: py_clamp_def min_def nat_le_iff)
  then show ?thesis by (simp add: py_slice_def)
qed

text \<open>
  A \<open>dict\<close> is an association list in insertion order; assigning to a key replaces its value
  in place or appends. \<open>dict_get0\<close> reads a \<open>defaultdict(int)\<close>.
\<close>

definition dict_set :: "'k \<Rightarrow> 'v \<Rightarrow> ('k \<times> 'v) list \<Rightarrow> ('k \<times> 'v) list" where
  "dict_set k v d = AList.update k v d"

definition dict_get0 :: "('k \<times> int) list \<Rightarrow> 'k \<Rightarrow> int" where
  "dict_get0 d k = (case map_of d k of None \<Rightarrow> 0 | Some v \<Rightarrow> v)"

lemma map_of_dict_set [simp]: "map_of (dict_set k v d) = (map_of d)(k \<mapsto> v)"
  by (simp add: dict_set_def update_conv')

lemma dict_set_nonempty [simp]: "dict_set k v d \<noteq> []"
  by (cases d) (auto simp: dict_set_def)

text \<open>\<open>max(xs, default=d)\<close>.\<close>

definition py_max :: "int list \<Rightarrow> int \<Rightarrow> int" where
  "py_max xs d = (case xs of [] \<Rightarrow> d | y # ys \<Rightarrow> fold max ys y)"

lemma fold_max_snoc: "fold max (xs @ [x]) y = max x (fold max xs (y :: int))"
  by simp

lemma py_max_snoc: "xs \<noteq> [] \<Longrightarrow> py_max (xs @ [x]) d = max x (py_max xs d)"
  by (cases xs) (simp_all add: py_max_def)

lemma py_max_upto: "py_max (map int [1..<Suc n]) 0 = int n"
proof (induction n)
  case 0
  then show ?case by (simp add: py_max_def)
next
  case (Suc n)
  show ?case
  proof (cases n)
    case 0
    then show ?thesis by (simp add: py_max_def)
  next
    case (Suc m)
    then have "map int [1..<Suc n] \<noteq> []" by simp
    moreover have "map int [1..<Suc (Suc n)] = map int [1..<Suc n] @ [int (Suc n)]" by simp
    ultimately show ?thesis using Suc.IH by (simp add: py_max_snoc del: upt_Suc)
  qed
qed

text \<open>Filters of logs that only grow.\<close>

lemma filter_snoc: "filter P (xs @ [x]) = (if P x then filter P xs @ [x] else filter P xs)"
  by simp

section \<open>Printing\<close>

definition digit_char :: "nat \<Rightarrow> char" where
  "digit_char d = (if d < 10 then char_of (48 + d) else char_of (87 + d))"

fun str_nat :: "nat \<Rightarrow> string" where
  "str_nat n = (if n < 10 then [digit_char n] else str_nat (n div 10) @ [digit_char (n mod 10)])"

declare str_nat.simps [simp del]

definition str_int :: "int \<Rightarrow> string" where
  "str_int i = (if i < 0 then CHR ''-'' # str_nat (nat (- i)) else str_nat (nat i))"

text \<open>\<open>k\<close> lower-case hexadecimal digits of \<open>n\<close>, most significant first.\<close>

primrec hex_digits :: "nat \<Rightarrow> nat \<Rightarrow> string" where
  "hex_digits 0 n = []"
| "hex_digits (Suc k) n = hex_digits k (n div 16) @ [digit_char (n mod 16)]"

lemma length_hex_digits [simp]: "length (hex_digits k n) = k"
  by (induction k arbitrary: n) simp_all

lemma digit_char_inject: "a < 16 \<Longrightarrow> b < 16 \<Longrightarrow> digit_char a = digit_char b \<longleftrightarrow> a = b"
proof
  assume *: "a < 16" "b < 16" "digit_char a = digit_char b"
  have of: "of_char (digit_char d) = (if d < 10 then 48 + d else 87 + d)" if "d < 16" for d :: nat
    using that by (simp add: digit_char_def)
  have "of_char (digit_char a) = (of_char (digit_char b) :: nat)" using * by simp
  then have "(if a < 10 then 48 + a else 87 + a) = (if b < 10 then 48 + b else 87 + b)"
    unfolding of [OF *(1)] of [OF *(2)] .
  then show "a = b" by (simp split: if_splits)
qed simp

lemma hex_digits_inject:
  "m < 16 ^ k \<Longrightarrow> n < 16 ^ k \<Longrightarrow> hex_digits k m = hex_digits k n \<longleftrightarrow> m = n"
proof (induction k arbitrary: m n)
  case 0
  then show ?case by simp
next
  case (Suc k)
  have "m div 16 < 16 ^ k" "n div 16 < 16 ^ k"
    using Suc.prems by (simp_all add: less_mult_imp_div_less mult.commute)
  then have "hex_digits k (m div 16) = hex_digits k (n div 16) \<longleftrightarrow> m div 16 = n div 16"
    by (rule Suc.IH)
  moreover have "m = n \<longleftrightarrow> m div 16 = n div 16 \<and> m mod 16 = n mod 16"
    by (metis div_mult_mod_eq)
  ultimately show ?case by (simp add: digit_char_inject)
qed

end
