(* ===== verification/Shared_Kernel.thy ===== *)
theory Shared_Kernel
  imports Ledger_Prelude
begin

text \<open>
  The shared kernel of the domain, \<^verbatim>\<open>src/src/ledger/domain/shared\<close>: the error hierarchy
  (\<^verbatim>\<open>errors.py\<close>), identifiers (\<^verbatim>\<open>identifiers.py\<close>), the \<open>Money\<close> value object
  (\<^verbatim>\<open>money.py\<close>) and the event-sourcing base class \<open>AggregateRoot\<close> (\<^verbatim>\<open>aggregate.py\<close>).
  The locale \<open>aggregate\<close> is the contract between the base class and its subclasses: an
  \<open>_apply\<close> that neither reads nor writes the version and the buffer. From it follow, once
  for every aggregate, that recording and replaying agree and that the expected version
  is the version of the committed stream.
\<close>

section \<open>Exceptions\<close>

text \<open>
  The classes of \<^verbatim>\<open>errors.py\<close>. \<open>DomainErrorBase\<close> is the class \<open>DomainError\<close> itself,
  which the code never raises but whose code the API knows.
\<close>

datatype domain_class =
    DomainErrorBase
  | CurrencyMismatch
  | InvalidAmount
  | InsufficientFunds
  | AccountNotActive
  | InvalidTransition
  | UnbalancedEntry
  | UnknownAccount
  | SameAccountTransfer
  | AccountNotEmpty
  | NotFound

fun error_code :: "domain_class \<Rightarrow> string" where
  "error_code DomainErrorBase = ''domain_error''"
| "error_code CurrencyMismatch = ''currency_mismatch''"
| "error_code InvalidAmount = ''invalid_amount''"
| "error_code InsufficientFunds = ''insufficient_funds''"
| "error_code AccountNotActive = ''account_not_active''"
| "error_code InvalidTransition = ''invalid_transition''"
| "error_code UnbalancedEntry = ''unbalanced_entry''"
| "error_code UnknownAccount = ''unknown_account''"
| "error_code SameAccountTransfer = ''same_account_transfer''"
| "error_code AccountNotEmpty = ''account_not_empty''"
| "error_code NotFound = ''not_found''"

text \<open>
  A UUID is a 128-bit integer; \<open>str(u)\<close> is its 32 hexadecimal digits in groups of
  8, 4, 4, 4 and 12.
\<close>

type_synonym uuid = "128 word"

definition str_uuid :: "uuid \<Rightarrow> string" where
  "str_uuid u =
     (let h = hex_digits 32 (unat u)
      in take 8 h @ ''-'' @ take 4 (drop 8 h) @ ''-'' @ take 4 (drop 12 h) @ ''-'' @
         take 4 (drop 16 h) @ ''-'' @ drop 20 h)"

lemma length_str_uuid [simp]: "length (str_uuid u) = 36"
  by (simp add: str_uuid_def Let_def)

lemma take_groups:
  "take 20 xs = take 8 xs @ take 4 (drop 8 xs) @ take 4 (drop 12 xs) @ take 4 (drop 16 xs)"
  using take_add [of 8 4 xs] take_add [of 12 4 xs] take_add [of 16 4 xs] by simp

lemma str_uuid_inject [simp]: "str_uuid u = str_uuid v \<longleftrightarrow> u = v"
proof
  assume eq: "str_uuid u = str_uuid v"
  define h where "h w = hex_digits 32 (unat w)" for w :: uuid
  have len: "length (h w) = 32" for w by (simp add: h_def)
  have "take 8 (h u) = take 8 (h v)" "take 4 (drop 8 (h u)) = take 4 (drop 8 (h v))"
    "take 4 (drop 12 (h u)) = take 4 (drop 12 (h v))"
    "take 4 (drop 16 (h u)) = take 4 (drop 16 (h v))" "drop 20 (h u) = drop 20 (h v)"
    using eq by (simp_all add: str_uuid_def h_def [symmetric] Let_def append_eq_append_conv len)
  then have "take 20 (h u) = take 20 (h v)"
    by (simp only: take_groups)
  with \<open>drop 20 (h u) = drop 20 (h v)\<close> have "h u = h v" by (metis append_take_drop_id)
  moreover have "unat w < 16 ^ 32" for w :: uuid
    using unsigned_less [of w] by simp
  ultimately have "unat u = unat v" by (simp add: h_def hex_digits_inject)
  then show "u = v" by (simp add: word_unat_eq_iff)
qed simp

text \<open>
  Every exception the modelled code raises or lets through: domain errors with their
  message, the store's \<open>ConcurrencyConflict\<close>, the registry's \<open>UnknownEventType\<close>,
  pydantic's validation error, the built-in \<open>KeyError\<close>, \<open>IndexError\<close>, \<open>TypeError\<close>,
  \<open>ValueError\<close> and \<open>RuntimeError\<close>, Temporal's \<open>ApplicationError\<close> (message, type, non-retryable) and
  \<open>InfrastructureError\<close>, a failure of the database driver or the network with its message.
\<close>

datatype exn =
    DomainError domain_class string
  | ConcurrencyConflict string uuid int int
  | UnknownEventType string
  | ValidationError
  | KeyError
  | IndexError
  | TypeError
  | ValueError string
  | ApplicationError string "string option" bool
  | RuntimeError string
  | InfrastructureError string

type_synonym 'a result = "exn + 'a"

section \<open>UUID texts\<close>

definition hex_digit :: "char \<Rightarrow> nat option" where
  "hex_digit ch =
     (let c = of_char ch :: nat
      in if 48 \<le> c \<and> c \<le> 57 then Some (c - 48)
         else if 97 \<le> c \<and> c \<le> 102 then Some (c - 87)
         else if 65 \<le> c \<and> c \<le> 70 then Some (c - 55) else None)"

fun parse_hex :: "nat \<Rightarrow> string \<Rightarrow> nat option" where
  "parse_hex acc [] = Some acc"
| "parse_hex acc (ch # cs) = (case hex_digit ch of None \<Rightarrow> None | Some d \<Rightarrow> parse_hex (acc * 16 + d) cs)"

text \<open>\<open>s.replace(pat, "")\<close> and \<open>s.strip(chars)\<close>.\<close>

fun py_remove :: "string \<Rightarrow> string \<Rightarrow> string" where
  "py_remove pat [] = []"
| "py_remove pat (ch # cs) =
     (if pat \<noteq> [] \<and> take (length pat) (ch # cs) = pat then py_remove pat (drop (length pat) (ch # cs))
      else ch # py_remove pat cs)"

definition py_strip :: "char list \<Rightarrow> string \<Rightarrow> string" where
  "py_strip chars t = rev (dropWhile (\<lambda>ch. ch \<in> set chars) (rev (dropWhile (\<lambda>ch. ch \<in> set chars) t)))"

text \<open>
  \<open>uuid.UUID(text)\<close>. \<open>int(text, 16)\<close> would also take a sign, blanks or underscores among the 32
  characters; the model refuses them.
\<close>

definition UUID :: "string \<Rightarrow> uuid result" where
  "UUID t =
     (let h = py_remove ''-'' (py_strip ''{}'' (py_remove ''uuid:'' (py_remove ''urn:'' t)))
      in if length h \<noteq> 32 then Inl (ValueError ''badly formed hexadecimal UUID string'')
         else case parse_hex 0 h of
             None \<Rightarrow> Inl (ValueError ''invalid literal for int() with base 16'')
           | Some n \<Rightarrow> Inr (word_of_nat n))"

lemma hex_digit_digit_char: "d < 16 \<Longrightarrow> hex_digit (digit_char d) = Some d"
  by (auto simp: hex_digit_def digit_char_def Let_def)

lemma hex_digits_chars: "set (hex_digits k n) \<subseteq> {ch. hex_digit ch \<noteq> None}"
  by (induction k arbitrary: n) (auto simp: hex_digit_digit_char)

lemma parse_hex_append:
  "parse_hex acc (xs @ ys) = (case parse_hex acc xs of None \<Rightarrow> None | Some n \<Rightarrow> parse_hex n ys)"
  by (induction xs arbitrary: acc) (auto split: option.splits)

lemma parse_hex_digits: "n < 16 ^ k \<Longrightarrow> parse_hex 0 (hex_digits k n) = Some n"
proof (induction k arbitrary: n)
  case (Suc k)
  have "n div 16 < 16 ^ k" using Suc.prems by (simp add: less_mult_imp_div_less mult.commute)
  with Suc.IH show ?case by (simp add: parse_hex_append hex_digit_digit_char)
qed simp

lemma py_remove_id: "ch \<notin> set t \<Longrightarrow> py_remove (ch # cs) t = t"
  by (induction "ch # cs" t rule: py_remove.induct) auto

lemma py_remove_char: "py_remove [ch] t = filter (\<lambda>x. x \<noteq> ch) t"
  by (induction "[ch]" t rule: py_remove.induct) auto

lemma py_strip_id: "set t \<inter> set chars = {} \<Longrightarrow> py_strip chars t = t"
proof -
  assume "set t \<inter> set chars = {}"
  then have "dropWhile (\<lambda>ch. ch \<in> set chars) t = t" "dropWhile (\<lambda>ch. ch \<in> set chars) (rev t) = rev t"
    by (auto simp: dropWhile_eq_self_iff disjoint_iff hd_rev)
  then show ?thesis by (simp add: py_strip_def)
qed

lemma UUID_str_uuid [simp]: "UUID (str_uuid u) = Inr u"
proof -
  define h where "h = hex_digits 32 (unat u)"
  have len: "length h = 32" and hex: "set h \<subseteq> {ch. hex_digit ch \<noteq> None}"
    unfolding h_def by (rule length_hex_digits hex_digits_chars)+
  have special: "hex_digit (CHR ''-'') = None" "hex_digit (CHR ''u'') = None" "hex_digit (CHR ''{'') = None"
    "hex_digit (CHR ''}'') = None" by (simp_all add: hex_digit_def)
  have str: "str_uuid u = take 8 h @ ''-'' @ take 4 (drop 8 h) @ ''-'' @ take 4 (drop 12 h) @ ''-'' @
      take 4 (drop 16 h) @ ''-'' @ drop 20 h" by (simp add: str_uuid_def h_def Let_def)
  have parts: "set (take n (drop m h)) \<subseteq> set h" "set (take n h) \<subseteq> set h" "set (drop n h) \<subseteq> set h" for m n
    by (meson order_trans set_take_subset set_drop_subset)+
  have chars: "set (str_uuid u) \<subseteq> insert (CHR ''-'') {ch. hex_digit ch \<noteq> None}"
    unfolding str set_append using subset_trans [OF parts(1) hex] subset_trans [OF parts(2) hex] subset_trans [OF parts(3) hex]
    by (intro Un_least) (simp_all add: subset_insertI2)
  have "CHR ''u'' \<notin> set (str_uuid u)" "set (str_uuid u) \<inter> set ''{}'' = {}"
    using chars special by auto
  then have "py_strip ''{}'' (py_remove ''uuid:'' (py_remove ''urn:'' (str_uuid u))) = str_uuid u"
    by (simp add: py_remove_id py_strip_id)
  moreover have nodash: "filter (\<lambda>x. x \<noteq> CHR ''-'') xs = xs" if "set xs \<subseteq> set h" for xs
    using that hex special(1) by (auto simp: filter_id_conv)
  have "filter (\<lambda>x. x \<noteq> CHR ''-'') (str_uuid u) = h"
    unfolding str using parts append_take_drop_id [of 20 h] by (simp add: nodash take_groups)
  ultimately have "py_remove ''-'' (py_strip ''{}'' (py_remove ''uuid:'' (py_remove ''urn:'' (str_uuid u)))) = h"
    by (simp add: py_remove_char)
  moreover have "parse_hex 0 h = Some (unat u)"
    unfolding h_def by (rule parse_hex_digits) (use unsigned_less [of u] in simp)
  ultimately show ?thesis by (simp add: UUID_def Let_def len)
qed

lemma str_uuid_nonempty [simp]: "str_uuid u \<noteq> []"
  by (metis length_str_uuid list.size(3) zero_neq_numeral)

section \<open>Money\<close>

text \<open>
  \<open>CurrencyCode\<close> is a string pydantic accepts only if it is three letters A to Z;
  constructing a \<open>Money\<close> validates it.
\<close>

record money =
  amount :: int
  currency :: string

definition currency_ok :: "string \<Rightarrow> bool" where
  "currency_ok c \<longleftrightarrow>
     length c = 3 \<and> list_all (\<lambda>ch. 65 \<le> (of_char ch :: nat) \<and> (of_char ch :: nat) \<le> 90) c"

definition Money :: "int \<Rightarrow> string \<Rightarrow> money result" where
  "Money a c = (if currency_ok c then Inr \<lparr>amount = a, currency = c\<rparr> else Inl ValidationError)"

definition money_zero :: "string \<Rightarrow> money result" where
  "money_zero c = Money 0 c"

definition assert_same_currency :: "money \<Rightarrow> money \<Rightarrow> unit result" where
  "assert_same_currency m n =
     (if currency m \<noteq> currency n
      then Inl (DomainError CurrencyMismatch
             (''cannot combine '' @ currency m @ '' with '' @ currency n))
      else Inr ())"

definition money_add :: "money \<Rightarrow> money \<Rightarrow> money result" where
  "money_add m n =
     bindE (assert_same_currency m n) (\<lambda>_. Money (amount m + amount n) (currency m))"

definition money_subtract :: "money \<Rightarrow> money \<Rightarrow> money result" where
  "money_subtract m n =
     bindE (assert_same_currency m n) (\<lambda>_. Money (amount m - amount n) (currency m))"

definition money_negate :: "money \<Rightarrow> money result" where
  "money_negate m = Money (- amount m) (currency m)"

definition is_positive :: "money \<Rightarrow> bool" where
  "is_positive m \<longleftrightarrow> amount m > 0"

definition is_negative :: "money \<Rightarrow> bool" where
  "is_negative m \<longleftrightarrow> amount m < 0"

definition assert_positive :: "money \<Rightarrow> money result" where
  "assert_positive m =
     (if amount m \<le> 0
      then Inl (DomainError InvalidAmount (''amount must be positive, got '' @ str_int (amount m)))
      else Inr m)"

definition money_lt :: "money \<Rightarrow> money \<Rightarrow> bool result" where
  "money_lt m n = bindE (assert_same_currency m n) (\<lambda>_. Inr (amount m < amount n))"

definition money_le :: "money \<Rightarrow> money \<Rightarrow> bool result" where
  "money_le m n = bindE (assert_same_currency m n) (\<lambda>_. Inr (amount m \<le> amount n))"

definition str_money :: "money \<Rightarrow> string" where
  "str_money m = str_int (amount m) @ '' '' @ currency m"

text \<open>A validated value: what every \<open>Money\<close> object that exists satisfies.\<close>

definition money_ok :: "money \<Rightarrow> bool" where
  "money_ok m \<longleftrightarrow> currency_ok (currency m)"

lemma Money_ok [simp]: "currency_ok c \<Longrightarrow> Money a c = Inr \<lparr>amount = a, currency = c\<rparr>"
  by (simp add: Money_def)

lemma Money_eq_Inr [result_iffs]:
  "Money a c = Inr m \<longleftrightarrow> currency_ok c \<and> m = \<lparr>amount = a, currency = c\<rparr>"
  by (auto simp: Money_def)

lemma assert_same_currency_simps [simp]:
  "currency m = currency n \<Longrightarrow> assert_same_currency m n = Inr ()"
  "currency m \<noteq> currency n \<Longrightarrow> assert_same_currency m n =
     Inl (DomainError CurrencyMismatch (''cannot combine '' @ currency m @ '' with '' @ currency n))"
  by (simp_all add: assert_same_currency_def)

lemma assert_same_currency_eq_Inr [result_iffs]:
  "assert_same_currency m n = Inr u \<longleftrightarrow> currency m = currency n"
  by (simp add: assert_same_currency_def)

lemma money_add_eq_Inr [result_iffs]:
  "money_add m n = Inr k \<longleftrightarrow> currency m = currency n \<and> currency_ok (currency m) \<and>
     k = \<lparr>amount = amount m + amount n, currency = currency m\<rparr>"
  by (auto simp: money_add_def result_iffs)

lemma money_subtract_eq_Inr [result_iffs]:
  "money_subtract m n = Inr k \<longleftrightarrow> currency m = currency n \<and> currency_ok (currency m) \<and>
     k = \<lparr>amount = amount m - amount n, currency = currency m\<rparr>"
  by (auto simp: money_subtract_def result_iffs)

lemma assert_positive_eq_Inr [result_iffs]:
  "assert_positive m = Inr k \<longleftrightarrow> 0 < amount m \<and> k = m"
  by (auto simp: assert_positive_def)

lemma money_lt_eq_Inr [result_iffs]:
  "money_lt m n = Inr b \<longleftrightarrow> currency m = currency n \<and> b = (amount m < amount n)"
  by (auto simp: money_lt_def result_iffs)

lemma money_le_eq_Inr [result_iffs]:
  "money_le m n = Inr b \<longleftrightarrow> currency m = currency n \<and> b = (amount m \<le> amount n)"
  by (auto simp: money_le_def result_iffs)

section \<open>The aggregate base class\<close>

record 'e aggregate_root =
  agg_version :: int
  agg_pending :: "'e list"

definition expected_version :: "('e, 'z) aggregate_root_scheme \<Rightarrow> int" where
  "expected_version a = agg_version a - int (length (agg_pending a))"

definition has_pending_events :: "('e, 'z) aggregate_root_scheme \<Rightarrow> bool" where
  "has_pending_events a \<longleftrightarrow> agg_pending a \<noteq> []"

text \<open>\<open>_record\<close>: apply the event, count it, buffer it. The subclass supplies \<open>_apply\<close>.\<close>

definition record_event ::
  "(('e, 'z) aggregate_root_scheme \<Rightarrow> 'e \<Rightarrow> ('e, 'z) aggregate_root_scheme result) \<Rightarrow>
   'e \<Rightarrow> ('e, 'z) aggregate_root_scheme \<Rightarrow> ('e, 'z) aggregate_root_scheme result" where
  "record_event apply_event e a =
     bindE (apply_event a e)
       (\<lambda>a'. Inr (a'\<lparr>agg_version := agg_version a' + 1, agg_pending := agg_pending a' @ [e]\<rparr>))"

definition pull_pending_events ::
  "('e, 'z) aggregate_root_scheme \<Rightarrow> 'e list \<times> ('e, 'z) aggregate_root_scheme" where
  "pull_pending_events a = (agg_pending a, a\<lparr>agg_pending := []\<rparr>)"

definition load_from_history ::
  "(('e, 'z) aggregate_root_scheme \<Rightarrow> 'e \<Rightarrow> ('e, 'z) aggregate_root_scheme result) \<Rightarrow>
   ('e, 'z) aggregate_root_scheme \<Rightarrow> 'e list \<Rightarrow> ('e, 'z) aggregate_root_scheme result" where
  "load_from_history apply_event a events =
     foldE (\<lambda>a e. bindE (apply_event a e) (\<lambda>a'. Inr (a'\<lparr>agg_version := agg_version a' + 1\<rparr>)))
       a events"

text \<open>
  The contract of \<open>_apply\<close>: it works on the subclass's fields only. Version and buffer
  belong to the base class.
\<close>

locale aggregate =
  fixes apply_event ::
    "('e, 'z) aggregate_root_scheme \<Rightarrow> 'e \<Rightarrow> ('e, 'z) aggregate_root_scheme result"
  assumes apply_buffer:
    "apply_event (a\<lparr>agg_version := v, agg_pending := p\<rparr>) e =
       map_sum id (\<lambda>a'. a'\<lparr>agg_version := v, agg_pending := p\<rparr>) (apply_event a e)"
begin

lemma apply_frame:
  assumes "apply_event a e = Inr a'"
  shows "agg_version a' = agg_version a" and "agg_pending a' = agg_pending a"
proof -
  have eq: "a' = a'\<lparr>agg_version := agg_version a, agg_pending := agg_pending a\<rparr>"
    using apply_buffer [where a = a and e = e and v = "agg_version a" and p = "agg_pending a"] assms
    by simp
  show "agg_version a' = agg_version a" by (subst eq) simp
  show "agg_pending a' = agg_pending a" by (subst eq) simp
qed

lemma record_event_frame:
  assumes "record_event apply_event e a = Inr a'"
  shows "agg_version a' = agg_version a + 1" and "agg_pending a' = agg_pending a @ [e]"
    and "expected_version a' = expected_version a"
  using assms by (auto simp: record_event_def result_iffs expected_version_def apply_frame)

lemma load_from_history_frame:
  "load_from_history apply_event a es = Inr a' \<Longrightarrow>
     agg_version a' = agg_version a + int (length es) \<and> agg_pending a' = agg_pending a"
proof (induction es arbitrary: a)
  case Nil
  then show ?case by (simp add: load_from_history_def)
next
  case (Cons e es)
  then obtain b where b: "apply_event a e = Inr b"
    and rest: "load_from_history apply_event (b\<lparr>agg_version := agg_version b + 1\<rparr>) es = Inr a'"
    by (auto simp: load_from_history_def result_iffs)
  from Cons.IH [OF rest] apply_frame [OF b] show ?case by simp
qed

text \<open>
  Recording is replaying: an aggregate that records \<open>es\<close> on top of a committed state
  has, once its buffer is pulled, the state and version that replaying \<open>es\<close> gives.
\<close>

lemma record_event_replay:
  assumes "record_event apply_event e a = Inr a'"
  shows "load_from_history apply_event (a\<lparr>agg_pending := []\<rparr>) [e] = Inr (a'\<lparr>agg_pending := []\<rparr>)"
proof -
  from assms obtain b where b: "apply_event a e = Inr b"
    and a': "a' = b\<lparr>agg_version := agg_version b + 1, agg_pending := agg_pending b @ [e]\<rparr>"
    by (auto simp: record_event_def result_iffs)
  have "apply_event (a\<lparr>agg_pending := []\<rparr>) e = Inr (b\<lparr>agg_version := agg_version a, agg_pending := []\<rparr>)"
    using apply_buffer [where a = a and e = e and v = "agg_version a" and p = "[]"] b by simp
  with apply_frame [OF b] show ?thesis
    by (simp add: load_from_history_def a')
qed

lemma load_from_history_append:
  "load_from_history apply_event a (es @ fs) =
     bindE (load_from_history apply_event a es) (\<lambda>b. load_from_history apply_event b fs)"
  by (simp add: load_from_history_def foldE_append)

end

end
