(* ===== verification/Domain_Events.thy ===== *)
theory Domain_Events
  imports Shared_Kernel
begin

text \<open>
  The persisted events of the three bounded contexts: \<^verbatim>\<open>domain/accounts/events.py\<close>,
  \<^verbatim>\<open>domain/ledger/leg.py\<close> and \<^verbatim>\<open>events.py\<close>, \<^verbatim>\<open>domain/transfers/events.py\<close>. Each
  union of event classes is a datatype with one constructor per class, and
  \<open>domain_event\<close> is their common base class \<open>DomainEvent\<close>. A class itself, as the
  registry handles it, is a value of \<open>event_cls\<close>.
\<close>

section \<open>Account events\<close>

datatype account_event =
    AccountOpened string
  | FundsDeposited money
  | FundsHeld money uuid
  | HoldReleased money uuid
  | AccountDebited money uuid
  | AccountCredited money uuid
  | AccountFrozen
  | AccountClosed

definition ACCOUNT_STREAM :: string where
  "ACCOUNT_STREAM = ''account''"

section \<open>Journal legs and events\<close>

datatype leg_direction = DEBIT | CREDIT

record leg =
  leg_account_id :: uuid
  leg_direction :: leg_direction
  leg_amount :: money

definition leg_debit :: "uuid \<Rightarrow> money \<Rightarrow> leg" where
  "leg_debit acc m = \<lparr>leg_account_id = acc, leg_direction = DEBIT, leg_amount = m\<rparr>"

definition leg_credit :: "uuid \<Rightarrow> money \<Rightarrow> leg" where
  "leg_credit acc m = \<lparr>leg_account_id = acc, leg_direction = CREDIT, leg_amount = m\<rparr>"

datatype journal_event =
  JournalEntryPosted "leg list" "string option"

definition JOURNAL_STREAM :: string where
  "JOURNAL_STREAM = ''journal''"

section \<open>Transfer events\<close>

datatype failure_reason =
    INSUFFICIENT_FUNDS
  | CONFLICT
  | UNKNOWN_ACCOUNT
  | ACCOUNT_NOT_ACTIVE
  | CURRENCY_MISMATCH
  | UNBALANCED
  | OTHER

fun failure_reason_value :: "failure_reason \<Rightarrow> string" where
  "failure_reason_value INSUFFICIENT_FUNDS = ''insufficient_funds''"
| "failure_reason_value CONFLICT = ''conflict''"
| "failure_reason_value UNKNOWN_ACCOUNT = ''unknown_account''"
| "failure_reason_value ACCOUNT_NOT_ACTIVE = ''account_not_active''"
| "failure_reason_value CURRENCY_MISMATCH = ''currency_mismatch''"
| "failure_reason_value UNBALANCED = ''unbalanced_entry''"
| "failure_reason_value OTHER = ''other''"

text \<open>\<open>FailureReason(value)\<close>: the member with that value, or \<open>ValueError\<close>.\<close>

definition all_failure_reasons :: "failure_reason list" where
  "all_failure_reasons =
     [INSUFFICIENT_FUNDS, CONFLICT, UNKNOWN_ACCOUNT, ACCOUNT_NOT_ACTIVE, CURRENCY_MISMATCH,
      UNBALANCED, OTHER]"

definition FailureReason :: "string \<Rightarrow> failure_reason result" where
  "FailureReason v =
     (case find (\<lambda>r. failure_reason_value r = v) all_failure_reasons of
        Some r \<Rightarrow> Inr r
      | None \<Rightarrow> Inl (ValueError v))"

datatype transfer_event =
    TransferInitiated uuid uuid money "uuid option"
  | TransferHeld
  | TransferPosted uuid
  | TransferCompleted
  | TransferFailed failure_reason "string option"
  | TransferParkedForReconciliation string
  | TransferReconciled string "string option"

definition TRANSFER_STREAM :: string where
  "TRANSFER_STREAM = ''transfer''"

section \<open>The base class and the event classes\<close>

datatype domain_event =
    AccountE account_event
  | JournalE journal_event
  | TransferE transfer_event

datatype event_cls =
    AccountOpened_cls
  | FundsDeposited_cls
  | FundsHeld_cls
  | HoldReleased_cls
  | AccountDebited_cls
  | AccountCredited_cls
  | AccountFrozen_cls
  | AccountClosed_cls
  | JournalEntryPosted_cls
  | TransferInitiated_cls
  | TransferHeld_cls
  | TransferPosted_cls
  | TransferCompleted_cls
  | TransferFailed_cls
  | TransferParkedForReconciliation_cls
  | TransferReconciled_cls

definition ACCOUNT_EVENT_TYPES :: "event_cls list" where
  "ACCOUNT_EVENT_TYPES =
     [AccountOpened_cls, FundsDeposited_cls, FundsHeld_cls, HoldReleased_cls,
      AccountDebited_cls, AccountCredited_cls, AccountFrozen_cls, AccountClosed_cls]"

definition JOURNAL_EVENT_TYPES :: "event_cls list" where
  "JOURNAL_EVENT_TYPES = [JournalEntryPosted_cls]"

definition TRANSFER_EVENT_TYPES :: "event_cls list" where
  "TRANSFER_EVENT_TYPES =
     [TransferInitiated_cls, TransferHeld_cls, TransferPosted_cls, TransferCompleted_cls,
      TransferFailed_cls, TransferParkedForReconciliation_cls, TransferReconciled_cls]"

text \<open>\<open>type(event)\<close> and \<open>cls.__name__\<close>.\<close>

fun class_of :: "domain_event \<Rightarrow> event_cls" where
  "class_of (AccountE (AccountOpened _)) = AccountOpened_cls"
| "class_of (AccountE (FundsDeposited _)) = FundsDeposited_cls"
| "class_of (AccountE (FundsHeld _ _)) = FundsHeld_cls"
| "class_of (AccountE (HoldReleased _ _)) = HoldReleased_cls"
| "class_of (AccountE (AccountDebited _ _)) = AccountDebited_cls"
| "class_of (AccountE (AccountCredited _ _)) = AccountCredited_cls"
| "class_of (AccountE AccountFrozen) = AccountFrozen_cls"
| "class_of (AccountE AccountClosed) = AccountClosed_cls"
| "class_of (JournalE (JournalEntryPosted _ _)) = JournalEntryPosted_cls"
| "class_of (TransferE (TransferInitiated _ _ _ _)) = TransferInitiated_cls"
| "class_of (TransferE TransferHeld) = TransferHeld_cls"
| "class_of (TransferE (TransferPosted _)) = TransferPosted_cls"
| "class_of (TransferE TransferCompleted) = TransferCompleted_cls"
| "class_of (TransferE (TransferFailed _ _)) = TransferFailed_cls"
| "class_of (TransferE (TransferParkedForReconciliation _)) = TransferParkedForReconciliation_cls"
| "class_of (TransferE (TransferReconciled _ _)) = TransferReconciled_cls"

fun class_name :: "event_cls \<Rightarrow> string" where
  "class_name AccountOpened_cls = ''AccountOpened''"
| "class_name FundsDeposited_cls = ''FundsDeposited''"
| "class_name FundsHeld_cls = ''FundsHeld''"
| "class_name HoldReleased_cls = ''HoldReleased''"
| "class_name AccountDebited_cls = ''AccountDebited''"
| "class_name AccountCredited_cls = ''AccountCredited''"
| "class_name AccountFrozen_cls = ''AccountFrozen''"
| "class_name AccountClosed_cls = ''AccountClosed''"
| "class_name JournalEntryPosted_cls = ''JournalEntryPosted''"
| "class_name TransferInitiated_cls = ''TransferInitiated''"
| "class_name TransferHeld_cls = ''TransferHeld''"
| "class_name TransferPosted_cls = ''TransferPosted''"
| "class_name TransferCompleted_cls = ''TransferCompleted''"
| "class_name TransferFailed_cls = ''TransferFailed''"
| "class_name TransferParkedForReconciliation_cls = ''TransferParkedForReconciliation''"
| "class_name TransferReconciled_cls = ''TransferReconciled''"

text \<open>
  An event that can exist: pydantic validated the currency of every \<open>Money\<close> in it and
  the currency code an account is opened with.
\<close>

fun event_ok :: "domain_event \<Rightarrow> bool" where
  "event_ok (AccountE (AccountOpened c)) = currency_ok c"
| "event_ok (AccountE (FundsDeposited m)) = money_ok m"
| "event_ok (AccountE (FundsHeld m _)) = money_ok m"
| "event_ok (AccountE (HoldReleased m _)) = money_ok m"
| "event_ok (AccountE (AccountDebited m _)) = money_ok m"
| "event_ok (AccountE (AccountCredited m _)) = money_ok m"
| "event_ok (JournalE (JournalEntryPosted ls _)) = list_all (\<lambda>l. money_ok (leg_amount l)) ls"
| "event_ok (TransferE (TransferInitiated _ _ m _)) = money_ok m"
| "event_ok _ = True"

lemma class_name_inject [simp]: "class_name c = class_name d \<longleftrightarrow> c = d"
  by (cases c; cases d) simp_all

lemma streams_distinct [simp]:
  "ACCOUNT_STREAM \<noteq> JOURNAL_STREAM" "JOURNAL_STREAM \<noteq> ACCOUNT_STREAM"
  "ACCOUNT_STREAM \<noteq> TRANSFER_STREAM" "TRANSFER_STREAM \<noteq> ACCOUNT_STREAM"
  "JOURNAL_STREAM \<noteq> TRANSFER_STREAM" "TRANSFER_STREAM \<noteq> JOURNAL_STREAM"
  by (simp_all add: ACCOUNT_STREAM_def JOURNAL_STREAM_def TRANSFER_STREAM_def)

lemma FailureReason_value [simp]: "FailureReason (failure_reason_value r) = Inr r"
  by (cases r) (simp_all add: FailureReason_def all_failure_reasons_def)

lemma FailureReason_eq_Inr: "FailureReason v = Inr r \<longleftrightarrow> v = failure_reason_value r"
proof
  assume "FailureReason v = Inr r"
  then have "find (\<lambda>r. failure_reason_value r = v) all_failure_reasons = Some r"
    by (simp add: FailureReason_def split: option.splits)
  then show "v = failure_reason_value r" by (auto simp: find_Some_iff)
qed simp

end
