(* ===== verification/Runtime.thy ===== *)
theory Runtime
  imports Domain_Events
begin

text \<open>
  What the code calls but the repository does not contain. A \<open>runtime\<close> bundles the
  functions the model takes as parameters: pydantic's serialisation of the event classes,
  the name-based \<open>uuid.uuid5\<close> (a hash), the values \<open>uuid.uuid7()\<close> and
  \<open>datetime.now(UTC)\<close> yield when the event at a log position is built, and the order in
  which a \<open>set\<close> is iterated. The predicates below name what the code relies on; a property
  that needs one has it as a hypothesis and a witness with \<open>plain_runtime\<close>, a concrete
  instance that satisfies them all.
\<close>

section \<open>JSON values\<close>

datatype json =
    JNull
  | JBool bool
  | JInt int
  | JStr string
  | JArr "json list"
  | JObj "(string \<times> json) list"

text \<open>\<open>dict[str, Any]\<close>, which is what a dumped model and a stored payload are.\<close>

type_synonym json_object = "(string \<times> json) list"

text \<open>\<open>d[key]\<close> on a decoded JSON object, and on a decoded value that may be anything.\<close>

definition obj_get :: "json_object \<Rightarrow> string \<Rightarrow> json result" where
  "obj_get d k = (case map_of d k of Some v \<Rightarrow> Inr v | None \<Rightarrow> Inl KeyError)"

definition json_get :: "json \<Rightarrow> string \<Rightarrow> json result" where
  "json_get j k = (case j of JObj d \<Rightarrow> obj_get d k | _ \<Rightarrow> Inl TypeError)"

section \<open>The parameters\<close>

record runtime =
  rt_model_dump :: "domain_event \<Rightarrow> json_object"
  rt_model_validate :: "event_cls \<Rightarrow> json_object \<Rightarrow> domain_event result"
  rt_uuid5 :: "uuid \<Rightarrow> string \<Rightarrow> uuid"
  rt_event_id :: "int \<Rightarrow> uuid"
  rt_now :: "int \<Rightarrow> int"
  rt_set_str :: "string list \<Rightarrow> string list"
  rt_set_uuid :: "uuid list \<Rightarrow> uuid list"

text \<open>
  Pydantic: validating the JSON dump of a valid model against its own class gives the model
  back.
\<close>

definition codec_round_trip :: "runtime \<Rightarrow> bool" where
  "codec_round_trip rt \<longleftrightarrow>
     (\<forall>e. event_ok e \<longrightarrow> rt_model_validate rt (class_of e) (rt_model_dump rt e) = Inr e)"

text \<open>Pydantic: a nested model dumps to an object with one entry per field.\<close>

fun event_money :: "domain_event \<Rightarrow> money option" where
  "event_money (AccountE (FundsDeposited m)) = Some m"
| "event_money (AccountE (FundsHeld m _)) = Some m"
| "event_money (AccountE (HoldReleased m _)) = Some m"
| "event_money (AccountE (AccountDebited m _)) = Some m"
| "event_money (AccountE (AccountCredited m _)) = Some m"
| "event_money _ = None"

definition codec_amount_fields :: "runtime \<Rightarrow> bool" where
  "codec_amount_fields rt \<longleftrightarrow>
     (\<forall>e m. event_money e = Some m \<longrightarrow>
        (\<exists>j. obj_get (rt_model_dump rt e) ''amount'' = Inr j \<and>
             json_get j ''amount'' = Inr (JInt (amount m)) \<and>
             json_get j ''currency'' = Inr (JStr (currency m))))"

text \<open>Iterating a \<open>set\<close> visits exactly its elements.\<close>

definition set_order_ok :: "runtime \<Rightarrow> bool" where
  "set_order_ok rt \<longleftrightarrow>
     (\<forall>xs. set (rt_set_str rt xs) = set xs) \<and> (\<forall>xs. set (rt_set_uuid rt xs) = set xs)"

lemma codec_round_tripD:
  "codec_round_trip rt \<Longrightarrow> event_ok e \<Longrightarrow>
     rt_model_validate rt (class_of e) (rt_model_dump rt e) = Inr e"
  by (simp add: codec_round_trip_def)

lemma set_order_okD [simp]:
  assumes "set_order_ok rt"
  shows "set (rt_set_str rt xs) = set xs" "set (rt_set_uuid rt us) = set us"
  using assms by (simp_all add: set_order_ok_def)

section \<open>A concrete instance\<close>

text \<open>
  A codec with one object entry per field. Identifiers are encoded as integers, which is
  enough here: the model relies on the two laws above only.
\<close>

definition enc_uuid :: "uuid \<Rightarrow> json" where
  "enc_uuid u = JInt (uint u)"

fun dec_uuid :: "json \<Rightarrow> uuid result" where
  "dec_uuid (JInt i) = Inr (word_of_int i)"
| "dec_uuid _ = Inl ValidationError"

definition enc_option :: "('a \<Rightarrow> json) \<Rightarrow> 'a option \<Rightarrow> json" where
  "enc_option f x = (case x of None \<Rightarrow> JNull | Some y \<Rightarrow> JArr [f y])"

fun dec_option :: "(json \<Rightarrow> 'a result) \<Rightarrow> json \<Rightarrow> 'a option result" where
  "dec_option f JNull = Inr None"
| "dec_option f (JArr [j]) = bindE (f j) (\<lambda>x. Inr (Some x))"
| "dec_option f _ = Inl ValidationError"

fun dec_str :: "json \<Rightarrow> string result" where
  "dec_str (JStr t) = Inr t"
| "dec_str _ = Inl ValidationError"

fun dec_int :: "json \<Rightarrow> int result" where
  "dec_int (JInt i) = Inr i"
| "dec_int _ = Inl ValidationError"

definition enc_money :: "money \<Rightarrow> json" where
  "enc_money m = JObj [(''amount'', JInt (amount m)), (''currency'', JStr (currency m))]"

definition dec_money :: "json \<Rightarrow> money result" where
  "dec_money j =
     bindE (bindE (json_get j ''amount'') dec_int) (\<lambda>a.
     bindE (bindE (json_get j ''currency'') dec_str) (\<lambda>c. Money a c))"

definition enc_leg :: "leg \<Rightarrow> json" where
  "enc_leg l =
     JObj [(''account_id'', enc_uuid (leg_account_id l)),
           (''direction'', JBool (leg_direction l = DEBIT)),
           (''amount'', enc_money (leg_amount l))]"

definition dec_direction :: "json \<Rightarrow> leg_direction result" where
  "dec_direction j = (case j of JBool b \<Rightarrow> Inr (if b then DEBIT else CREDIT) | _ \<Rightarrow> Inl ValidationError)"

definition dec_leg :: "json \<Rightarrow> leg result" where
  "dec_leg j =
     bindE (bindE (json_get j ''account_id'') dec_uuid) (\<lambda>a.
     bindE (bindE (json_get j ''direction'') dec_direction) (\<lambda>d.
     bindE (bindE (json_get j ''amount'') dec_money) (\<lambda>m.
       Inr \<lparr>leg_account_id = a, leg_direction = d, leg_amount = m\<rparr>)))"

fun dec_list :: "(json \<Rightarrow> 'a result) \<Rightarrow> json \<Rightarrow> 'a list result" where
  "dec_list f (JArr js) = mapE f js"
| "dec_list f _ = Inl ValidationError"

fun plain_dump :: "domain_event \<Rightarrow> json_object" where
  "plain_dump (AccountE (AccountOpened c)) = [(''currency'', JStr c)]"
| "plain_dump (AccountE (FundsDeposited m)) = [(''amount'', enc_money m)]"
| "plain_dump (AccountE (FundsHeld m op)) =
     [(''amount'', enc_money m), (''operation_id'', enc_uuid op)]"
| "plain_dump (AccountE (HoldReleased m op)) =
     [(''amount'', enc_money m), (''operation_id'', enc_uuid op)]"
| "plain_dump (AccountE (AccountDebited m op)) =
     [(''amount'', enc_money m), (''operation_id'', enc_uuid op)]"
| "plain_dump (AccountE (AccountCredited m op)) =
     [(''amount'', enc_money m), (''operation_id'', enc_uuid op)]"
| "plain_dump (AccountE AccountFrozen) = []"
| "plain_dump (AccountE AccountClosed) = []"
| "plain_dump (JournalE (JournalEntryPosted legs ref)) =
     [(''legs'', JArr (map enc_leg legs)), (''reference'', enc_option JStr ref)]"
| "plain_dump (TransferE (TransferInitiated src dst m rvs)) =
     [(''source_account_id'', enc_uuid src), (''destination_account_id'', enc_uuid dst),
           (''amount'', enc_money m), (''reversal_of'', enc_option enc_uuid rvs)]"
| "plain_dump (TransferE TransferHeld) = []"
| "plain_dump (TransferE (TransferPosted eid)) = [(''journal_entry_id'', enc_uuid eid)]"
| "plain_dump (TransferE TransferCompleted) = []"
| "plain_dump (TransferE (TransferFailed r d)) =
     [(''reason'', JStr (failure_reason_value r)), (''detail'', enc_option JStr d)]"
| "plain_dump (TransferE (TransferParkedForReconciliation d)) = [(''detail'', JStr d)]"
| "plain_dump (TransferE (TransferReconciled r d)) =
     [(''resolution'', JStr r), (''detail'', enc_option JStr d)]"

definition dec_moved :: "(money \<Rightarrow> uuid \<Rightarrow> account_event) \<Rightarrow> json_object \<Rightarrow> domain_event result" where
  "dec_moved f j =
     bindE (bindE (obj_get j ''amount'') dec_money) (\<lambda>m.
     bindE (bindE (obj_get j ''operation_id'') dec_uuid) (\<lambda>op. Inr (AccountE (f m op))))"

fun plain_validate :: "event_cls \<Rightarrow> json_object \<Rightarrow> domain_event result" where
  "plain_validate AccountOpened_cls j =
     bindE (bindE (obj_get j ''currency'') dec_str) (\<lambda>c.
       if currency_ok c then Inr (AccountE (AccountOpened c)) else Inl ValidationError)"
| "plain_validate FundsDeposited_cls j =
     bindE (bindE (obj_get j ''amount'') dec_money) (\<lambda>m. Inr (AccountE (FundsDeposited m)))"
| "plain_validate FundsHeld_cls j = dec_moved FundsHeld j"
| "plain_validate HoldReleased_cls j = dec_moved HoldReleased j"
| "plain_validate AccountDebited_cls j = dec_moved AccountDebited j"
| "plain_validate AccountCredited_cls j = dec_moved AccountCredited j"
| "plain_validate AccountFrozen_cls j = Inr (AccountE AccountFrozen)"
| "plain_validate AccountClosed_cls j = Inr (AccountE AccountClosed)"
| "plain_validate JournalEntryPosted_cls j =
     bindE (bindE (obj_get j ''legs'') (dec_list dec_leg)) (\<lambda>ls.
     bindE (bindE (obj_get j ''reference'') (dec_option dec_str)) (\<lambda>r.
       Inr (JournalE (JournalEntryPosted ls r))))"
| "plain_validate TransferInitiated_cls j =
     bindE (bindE (obj_get j ''source_account_id'') dec_uuid) (\<lambda>s.
     bindE (bindE (obj_get j ''destination_account_id'') dec_uuid) (\<lambda>d.
     bindE (bindE (obj_get j ''amount'') dec_money) (\<lambda>m.
     bindE (bindE (obj_get j ''reversal_of'') (dec_option dec_uuid)) (\<lambda>r.
       Inr (TransferE (TransferInitiated s d m r))))))"
| "plain_validate TransferHeld_cls j = Inr (TransferE TransferHeld)"
| "plain_validate TransferPosted_cls j =
     bindE (bindE (obj_get j ''journal_entry_id'') dec_uuid) (\<lambda>e. Inr (TransferE (TransferPosted e)))"
| "plain_validate TransferCompleted_cls j = Inr (TransferE TransferCompleted)"
| "plain_validate TransferFailed_cls j =
     bindE (bindE (obj_get j ''reason'') dec_str) (\<lambda>t. bindE (FailureReason t) (\<lambda>r.
     bindE (bindE (obj_get j ''detail'') (dec_option dec_str)) (\<lambda>d.
       Inr (TransferE (TransferFailed r d)))))"
| "plain_validate TransferParkedForReconciliation_cls j =
     bindE (bindE (obj_get j ''detail'') dec_str) (\<lambda>d.
       Inr (TransferE (TransferParkedForReconciliation d)))"
| "plain_validate TransferReconciled_cls j =
     bindE (bindE (obj_get j ''resolution'') dec_str) (\<lambda>r.
     bindE (bindE (obj_get j ''detail'') (dec_option dec_str)) (\<lambda>d.
       Inr (TransferE (TransferReconciled r d))))"

text \<open>
  A stand-in for the hash: it folds the characters of the name into a 128-bit number, the
  36 characters of a leading UUID apart from the rest.
\<close>

definition fold_chars :: "uuid \<Rightarrow> string \<Rightarrow> uuid" where
  "fold_chars h name = foldl (\<lambda>h ch. h * 31 + of_nat (of_char ch)) h name"

definition plain_uuid5 :: "uuid \<Rightarrow> string \<Rightarrow> uuid" where
  "plain_uuid5 ns name = fold_chars ns (take 36 name) + fold_chars 0 (drop 36 name)"

definition plain_runtime :: runtime where
  "plain_runtime =
     \<lparr>rt_model_dump = plain_dump, rt_model_validate = plain_validate, rt_uuid5 = plain_uuid5,
      rt_event_id = (\<lambda>p. word_of_int p), rt_now = (\<lambda>p. p), rt_set_str = (\<lambda>xs. xs),
      rt_set_uuid = (\<lambda>xs. xs)\<rparr>"

lemma dec_enc [simp]:
  "dec_uuid (enc_uuid u) = Inr u"
  "money_ok m \<Longrightarrow> dec_money (enc_money m) = Inr m"
  "dec_option dec_str (enc_option JStr t) = Inr t"
  "dec_option dec_uuid (enc_option enc_uuid v) = Inr v"
  by (simp_all add: enc_uuid_def enc_money_def dec_money_def json_get_def obj_get_def money_ok_def
      enc_option_def split: option.splits)

lemma dec_enc_leg [simp]: "money_ok (leg_amount l) \<Longrightarrow> dec_leg (enc_leg l) = Inr l"
  by (cases "leg_direction l") (simp_all add: enc_leg_def dec_leg_def json_get_def obj_get_def dec_direction_def)

lemma dec_enc_legs [simp]:
  "list_all (\<lambda>l. money_ok (leg_amount l)) ls \<Longrightarrow> mapE dec_leg (map enc_leg ls) = Inr ls"
  by (induction ls) simp_all

lemma plain_runtime_ok [simp]:
  "codec_round_trip plain_runtime" "codec_amount_fields plain_runtime" "set_order_ok plain_runtime"
proof -
  have "plain_validate (class_of e) (plain_dump e) = Inr e" if "event_ok e" for e
    using that by (induction e rule: plain_dump.induct) (simp_all add: json_get_def obj_get_def dec_moved_def)
  then show "codec_round_trip plain_runtime"
    by (simp add: codec_round_trip_def plain_runtime_def)
  have "event_money e = Some m \<Longrightarrow>
      \<exists>j. obj_get (plain_dump e) ''amount'' = Inr j \<and> json_get j ''amount'' = Inr (JInt (amount m)) \<and>
        json_get j ''currency'' = Inr (JStr (currency m))" for e m
    by (induction e rule: event_money.induct) (simp_all add: json_get_def obj_get_def enc_money_def)
  then show "codec_amount_fields plain_runtime"
    by (simp add: codec_amount_fields_def plain_runtime_def)
  show "set_order_ok plain_runtime"
    by (simp add: set_order_ok_def plain_runtime_def)
qed

end
