(* ===== verification/Serialization.thy ===== *)
theory Serialization
  imports Runtime
begin

text \<open>
  The event registry, \<^verbatim>\<open>src/src/ledger/eventstore/serialization.py\<close> and
  \<^verbatim>\<open>registry.py\<close>: names and schema versions of event classes, and the upcaster chain
  that lifts an old payload to the current schema before validation. The locale
  \<open>event_codec\<close> is what the event store and the repository rely on (a valid event can be
  named, versioned and read back); \<open>runtime_codec\<close> provides it for the registry the
  program builds, for every runtime whose pydantic codec round-trips.
\<close>

section \<open>The registry\<close>

type_synonym upcaster = "json_object \<Rightarrow> json_object result"

record registration =
  reg_event_cls :: event_cls
  reg_schema_version :: int
  reg_upcasters :: "upcaster list"

record event_registry =
  reg_by_name :: "(string \<times> registration) list"
  reg_name_by_cls :: "(event_cls \<times> string) list"

definition empty_registry :: event_registry where
  "empty_registry = \<lparr>reg_by_name = [], reg_name_by_cls = []\<rparr>"

definition register ::
  "event_cls \<Rightarrow> string option \<Rightarrow> int \<Rightarrow> upcaster list \<Rightarrow> event_registry \<Rightarrow> event_registry result" where
  "register cls name schema_version upcasters r =
     (if int (length upcasters) \<noteq> schema_version - 1
      then Inl (ValueError (class_name cls @ '': schema_version='' @ str_int schema_version @
             '' needs '' @ str_int (schema_version - 1) @ '' upcaster(s), got '' @
             str_int (int (length upcasters))))
      else
        let resolved = (case name of
              Some n \<Rightarrow> if n = '''' then class_name cls else n
            | None \<Rightarrow> class_name cls)
        in Inr (r\<lparr>reg_by_name := dict_set resolved
                     \<lparr>reg_event_cls = cls, reg_schema_version = schema_version,
                      reg_upcasters = upcasters\<rparr> (reg_by_name r),
                  reg_name_by_cls := dict_set cls resolved (reg_name_by_cls r)\<rparr>))"

definition name_for :: "event_registry \<Rightarrow> domain_event \<Rightarrow> string result" where
  "name_for r e =
     (case map_of (reg_name_by_cls r) (class_of e) of Some n \<Rightarrow> Inr n | None \<Rightarrow> Inl KeyError)"

definition schema_version_for :: "event_registry \<Rightarrow> domain_event \<Rightarrow> int result" where
  "schema_version_for r e =
     bindE (name_for r e) (\<lambda>n.
       case map_of (reg_by_name r) n of Some g \<Rightarrow> Inr (reg_schema_version g) | None \<Rightarrow> Inl KeyError)"

definition serialize :: "runtime \<Rightarrow> domain_event \<Rightarrow> json_object" where
  "serialize rt e = rt_model_dump rt e"

text \<open>
  \<open>for from_version in range(v, target): data = upcasters[from_version - 1](data)\<close>.
\<close>

function upcast :: "upcaster list \<Rightarrow> int \<Rightarrow> int \<Rightarrow> json_object \<Rightarrow> json_object result" where
  "upcast ups v target d =
     (if v < target
      then bindE (py_index IndexError ups (v - 1)) (\<lambda>up.
           bindE (up d) (\<lambda>d'. upcast ups (v + 1) target d'))
      else Inr d)"
  by pat_completeness auto
termination
  by (relation "measure (\<lambda>(ups, v, target, d). nat (target - v))") auto

declare upcast.simps [simp del]

text \<open>The copy \<open>dict(payload)\<close> of a \<open>dict\<close> is the same value.\<close>

definition deserialize ::
  "runtime \<Rightarrow> event_registry \<Rightarrow> string \<Rightarrow> int \<Rightarrow> json_object \<Rightarrow> domain_event result" where
  "deserialize rt r event_type schema_version payload =
     (case map_of (reg_by_name r) event_type of
        None \<Rightarrow> Inl (UnknownEventType event_type)
      | Some g \<Rightarrow>
          bindE (upcast (reg_upcasters g) schema_version (reg_schema_version g) payload)
            (\<lambda>d. rt_model_validate rt (reg_event_cls g) d))"

definition build_event_registry :: "event_registry result" where
  "build_event_registry =
     foldE (\<lambda>r cls. register cls None 1 [] r) empty_registry
       (ACCOUNT_EVENT_TYPES @ JOURNAL_EVENT_TYPES @ TRANSFER_EVENT_TYPES)"

section \<open>Upcasting\<close>

lemma upcast_stop: "target \<le> v \<Longrightarrow> upcast ups v target d = Inr d"
  by (simp add: upcast.simps)

lemma upcast_chain:
  assumes "1 \<le> v" and "v \<le> int (length ups) + 1"
  shows "upcast ups v (int (length ups) + 1) d = foldE (\<lambda>d up. up d) d (drop (nat (v - 1)) ups)"
  using assms
proof (induction "nat (int (length ups) + 1 - v)" arbitrary: v d)
  case 0
  then have "v = int (length ups) + 1" by simp
  then show ?case by (simp add: upcast_stop)
next
  case (Suc n)
  then have lt: "v < int (length ups) + 1" by simp
  define k where "k = nat (v - 1)"
  have k: "k < length ups" and vk: "v - 1 = int k" using lt Suc.prems by (auto simp: k_def)
  have IH: "upcast ups (v + 1) (int (length ups) + 1) d' =
      foldE (\<lambda>d up. up d) d' (drop (Suc k) ups)" for d'
  proof -
    have "nat v = Suc k" using vk by simp
    then show ?thesis using Suc.hyps(1) [of "v + 1" d'] Suc.hyps(2) Suc.prems lt by simp
  qed
  have "drop k ups = ups ! k # drop (Suc k) ups" using k by (simp add: Cons_nth_drop_Suc)
  moreover have "upcast ups (v + 1) (int (length ups) + 1) =
      (\<lambda>d'. foldE (\<lambda>d up. up d) d' (drop (Suc k) ups))"
    using IH by (rule ext)
  ultimately show ?case
    using lt k by (subst upcast.simps) (simp add: vk py_index_def)
qed

section \<open>The registry the program builds\<close>

text \<open>Registering one class after another keeps what was registered before.\<close>

definition registers :: "event_cls list \<Rightarrow> event_registry \<Rightarrow> bool" where
  "registers clss r \<longleftrightarrow>
     (\<forall>c \<in> set clss. map_of (reg_name_by_cls r) c = Some (class_name c) \<and>
        map_of (reg_by_name r) (class_name c) =
          Some \<lparr>reg_event_cls = c, reg_schema_version = 1, reg_upcasters = []\<rparr>)"

lemma register_all:
  assumes "registers done r"
  shows "\<exists>r'. foldE (\<lambda>r cls. register cls None 1 [] r) r clss = Inr r' \<and> registers (done @ clss) r'"
  using assms
proof (induction clss arbitrary: r "done")
  case Nil
  then show ?case by simp
next
  case (Cons c clss)
  define r1 where "r1 = r\<lparr>reg_by_name := dict_set (class_name c)
      \<lparr>reg_event_cls = c, reg_schema_version = 1, reg_upcasters = []\<rparr> (reg_by_name r),
      reg_name_by_cls := dict_set c (class_name c) (reg_name_by_cls r)\<rparr>"
  have step: "register c None 1 [] r = Inr r1" by (simp add: register_def r1_def Let_def)
  have "registers (done @ [c]) r1"
    using Cons.prems by (auto simp: registers_def r1_def)
  from Cons.IH [OF this] step show ?case by simp
qed

lemma all_classes_registered:
  "c \<in> set (ACCOUNT_EVENT_TYPES @ JOURNAL_EVENT_TYPES @ TRANSFER_EVENT_TYPES)"
  by (cases c)
    (simp_all add: ACCOUNT_EVENT_TYPES_def JOURNAL_EVENT_TYPES_def TRANSFER_EVENT_TYPES_def)

definition ledger_registry :: event_registry where
  "ledger_registry = (case build_event_registry of Inr r \<Rightarrow> r | Inl _ \<Rightarrow> empty_registry)"

lemma build_event_registry_ok:
  "build_event_registry = Inr ledger_registry"
  "map_of (reg_name_by_cls ledger_registry) c = Some (class_name c)"
  "map_of (reg_by_name ledger_registry) (class_name c) =
     Some \<lparr>reg_event_cls = c, reg_schema_version = 1, reg_upcasters = []\<rparr>"
proof -
  have "registers [] empty_registry" by (simp add: registers_def)
  from register_all [OF this] obtain r where r: "build_event_registry = Inr r"
    and all: "registers (ACCOUNT_EVENT_TYPES @ JOURNAL_EVENT_TYPES @ TRANSFER_EVENT_TYPES) r"
    by (auto simp: build_event_registry_def)
  have eq: "ledger_registry = r" unfolding ledger_registry_def r by (rule sum.case(2))
  show "build_event_registry = Inr ledger_registry" by (simp add: r eq)
  from eq all show "map_of (reg_name_by_cls ledger_registry) c = Some (class_name c)"
    "map_of (reg_by_name ledger_registry) (class_name c) =
       Some \<lparr>reg_event_cls = c, reg_schema_version = 1, reg_upcasters = []\<rparr>"
    using all_classes_registered [of c] by (simp_all add: registers_def)
qed

section \<open>The codec contract\<close>

text \<open>
  What the store and the repository need: a valid event has a wire name and a schema
  version, and reading its payload back under them gives the event.
\<close>

locale event_codec =
  fixes wire_name :: "domain_event \<Rightarrow> string result"
    and wire_version :: "domain_event \<Rightarrow> int result"
    and encode :: "domain_event \<Rightarrow> json_object"
    and decode :: "string \<Rightarrow> int \<Rightarrow> json_object \<Rightarrow> domain_event result"
  assumes named: "\<exists>n. wire_name e = Inr n"
    and versioned: "\<exists>v. wire_version e = Inr v"
    and decodes: "event_ok e \<Longrightarrow> wire_name e = Inr n \<Longrightarrow> wire_version e = Inr v \<Longrightarrow>
      decode n v (encode e) = Inr e"

locale runtime_codec =
  fixes rt :: runtime
  assumes round_trip: "codec_round_trip rt"

lemma ledger_names [simp]:
  "name_for ledger_registry e = Inr (class_name (class_of e))" "schema_version_for ledger_registry e = Inr 1"
  by (simp_all add: name_for_def schema_version_for_def build_event_registry_ok)

sublocale runtime_codec \<subseteq> codec: event_codec
  "name_for ledger_registry" "schema_version_for ledger_registry" "serialize rt"
  "deserialize rt ledger_registry"
proof
  fix e n v
  show "\<exists>n. name_for ledger_registry e = Inr n" "\<exists>v. schema_version_for ledger_registry e = Inr v"
    by simp_all
  assume "event_ok e" "name_for ledger_registry e = Inr n" "schema_version_for ledger_registry e = Inr v"
  then show "deserialize rt ledger_registry n v (serialize rt e) = Inr e"
    using codec_round_tripD [OF round_trip]
    by (auto simp: name_for_def schema_version_for_def deserialize_def serialize_def
        build_event_registry_ok upcast_stop)
qed

context runtime_codec
begin

lemma ledger_codec:
  assumes "event_ok e"
  shows "name_for ledger_registry e = Inr (class_name (class_of e))"
    and "schema_version_for ledger_registry e = Inr 1"
    and "deserialize rt ledger_registry (class_name (class_of e)) 1 (serialize rt e) = Inr e"
proof -
  show n: "name_for ledger_registry e = Inr (class_name (class_of e))" and v: "schema_version_for ledger_registry e = Inr 1"
    by simp_all
  show "deserialize rt ledger_registry (class_name (class_of e)) 1 (serialize rt e) = Inr e"
    by (rule codec.decodes [OF assms n v])
qed

end

interpretation plain: runtime_codec plain_runtime
  by unfold_locales simp

section \<open>Properties\<close>

text \<open>
  C33. Round trip: the registry the program builds names every event by its class at schema
  version 1, and deserialising the serialised form of a valid event under that name and
  version gives the event back.
\<close>

theorem registry_round_trip:
  assumes "codec_round_trip rt" and "event_ok e"
  shows "build_event_registry = Inr ledger_registry \<and>
    name_for ledger_registry e = Inr (class_name (class_of e)) \<and>
    schema_version_for ledger_registry e = Inr 1 \<and>
    deserialize rt ledger_registry (class_name (class_of e)) 1 (serialize rt e) = Inr e"
  using runtime_codec.ledger_codec [OF runtime_codec.intro [OF assms(1)] assms(2)]
  by (simp add: build_event_registry_ok(1))

theorem registry_round_trip_witness:
  "deserialize plain_runtime ledger_registry ''AccountOpened'' 1
     (serialize plain_runtime (AccountE (AccountOpened ''USD''))) = Inr (AccountE (AccountOpened ''USD''))"
  using registry_round_trip [of plain_runtime "AccountE (AccountOpened ''USD'')"]
  by (simp add: currency_ok_def)

text \<open>
  C36. Upcasting: once an event class is registered at some schema version, a payload stored
  at any version from 1 to the current one passes through exactly the upcasters for the
  versions in between, in order, before it is validated; a registration whose number of
  upcasters does not fit its version is refused.
\<close>

theorem deserialize_applies_upcaster_chain:
  assumes "register cls (Some n) version ups r = Inr r'" and "n \<noteq> ''''"
    and "1 \<le> v" and "v \<le> version"
  shows "int (length ups) = version - 1 \<and>
    deserialize rt r' n v payload =
      bindE (foldE (\<lambda>d up. up d) payload (drop (nat (v - 1)) ups)) (rt_model_validate rt cls)"
proof -
  have len: "int (length ups) = version - 1"
    using assms(1) by (simp add: register_def Let_def split: if_splits)
  moreover have "map_of (reg_by_name r') n =
      Some \<lparr>reg_event_cls = cls, reg_schema_version = version, reg_upcasters = ups\<rparr>"
    using assms(1,2) len by (auto simp: register_def Let_def)
  moreover have "version = int (length ups) + 1" using len by simp
  ultimately show ?thesis
    using upcast_chain [of v ups payload] assms(3,4) by (simp add: deserialize_def)
qed

theorem deserialize_applies_upcaster_chain_witness:
  "deserialize plain_runtime
     (case register AccountOpened_cls (Some ''Opened'') 3
        [\<lambda>d. bindE (obj_get d ''ccy'') (\<lambda>c. Inr [(''code'', c)]),
         \<lambda>d. bindE (obj_get d ''code'') (\<lambda>c. Inr [(''currency'', c)])] empty_registry
      of Inr r \<Rightarrow> r | Inl _ \<Rightarrow> empty_registry) ''Opened'' 1 [(''ccy'', JStr ''USD'')] =
   Inr (AccountE (AccountOpened ''USD''))"
  (is "deserialize _ (case register _ _ _ ?ups _ of Inr r \<Rightarrow> r | Inl _ \<Rightarrow> _) _ _ ?payload = _")
proof -
  obtain r where r: "register AccountOpened_cls (Some ''Opened'') 3 ?ups empty_registry = Inr r"
    by (simp add: register_def Let_def)
  show ?thesis
    unfolding r sum.case
    using deserialize_applies_upcaster_chain [OF r, of 1 plain_runtime ?payload]
    by (simp add: obj_get_def plain_runtime_def currency_ok_def)
qed

end
