(* ===== verification/Event_Store.thy ===== *)
theory Event_Store
  imports Serialization
begin

text \<open>
  The event store: the envelope records of \<^verbatim>\<open>src/src/ledger/eventstore/records.py\<close>, the
  \<open>EventStore\<close> protocol of \<^verbatim>\<open>store.py\<close> as a record of operations on a state \<open>'s\<close>, and
  \<open>InMemoryEventStore\<close> of \<^verbatim>\<open>memory.py\<close> as one instance of it. The protocol's contract is
  the locale \<open>event_log\<close>: a store is an append-only log, an append either extends it with
  consecutively versioned events of a stream that was at the expected version or leaves it
  alone, and reads are functions of the log. Other clients may write in between, and a store may
  fail, before or after it committed; \<open>reliable_event_log\<close> excludes both. The in-memory store is shown to satisfy both.
\<close>

section \<open>Records\<close>

record event_metadata =
  md_correlation_id :: "uuid option"
  md_causation_id :: "uuid option"
  md_traceparent :: "string option"

definition empty_metadata :: event_metadata where
  "empty_metadata = \<lparr>md_correlation_id = None, md_causation_id = None, md_traceparent = None\<rparr>"

record stored_event =
  se_global_position :: int
  se_event_id :: uuid
  se_stream_type :: string
  se_stream_id :: uuid
  se_version :: int
  se_event_type :: string
  se_schema_version :: int
  se_payload :: json_object
  se_metadata :: event_metadata
  se_occurred_at :: int

section \<open>The protocol\<close>

record 's event_store =
  es_append :: "string \<Rightarrow> uuid \<Rightarrow> int \<Rightarrow> domain_event list \<Rightarrow> event_metadata \<Rightarrow>
    ('s, exn, stored_event list) action"
  es_load_stream :: "string \<Rightarrow> uuid \<Rightarrow> ('s, exn, stored_event list) action"
  es_read_all :: "int \<Rightarrow> int \<Rightarrow> ('s, exn, stored_event list) action"

section \<open>The in-memory store\<close>

type_synonym event_list = "stored_event list"

definition in_stream :: "string \<Rightarrow> uuid \<Rightarrow> stored_event \<Rightarrow> bool" where
  "in_stream st sid e \<longleftrightarrow> se_stream_type e = st \<and> se_stream_id e = sid"

definition current_version :: "string \<Rightarrow> uuid \<Rightarrow> event_list \<Rightarrow> int" where
  "current_version st sid events = py_max (map se_version (filter (in_stream st sid) events)) 0"

text \<open>The loop of \<open>append\<close>; an event the registry does not know raises in the middle of it.\<close>

primrec memory_append_loop ::
  "runtime \<Rightarrow> event_registry \<Rightarrow> string \<Rightarrow> uuid \<Rightarrow> int \<Rightarrow> event_metadata \<Rightarrow> int \<Rightarrow>
   domain_event list \<Rightarrow> (event_list, exn, stored_event list) action" where
  "memory_append_loop rt reg st sid expected md offset [] = returnM []"
| "memory_append_loop rt reg st sid expected md offset (e # es) =
     bindM (liftE (name_for reg e)) (\<lambda>name.
     bindM (liftE (schema_version_for reg e)) (\<lambda>schema.
       (\<lambda>events.
          let pos = int (length events) + 1;
              stored =
                \<lparr>se_global_position = pos, se_event_id = rt_event_id rt pos, se_stream_type = st,
                 se_stream_id = sid, se_version = expected + offset, se_event_type = name,
                 se_schema_version = schema, se_payload = serialize rt e, se_metadata = md,
                 se_occurred_at = rt_now rt pos\<rparr>
          in bindM (memory_append_loop rt reg st sid expected md (offset + 1) es)
               (\<lambda>rest. returnM (stored # rest)) (events @ [stored]))))"

definition memory_append ::
  "runtime \<Rightarrow> event_registry \<Rightarrow> string \<Rightarrow> uuid \<Rightarrow> int \<Rightarrow> domain_event list \<Rightarrow> event_metadata \<Rightarrow>
   (event_list, exn, stored_event list) action" where
  "memory_append rt reg st sid expected es md =
     (\<lambda>events.
        let actual = current_version st sid events
        in if actual \<noteq> expected
           then (Inl (ConcurrencyConflict st sid expected actual), events)
           else memory_append_loop rt reg st sid expected md 1 es events)"

definition memory_load_stream :: "string \<Rightarrow> uuid \<Rightarrow> (event_list, exn, stored_event list) action" where
  "memory_load_stream st sid = (\<lambda>events. (Inr (filter (in_stream st sid) events), events))"

definition memory_read_all :: "int \<Rightarrow> int \<Rightarrow> (event_list, exn, stored_event list) action" where
  "memory_read_all from_position limit =
     (\<lambda>events. (Inr (py_take limit (filter (\<lambda>e. from_position < se_global_position e) events)), events))"

definition memory_store :: "runtime \<Rightarrow> event_registry \<Rightarrow> event_list event_store" where
  "memory_store rt reg =
     \<lparr>es_append = memory_append rt reg, es_load_stream = memory_load_stream,
      es_read_all = memory_read_all\<rparr>"

section \<open>Well-formed logs\<close>

definition stream_of :: "string \<Rightarrow> uuid \<Rightarrow> event_list \<Rightarrow> event_list" where
  "stream_of st sid events = filter (in_stream st sid) events"

definition log_wf :: "event_list \<Rightarrow> bool" where
  "log_wf log \<longleftrightarrow>
     sorted_wrt (<) (map se_global_position log) \<and> (\<forall>e \<in> set log. 0 < se_global_position e) \<and>
     (\<forall>st sid. map se_version (stream_of st sid log) =
        map int [1..<Suc (length (stream_of st sid log))])"

text \<open>
  What an append adds: the envelopes of the given events on one stream, versioned upwards from
  the expected version, at positions beyond everything already in the log.
\<close>

definition envelope_of ::
  "runtime \<Rightarrow> string \<Rightarrow> uuid \<Rightarrow> int \<Rightarrow> event_metadata \<Rightarrow> domain_event \<Rightarrow> stored_event \<Rightarrow> bool" where
  "envelope_of rt st sid v md e s \<longleftrightarrow>
     se_stream_type s = st \<and> se_stream_id s = sid \<and> se_version s = v \<and>
     se_event_type s = class_name (class_of e) \<and> se_schema_version s = 1 \<and>
     se_payload s = serialize rt e \<and> se_metadata s = md"

fun extends_log ::
  "runtime \<Rightarrow> string \<Rightarrow> uuid \<Rightarrow> int \<Rightarrow> event_metadata \<Rightarrow> event_list \<Rightarrow> domain_event list \<Rightarrow>
   event_list \<Rightarrow> bool" where
  "extends_log rt st sid v md log [] [] = True"
| "extends_log rt st sid v md log (e # es) (s # ss) =
     (envelope_of rt st sid (v + 1) md e s \<and> 0 < se_global_position s \<and>
      (\<forall>x \<in> set log. se_global_position x < se_global_position s) \<and>
      extends_log rt st sid (v + 1) md (log @ [s]) es ss)"
| "extends_log rt st sid v md log _ _ = False"

lemma stream_of_append: "stream_of st sid (xs @ ys) = stream_of st sid xs @ stream_of st sid ys"
  by (simp add: stream_of_def)

lemma current_version_wf: "log_wf log \<Longrightarrow> current_version st sid log = int (length (stream_of st sid log))"
  unfolding current_version_def stream_of_def [symmetric]
  by (metis log_wf_def py_max_upto)

lemma log_wf_Nil [simp]: "log_wf []"
  by (simp add: log_wf_def stream_of_def)

lemma log_wf_snoc:
  assumes "log_wf log" and "0 < se_global_position s"
    and "\<forall>x \<in> set log. se_global_position x < se_global_position s"
    and "se_version s = int (length (stream_of (se_stream_type s) (se_stream_id s) log)) + 1"
  shows "log_wf (log @ [s])"
proof -
  have "map se_version (stream_of st sid (log @ [s])) =
      map int [1..<Suc (length (stream_of st sid (log @ [s])))]" for st sid
  proof (cases "in_stream st sid s")
    case True
    then have "st = se_stream_type s" "sid = se_stream_id s" by (auto simp: in_stream_def)
    then show ?thesis using assms(1,4) True by (simp add: log_wf_def stream_of_def)
  next
    case False
    then show ?thesis using assms(1) by (simp add: log_wf_def stream_of_def)
  qed
  with assms show ?thesis by (auto simp: log_wf_def sorted_wrt_append)
qed

lemma extends_log_wf:
  assumes "log_wf log" and "v = current_version st sid log" and "extends_log rt st sid v md log es ss"
  shows "log_wf (log @ ss)"
  using assms
proof (induction rt st sid v md log es ss rule: extends_log.induct)
  case (2 rt st sid v md log e es s ss)
  have env: "se_stream_type s = st" "se_stream_id s = sid" "se_version s = v + 1"
    using "2.prems" by (simp_all add: envelope_of_def)
  have v: "v = int (length (stream_of st sid log))"
    using "2.prems"(1,2) by (simp add: current_version_wf)
  have wf: "log_wf (log @ [s])"
    using "2.prems" env v by (intro log_wf_snoc) simp_all
  moreover have "v + 1 = current_version st sid (log @ [s])"
    using v env by (simp add: current_version_wf [OF wf] stream_of_def in_stream_def)
  ultimately have "log_wf ((log @ [s]) @ ss)" using "2.IH" "2.prems"(3) by simp
  then show ?case by simp
qed simp_all

lemma extends_log_stream:
  assumes "extends_log rt st sid v md log es ss"
  shows "stream_of st sid ss = ss" and "(st', sid') \<noteq> (st, sid) \<Longrightarrow> stream_of st' sid' ss = []"
    and "length ss = length es"
  using assms
  by (induction rt st sid v md log es ss rule: extends_log.induct)
    (auto simp: stream_of_def envelope_of_def in_stream_def)

section \<open>The contract\<close>

text \<open>
  \<open>rely\<close> is what other clients of the same store may do to the log while an operation is in
  flight: it happens before the operation takes effect, and the operation itself is atomic.
\<close>

locale event_log =
  fixes rt :: runtime
    and store :: "'s event_store"
    and log :: "'s \<Rightarrow> event_list"
    and invar :: "'s \<Rightarrow> bool"
    and rely :: "event_list \<Rightarrow> event_list \<Rightarrow> bool"
  assumes invar_wf: "invar s \<Longrightarrow> log_wf (log s)"
    and rely_refl: "rely l l"
    and rely_trans: "rely l l' \<Longrightarrow> rely l' l'' \<Longrightarrow> rely l l''"
    and rely_grows: "rely l l' \<Longrightarrow> \<exists>ss. l' = l @ ss"
    and load_log: "invar s \<Longrightarrow> es_load_stream store st sid s = (r, s') \<Longrightarrow>
      invar s' \<and> rely (log s) (log s')"
    and load_result: "invar s \<Longrightarrow> es_load_stream store st sid s = (Inr evs, s') \<Longrightarrow>
      evs = stream_of st sid (log s')"
    and read_log: "invar s \<Longrightarrow> es_read_all store p n s = (r, s') \<Longrightarrow> invar s' \<and> rely (log s) (log s')"
    and read_result: "invar s \<Longrightarrow> es_read_all store p n s = (Inr evs, s') \<Longrightarrow>
      evs = py_take n (filter (\<lambda>e. p < se_global_position e) (log s'))"
    and append_invar: "invar s \<Longrightarrow> es_append store st sid v es md s = (r, s') \<Longrightarrow> invar s'"
    and append_effect: "invar s \<Longrightarrow> es_append store st sid v es md s = (r, s') \<Longrightarrow>
      \<exists>l. rely (log s) l \<and> log_wf l \<and>
        (log s' = l \<and> (\<exists>e. r = Inl e) \<or>
         current_version st sid l = v \<and>
           (\<exists>ss. extends_log rt st sid v md l es ss \<and> log s' = l @ ss \<and>
              (r = Inr ss \<or> (\<exists>e. r = Inl e))))"
begin

text \<open>The log only grows, and the store stays in order.\<close>

definition grows :: "'s \<Rightarrow> 's \<Rightarrow> bool" where
  "grows s s' \<longleftrightarrow> (invar s \<longrightarrow> invar s' \<and> (\<exists>ss. log s' = log s @ ss))"

lemma grows_preorder: "reflp grows" "transp grows"
  by (force simp: reflp_def grows_def) (auto simp: transp_def grows_def)

lemma keeps_grows:
  "keeps grows (es_load_stream store st sid)" "keeps grows (es_read_all store p n)"
  "keeps grows (es_append store st sid v es md)"
proof -
  have "grows s s'" if "es_load_stream store st sid s = (r, s')" for s r s'
    using load_log [OF _ that] rely_grows by (auto simp: grows_def)
  then show "keeps grows (es_load_stream store st sid)"
    by (metis keeps_def surjective_pairing)
  have "grows s s'" if "es_read_all store p n s = (r, s')" for s r s'
    using read_log [OF _ that] rely_grows by (auto simp: grows_def)
  then show "keeps grows (es_read_all store p n)"
    by (metis keeps_def surjective_pairing)
  have "grows s s'" if "es_append store st sid v es md s = (r, s')" for s r s'
    using append_effect [OF _ that] append_invar [OF _ that]
    by (fastforce simp: grows_def dest: rely_grows)
  then show "keeps grows (es_append store st sid v es md)"
    by (metis keeps_def surjective_pairing)
qed

end

locale reliable_event_log = event_log rt store log invar "(=)"
  for rt :: runtime and store :: "'s event_store" and log :: "'s \<Rightarrow> event_list"
    and invar :: "'s \<Rightarrow> bool" +
  assumes load_ok: "invar s \<Longrightarrow> es_load_stream store st sid s = (Inr (stream_of st sid (log s)), s)"
    and read_ok: "invar s \<Longrightarrow> es_read_all store p n s =
      (Inr (py_take n (filter (\<lambda>e. p < se_global_position e) (log s))), s)"
    and append_ok: "invar s \<Longrightarrow> current_version st sid (log s) = v \<Longrightarrow>
      \<exists>ss s'. es_append store st sid v es md s = (Inr ss, s')"
    and append_conflict: "invar s \<Longrightarrow> current_version st sid (log s) \<noteq> v \<Longrightarrow>
      es_append store st sid v es md s =
        (Inl (ConcurrencyConflict st sid v (current_version st sid (log s))), s)"
begin

lemma append_succeeds:
  assumes "invar s" and "current_version st sid (log s) = v"
  shows "\<exists>ss s'. es_append store st sid v es md s = (Inr ss, s') \<and> invar s' \<and>
    log s' = log s @ ss \<and> extends_log rt st sid v md (log s) es ss"
proof -
  obtain ss s' where eq: "es_append store st sid v es md s = (Inr ss, s')"
    using append_ok [OF assms] by blast
  with append_effect [OF assms(1) eq] append_invar [OF assms(1) eq] show ?thesis by auto
qed

end

section \<open>The in-memory store satisfies the contract\<close>

definition positions_dense :: "event_list \<Rightarrow> bool" where
  "positions_dense log \<longleftrightarrow> map se_global_position log = map int [1..<Suc (length log)]"

lemma dense_snoc:
  "positions_dense log \<Longrightarrow> se_global_position s = int (length log) + 1 \<Longrightarrow> positions_dense (log @ [s])"
  by (simp add: positions_dense_def)

lemma dense_positions_below:
  assumes "positions_dense log" and "x \<in> set log"
  shows "0 < se_global_position x" and "se_global_position x \<le> int (length log)"
proof -
  have "se_global_position x \<in> set (map int [1..<Suc (length log)])"
    using assms by (metis positions_dense_def list.set_map image_eqI)
  then show "0 < se_global_position x" and "se_global_position x \<le> int (length log)" by auto
qed

text \<open>A store's events are numbered from 1; every append continues the count.\<close>

lemma memory_append_loop_extends:
  assumes "positions_dense events"
  shows "\<exists>ss. memory_append_loop rt ledger_registry st sid v md k es events = (Inr ss, events @ ss) \<and>
    extends_log rt st sid (v + k - 1) md events es ss \<and> positions_dense (events @ ss)"
  using assms
proof (induction es arbitrary: k events)
  case Nil
  then show ?case by simp
next
  case (Cons e es)
  let ?pos = "int (length events) + 1"
  define s where "s = \<lparr>se_global_position = ?pos, se_event_id = rt_event_id rt ?pos,
    se_stream_type = st, se_stream_id = sid, se_version = v + k,
    se_event_type = class_name (class_of e), se_schema_version = 1, se_payload = serialize rt e,
    se_metadata = md, se_occurred_at = rt_now rt ?pos\<rparr>"
  have dense: "positions_dense (events @ [s])"
    using Cons.prems by (rule dense_snoc) (simp add: s_def)
  from Cons.IH [OF this, of "k + 1"] obtain ss where
    rest: "memory_append_loop rt ledger_registry st sid v md (k + 1) es (events @ [s]) =
      (Inr ss, (events @ [s]) @ ss)"
    and ext: "extends_log rt st sid (v + k) md (events @ [s]) es ss"
    and "positions_dense ((events @ [s]) @ ss)" by auto
  moreover have "\<forall>x \<in> set events. se_global_position x < se_global_position s"
    using dense_positions_below(2) [OF Cons.prems] by (force simp: s_def)
  moreover have "envelope_of rt st sid (v + k) md e s" by (simp add: envelope_of_def s_def)
  moreover have "0 < se_global_position s" by (simp add: s_def)
  moreover have "memory_append_loop rt ledger_registry st sid v md k (e # es) events =
      (Inr (s # ss), events @ s # ss)"
    using rest by (simp add: s_def [symmetric] Let_def bindM_Inr)
  ultimately show ?case by (intro exI [of _ "s # ss"]) simp
qed

definition memory_invar :: "event_list \<Rightarrow> bool" where
  "memory_invar events \<longleftrightarrow> log_wf events \<and> positions_dense events"

lemma memory_append_cases:
  assumes "memory_invar events"
  shows "current_version st sid events \<noteq> v \<Longrightarrow>
      memory_append rt ledger_registry st sid v es md events =
        (Inl (ConcurrencyConflict st sid v (current_version st sid events)), events)"
    and "current_version st sid events = v \<Longrightarrow>
      \<exists>ss. memory_append rt ledger_registry st sid v es md events = (Inr ss, events @ ss) \<and>
        extends_log rt st sid v md events es ss \<and> memory_invar (events @ ss)"
proof -
  show "current_version st sid events \<noteq> v \<Longrightarrow>
      memory_append rt ledger_registry st sid v es md events =
        (Inl (ConcurrencyConflict st sid v (current_version st sid events)), events)"
    by (simp add: memory_append_def)
  assume v: "current_version st sid events = v"
  from assms obtain ss where
    "memory_append_loop rt ledger_registry st sid v md 1 es events = (Inr ss, events @ ss)"
    and ext: "extends_log rt st sid v md events es ss" and "positions_dense (events @ ss)"
    using memory_append_loop_extends [of events rt st sid v md 1 es] by (auto simp: memory_invar_def)
  moreover have "log_wf (events @ ss)"
    using assms v ext by (auto simp: memory_invar_def intro: extends_log_wf)
  ultimately show "\<exists>ss. memory_append rt ledger_registry st sid v es md events = (Inr ss, events @ ss) \<and>
        extends_log rt st sid v md events es ss \<and> memory_invar (events @ ss)"
    using v by (auto simp: memory_append_def memory_invar_def)
qed

interpretation memory: reliable_event_log rt "memory_store rt ledger_registry" "\<lambda>s. s" memory_invar
  for rt
proof
  fix s :: event_list and st sid v es md r s'
  assume inv: "memory_invar s"
  show "es_append (memory_store rt ledger_registry) st sid v es md s = (r, s') \<Longrightarrow> memory_invar s'"
    using memory_append_cases [OF inv, of st sid v rt es md] inv
    by (cases "current_version st sid s = v") (auto simp: memory_store_def)
  show "es_append (memory_store rt ledger_registry) st sid v es md s = (r, s') \<Longrightarrow>
      \<exists>l. s = l \<and> log_wf l \<and> (s' = l \<and> (\<exists>e. r = Inl e) \<or>
      current_version st sid l = v \<and>
        (\<exists>ss. extends_log rt st sid v md l es ss \<and> s' = l @ ss \<and> (r = Inr ss \<or> (\<exists>e. r = Inl e))))"
    using memory_append_cases [OF inv, of st sid v rt es md] inv
    by (cases "current_version st sid s = v") (auto simp: memory_store_def memory_invar_def)
  show "current_version st sid s = v \<Longrightarrow>
      \<exists>ss s'. es_append (memory_store rt ledger_registry) st sid v es md s = (Inr ss, s')"
    using memory_append_cases(2) [OF inv, of st sid v rt es md] by (auto simp: memory_store_def)
  show "current_version st sid s \<noteq> v \<Longrightarrow>
      es_append (memory_store rt ledger_registry) st sid v es md s =
        (Inl (ConcurrencyConflict st sid v (current_version st sid s)), s)"
    using memory_append_cases(1) [OF inv] by (simp add: memory_store_def)
qed (auto simp: memory_store_def memory_load_stream_def memory_read_all_def stream_of_def memory_invar_def)

text \<open>The same contract for a store that other clients append to between the operations.\<close>

abbreviation log_grows :: "event_list \<Rightarrow> event_list \<Rightarrow> bool" where
  "log_grows l l' \<equiv> \<exists>ss. l' = l @ ss"

interpretation memory_shared: event_log rt "memory_store rt ledger_registry" "\<lambda>s. s" memory_invar log_grows
  for rt
proof
  fix s :: event_list and st sid v es md r s'
  assume inv: "memory_invar s"
  show "es_append (memory_store rt ledger_registry) st sid v es md s = (r, s') \<Longrightarrow>
      \<exists>l. log_grows s l \<and> log_wf l \<and> (s' = l \<and> (\<exists>e. r = Inl e) \<or>
      current_version st sid l = v \<and>
        (\<exists>ss. extends_log rt st sid v md l es ss \<and> s' = l @ ss \<and> (r = Inr ss \<or> (\<exists>e. r = Inl e))))"
    using memory.append_effect [OF inv] by (intro exI [of _ s]) blast
qed (auto dest: memory.invar_wf memory.load_log memory.load_result memory.read_log memory.read_result memory.append_invar)

section \<open>Tailing the log with a cursor\<close>

definition unread :: "int \<Rightarrow> event_list \<Rightarrow> event_list" where
  "unread p log = filter (\<lambda>e. p < se_global_position e) log"

lemma sorted_filter_after:
  assumes "sorted_wrt (<) (map f xs)" and "0 < n" and "n \<le> length xs"
  shows "filter (\<lambda>e. f (xs ! (n - 1)) < (f e :: int)) xs = drop n xs"
proof -
  have "xs = take n xs @ drop n xs" by simp
  then have "filter (\<lambda>e. f (xs ! (n - 1)) < f e) xs =
      filter (\<lambda>e. f (xs ! (n - 1)) < f e) (take n xs) @ filter (\<lambda>e. f (xs ! (n - 1)) < f e) (drop n xs)"
    by (metis filter_append)
  moreover have "\<not> f (xs ! (n - 1)) < f e" if "e \<in> set (take n xs)" for e
  proof -
    from that obtain i where i: "i < n" "i < length xs" "e = xs ! i"
      by (auto simp: in_set_conv_nth)
    then have "i = n - 1 \<or> f (xs ! i) < f (xs ! (n - 1))"
      using assms sorted_wrt_nth_less [OF assms(1), of i "n - 1"] by (cases "i = n - 1") auto
    with i(3) show ?thesis by auto
  qed
  moreover have "f (xs ! (n - 1)) < f e" if "e \<in> set (drop n xs)" for e
  proof -
    from that obtain i where "i < length (drop n xs)" "e = drop n xs ! i"
      by (auto simp: in_set_conv_nth)
    then have "e = xs ! (n + i)" "n + i < length xs" using assms(3) by auto
    then show ?thesis using sorted_wrt_nth_less [OF assms(1), of "n - 1" "n + i"] assms(2) by simp
  qed
  ultimately show ?thesis by (simp add: filter_empty_conv filter_id_conv)
qed

lemma sorted_wrt_map_filter: "sorted_wrt R (map f xs) \<Longrightarrow> sorted_wrt R (map f (filter P xs))"
  by (induction xs) auto

text \<open>
  Advancing the cursor to the last event of a batch leaves exactly the rest: no event is
  skipped and none is seen again.
\<close>

lemma unread_after_batch:
  assumes wf: "log_wf log" and batch: "batch = take n (unread p log)" and "batch \<noteq> []"
  shows "unread (se_global_position (last batch)) log = drop n (unread p log)"
proof -
  let ?u = "unread p log"
  have sorted: "sorted_wrt (<) (map se_global_position ?u)"
    using wf by (simp add: log_wf_def unread_def sorted_wrt_map_filter)
  define k where "k = min n (length ?u)"
  have k: "0 < k" "k \<le> length ?u" using assms(2,3) by (auto simp: k_def min_def)
  have last: "last batch = ?u ! (k - 1)"
    using assms(2,3) k by (simp add: last_conv_nth k_def min_def split: if_splits)
  then have "last batch \<in> set ?u" using k by simp
  then have "p < se_global_position (last batch)" by (simp add: unread_def)
  then have "unread (se_global_position (last batch)) log =
      filter (\<lambda>e. se_global_position (last batch) < se_global_position e) ?u"
    by (auto simp: unread_def intro: filter_cong)
  also have "\<dots> = drop k ?u" unfolding last by (rule sorted_filter_after [OF sorted k])
  also have "\<dots> = drop n ?u" by (simp add: k_def min_def)
  finally show ?thesis .
qed

lemma unread_zero: "log_wf log \<Longrightarrow> unread 0 log = log"
  by (simp add: unread_def log_wf_def)

lemma unread_append:
  assumes "log_wf (log @ new)" and "unread p log = []" and "\<forall>e \<in> set log. se_global_position e \<le> p"
    and "p \<le> (if log = [] then 0 else se_global_position (last log))"
  shows "unread p (log @ new) = new"
proof -
  have "p < se_global_position e" if "e \<in> set new" for e
  proof (cases "log = []")
    case True
    with assms that show ?thesis by (force simp: log_wf_def)
  next
    case False
    then have "se_global_position (last log) < se_global_position e"
      using assms(1) that by (auto simp: log_wf_def sorted_wrt_append)
    with False assms(4) show ?thesis by simp
  qed
  then show ?thesis using assms(2) by (simp add: unread_def)
qed

section \<open>Properties\<close>

text \<open>Every state the in-memory store can be in: any appends, failed ones included.\<close>

inductive memory_reachable :: "runtime \<Rightarrow> event_list \<Rightarrow> bool" for rt where
  init: "memory_reachable rt []"
| append: "memory_reachable rt events \<Longrightarrow>
     memory_append rt ledger_registry st sid v es md events = (r, events') \<Longrightarrow>
     memory_reachable rt events'"

lemma memory_invar_Nil: "memory_invar []"
  by (simp add: memory_invar_def positions_dense_def)

lemma memory_reachable_invar: "memory_reachable rt events \<Longrightarrow> memory_invar events"
proof (induction rule: memory_reachable.induct)
  case init
  then show ?case by (rule memory_invar_Nil)
next
  case (append events st sid v es md r events')
  then show ?case using memory.append_invar [of events rt st sid v es md r events']
    by (simp add: memory_store_def)
qed

text \<open>
  C11. Optimistic concurrency: an append to the in-memory store succeeds exactly if the stream
  is at the expected version. It then adds one envelope per event, on that stream, with the
  next consecutive versions and the next global positions, carrying the event's class name,
  payload and the metadata; otherwise it raises \<open>ConcurrencyConflict\<close> with the actual version
  and the log is unchanged.
\<close>

theorem memory_append_optimistic:
  assumes "memory_reachable rt events"
  shows "if current_version st sid events = v
    then \<exists>ss. memory_append rt ledger_registry st sid v es md events = (Inr ss, events @ ss) \<and>
      length ss = length es \<and>
      (\<forall>i < length es. envelope_of rt st sid (v + 1 + int i) md (es ! i) (ss ! i) \<and>
         se_global_position (ss ! i) = int (length events + 1 + i))
    else memory_append rt ledger_registry st sid v es md events =
      (Inl (ConcurrencyConflict st sid v (current_version st sid events)), events)"
proof (cases "current_version st sid events = v")
  case False
  with memory_append_cases(1) [OF memory_reachable_invar [OF assms]] show ?thesis by simp
next
  case True
  from memory_append_cases(2) [OF memory_reachable_invar [OF assms] True, of rt es md]
  obtain ss where ss: "memory_append rt ledger_registry st sid v es md events = (Inr ss, events @ ss)"
    and ext: "extends_log rt st sid v md events es ss" and inv: "memory_invar (events @ ss)" by blast
  have len: "length ss = length es" using ext by (rule extends_log_stream(3))
  have "envelope_of rt st sid (v + 1 + int i) md (es ! i) (ss ! i)" if "i < length es" for i
    using ext that
  proof (induction rt st sid v md events es ss arbitrary: i rule: extends_log.induct)
    case (2 rt st sid v md log e es s ss)
    then show ?case by (cases i) (auto simp: add.assoc add.left_commute)
  qed simp_all
  moreover have "se_global_position (ss ! i) = int (length events + 1 + i)" if "i < length es" for i
  proof -
    have "map se_global_position (events @ ss) ! (length events + i) =
        map int [1..<Suc (length (events @ ss))] ! (length events + i)"
      using inv by (simp add: memory_invar_def positions_dense_def)
    then show ?thesis using that len by (simp add: nth_append del: upt_Suc)
  qed
  ultimately show ?thesis using True ss len by auto
qed

theorem memory_append_optimistic_witness:
  "memory_append plain_runtime ledger_registry ''account'' 1 3 [] empty_metadata [] =
     (Inl (ConcurrencyConflict ''account'' 1 3 0), [])"
  using memory_append_optimistic [OF memory_reachable.init, of "''account''" 1 3 plain_runtime "[]" empty_metadata]
  by (simp add: current_version_def py_max_def)

text \<open>
  C13. Log integrity: whatever is appended, and however many appends are rejected, global
  positions count 1, 2, 3, ... in log order and the versions of every stream count
  1, 2, 3, ... in the same order.
\<close>

theorem memory_log_integrity:
  assumes "memory_reachable rt events"
  shows "map se_global_position events = map int [1..<Suc (length events)] \<and>
    map se_version (filter (in_stream st sid) events) =
      map int [1..<Suc (length (filter (in_stream st sid) events))]"
  using memory_reachable_invar [OF assms]
  by (simp add: memory_invar_def positions_dense_def log_wf_def stream_of_def del: upt_Suc)

theorem memory_log_integrity_witness:
  "\<exists>ss1 log1 ss2 log2 ss3 log3.
     memory_append plain_runtime ledger_registry ''account'' 1 0 [AccountE (AccountOpened ''USD''), AccountE AccountFrozen]
       empty_metadata [] = (Inr ss1, log1) \<and>
     memory_append plain_runtime ledger_registry ''account'' 2 0 [AccountE (AccountOpened ''EUR'')] empty_metadata log1 = (Inr ss2, log2) \<and>
     memory_append plain_runtime ledger_registry ''account'' 1 2 [AccountE AccountClosed] empty_metadata log2 = (Inr ss3, log3) \<and>
     map se_global_position log3 = [1, 2, 3, 4] \<and> map se_version (filter (in_stream ''account'' 1) log3) = [1, 2, 3] \<and>
     map se_version (filter (in_stream ''account'' 2) log3) = [1]"
proof -
  let ?app = "memory_append plain_runtime ledger_registry ''account''"
  have "\<exists>ss1 log1 ss2 log2 ss3 log3.
      ?app 1 0 [AccountE (AccountOpened ''USD''), AccountE AccountFrozen] empty_metadata [] = (Inr ss1, log1) \<and>
      ?app 2 0 [AccountE (AccountOpened ''EUR'')] empty_metadata log1 = (Inr ss2, log2) \<and>
      ?app 1 2 [AccountE AccountClosed] empty_metadata log2 = (Inr ss3, log3) \<and> length log3 = 4 \<and>
      length (filter (in_stream ''account'' 1) log3) = 3 \<and> length (filter (in_stream ''account'' 2) log3) = 1"
    by (simp add: memory_append_def current_version_def py_max_def in_stream_def bindM_def Let_def)
  then obtain ss1 log1 ss2 log2 ss3 log3 where
    app: "?app 1 0 [AccountE (AccountOpened ''USD''), AccountE AccountFrozen] empty_metadata [] = (Inr ss1, log1)"
      "?app 2 0 [AccountE (AccountOpened ''EUR'')] empty_metadata log1 = (Inr ss2, log2)"
      "?app 1 2 [AccountE AccountClosed] empty_metadata log2 = (Inr ss3, log3)"
    and len: "length log3 = 4" "length (filter (in_stream ''account'' 1) log3) = 3" "length (filter (in_stream ''account'' 2) log3) = 1"
    by (elim exE conjE) (rule that)
  have "memory_reachable plain_runtime log3"
    by (rule memory_reachable.append [OF _ app(3)], rule memory_reachable.append [OF _ app(2)],
        rule memory_reachable.append [OF memory_reachable.init app(1)])
  from memory_log_integrity [OF this, of "''account''" 1] memory_log_integrity [OF this, of "''account''" 2] len
  have "map se_global_position log3 = [1, 2, 3, 4]" "map se_version (filter (in_stream ''account'' 1) log3) = [1, 2, 3]"
    "map se_version (filter (in_stream ''account'' 2) log3) = [1]" by (simp_all add: upt_rec)
  with app show ?thesis by (intro exI conjI)
qed

text \<open>
  C12. Lost update: of two non-empty appends to one stream that declare the same expected
  version, whatever is appended in between, the second is rejected and adds nothing.
\<close>

theorem second_append_with_same_version_conflicts:
  assumes "memory_reachable rt events"
    and "memory_append rt ledger_registry st sid v es md events = (Inr ss, events1)" and "es \<noteq> []"
    and "memory_reachable rt (events1 @ others)"
  shows "\<exists>actual. v < actual \<and> memory_append rt ledger_registry st sid v es' md' (events1 @ others) =
    (Inl (ConcurrencyConflict st sid v actual), events1 @ others)"
proof -
  have inv: "memory_invar events" "memory_invar (events1 @ others)"
    using assms(1,4) by (simp_all add: memory_reachable_invar)
  have v: "current_version st sid events = v"
    using memory_append_cases(1) [OF inv(1), of st sid v rt es md] assms(2) by auto
  with memory_append_cases(2) [OF inv(1) v, of rt es md] assms(2)
  have ev: "events1 = events @ ss" and ext: "extends_log rt st sid v md events es ss" by auto
  have "v = int (length (stream_of st sid events))"
    using v inv(1) by (simp add: memory_invar_def current_version_wf)
  moreover have "stream_of st sid ss = ss" "0 < length ss"
    using extends_log_stream(1,3) [OF ext] assms(3) by auto
  ultimately have "v < current_version st sid (events1 @ others)"
    using inv(2) by (simp add: memory_invar_def current_version_wf ev stream_of_append add_pos_nonneg)
  then show ?thesis using memory_append_cases(1) [OF inv(2)] by auto
qed

theorem second_append_with_same_version_conflicts_witness:
  "\<exists>ss events1 actual.
     memory_append plain_runtime ledger_registry ''account'' 1 0 [AccountE AccountFrozen] empty_metadata [] =
       (Inr ss, events1) \<and> 0 < actual \<and>
     memory_append plain_runtime ledger_registry ''account'' 1 0 [AccountE AccountClosed] empty_metadata events1 =
       (Inl (ConcurrencyConflict ''account'' 1 0 actual), events1)"
proof -
  have "current_version ''account'' 1 [] = 0" by (simp add: current_version_def py_max_def)
  from memory_append_cases(2) [OF memory_invar_Nil this, of plain_runtime "[AccountE AccountFrozen]" empty_metadata]
  obtain ss where ss: "memory_append plain_runtime ledger_registry ''account'' 1 0
      [AccountE AccountFrozen] empty_metadata [] = (Inr ss, ss)" by auto
  have r: "memory_reachable plain_runtime ([] :: event_list)" by (rule memory_reachable.init)
  from memory_reachable.append [OF r ss] have "memory_reachable plain_runtime (ss @ [])" by simp
  from second_append_with_same_version_conflicts [OF r ss _ this, of "[AccountE AccountClosed]" empty_metadata] ss
  show ?thesis by auto
qed

end
