(* ===== verification/Accounts.thy ===== *)
theory Accounts
  imports Domain_Events
begin

text \<open>
  The \<open>Account\<close> aggregate, \<^verbatim>\<open>src/src/ledger/domain/accounts/account.py\<close>: one record for
  its fields, one definition per command, and \<open>account_apply\<close> for \<open>_apply\<close>, the only
  place that changes balances. The lemmas show what every command does on every branch,
  that \<open>account_inv\<close> (both buckets non-negative and in the account's currency, a closed
  account empty) holds along every history, and that a repeated operation id is a no-op on an open account.
\<close>

section \<open>State\<close>

datatype account_status = OPEN | FROZEN | CLOSED

fun status_value :: "account_status \<Rightarrow> string" where
  "status_value OPEN = ''open''"
| "status_value FROZEN = ''frozen''"
| "status_value CLOSED = ''closed''"

definition UNSET_CURRENCY :: string where
  "UNSET_CURRENCY = ''XXX''"

record account = "domain_event aggregate_root" +
  acc_account_id :: "uuid option"
  acc_currency :: string
  acc_status :: account_status
  acc_available :: money
  acc_reserved :: money
  acc_applied_ops :: "uuid set"

text \<open>\<open>Account()\<close>. \<open>Money.zero("XXX")\<close> passes validation, so it is written out.\<close>

definition account_init :: account where
  "account_init =
     \<lparr>agg_version = 0, agg_pending = [], acc_account_id = None, acc_currency = UNSET_CURRENCY,
      acc_status = CLOSED, acc_available = \<lparr>amount = 0, currency = UNSET_CURRENCY\<rparr>,
      acc_reserved = \<lparr>amount = 0, currency = UNSET_CURRENCY\<rparr>, acc_applied_ops = {}\<rparr>"

section \<open>State transition\<close>

text \<open>\<open>_apply\<close>; an event that is not an account event matches no case.\<close>

fun account_apply :: "account \<Rightarrow> domain_event \<Rightarrow> account result" where
  "account_apply a (AccountE (AccountOpened c)) =
     bindE (money_zero c) (\<lambda>av. bindE (money_zero c) (\<lambda>re.
       Inr (a\<lparr>acc_currency := c, acc_status := OPEN, acc_available := av, acc_reserved := re\<rparr>)))"
| "account_apply a (AccountE (FundsDeposited m)) =
     bindE (money_add (acc_available a) m) (\<lambda>av. Inr (a\<lparr>acc_available := av\<rparr>))"
| "account_apply a (AccountE (FundsHeld m op)) =
     bindE (money_subtract (acc_available a) m) (\<lambda>av. bindE (money_add (acc_reserved a) m) (\<lambda>re.
       Inr (a\<lparr>acc_available := av, acc_reserved := re,
              acc_applied_ops := insert op (acc_applied_ops a)\<rparr>)))"
| "account_apply a (AccountE (HoldReleased m op)) =
     bindE (money_subtract (acc_reserved a) m) (\<lambda>re. bindE (money_add (acc_available a) m) (\<lambda>av.
       Inr (a\<lparr>acc_available := av, acc_reserved := re,
              acc_applied_ops := insert op (acc_applied_ops a)\<rparr>)))"
| "account_apply a (AccountE (AccountDebited m op)) =
     bindE (money_subtract (acc_reserved a) m) (\<lambda>re.
       Inr (a\<lparr>acc_reserved := re, acc_applied_ops := insert op (acc_applied_ops a)\<rparr>))"
| "account_apply a (AccountE (AccountCredited m op)) =
     bindE (money_add (acc_available a) m) (\<lambda>av.
       Inr (a\<lparr>acc_available := av, acc_applied_ops := insert op (acc_applied_ops a)\<rparr>))"
| "account_apply a (AccountE AccountFrozen) = Inr (a\<lparr>acc_status := FROZEN\<rparr>)"
| "account_apply a (AccountE AccountClosed) = Inr (a\<lparr>acc_status := CLOSED\<rparr>)"
| "account_apply a (JournalE _) = Inr a"
| "account_apply a (TransferE _) = Inr a"

section \<open>Commands\<close>

definition assert_operational :: "money \<Rightarrow> account \<Rightarrow> unit result" where
  "assert_operational m a =
     (if acc_status a \<noteq> OPEN
      then Inl (DomainError AccountNotActive (''account is '' @ status_value (acc_status a)))
      else bindE (assert_positive m) (\<lambda>_.
        if currency m \<noteq> acc_currency a
        then Inl (DomainError CurrencyMismatch
               (''account currency '' @ acc_currency a @ '' != '' @ currency m))
        else Inr ()))"

text \<open>\<open>AccountOpened(currency=...)\<close> validates the currency code.\<close>

definition account_open :: "uuid \<Rightarrow> string \<Rightarrow> account result" where
  "account_open aid c =
     (if currency_ok c
      then record_event account_apply (AccountE (AccountOpened c))
             (account_init\<lparr>acc_account_id := Some aid\<rparr>)
      else Inl ValidationError)"

definition account_deposit :: "money \<Rightarrow> account \<Rightarrow> account result" where
  "account_deposit m a =
     bindE (assert_operational m a) (\<lambda>_. record_event account_apply (AccountE (FundsDeposited m)) a)"

definition account_hold :: "money \<Rightarrow> uuid \<Rightarrow> account \<Rightarrow> account result" where
  "account_hold m op a =
     bindE (assert_operational m a) (\<lambda>_.
       if op \<in> acc_applied_ops a then Inr a
       else bindE (money_lt (acc_available a) m) (\<lambda>short.
         if short
         then Inl (DomainError InsufficientFunds
                (''hold '' @ str_money m @ '' exceeds available '' @ str_money (acc_available a)))
         else record_event account_apply (AccountE (FundsHeld m op)) a))"

definition account_release_hold :: "money \<Rightarrow> uuid \<Rightarrow> account \<Rightarrow> account result" where
  "account_release_hold m op a =
     bindE (assert_operational m a) (\<lambda>_.
       if op \<in> acc_applied_ops a then Inr a
       else bindE (money_lt (acc_reserved a) m) (\<lambda>short.
         if short
         then Inl (DomainError InsufficientFunds
                (''release '' @ str_money m @ '' exceeds reserved '' @ str_money (acc_reserved a)))
         else record_event account_apply (AccountE (HoldReleased m op)) a))"

definition account_debit :: "money \<Rightarrow> uuid \<Rightarrow> account \<Rightarrow> account result" where
  "account_debit m op a =
     bindE (assert_operational m a) (\<lambda>_.
       if op \<in> acc_applied_ops a then Inr a
       else bindE (money_lt (acc_reserved a) m) (\<lambda>short.
         if short
         then Inl (DomainError InsufficientFunds
                (''debit '' @ str_money m @ '' exceeds reserved '' @ str_money (acc_reserved a)))
         else record_event account_apply (AccountE (AccountDebited m op)) a))"

definition account_credit :: "money \<Rightarrow> uuid \<Rightarrow> account \<Rightarrow> account result" where
  "account_credit m op a =
     bindE (assert_operational m a) (\<lambda>_.
       if op \<in> acc_applied_ops a then Inr a
       else record_event account_apply (AccountE (AccountCredited m op)) a)"

definition account_freeze :: "account \<Rightarrow> account result" where
  "account_freeze a =
     (if acc_status a \<noteq> OPEN
      then Inl (DomainError InvalidTransition
             (''cannot freeze a '' @ status_value (acc_status a) @ '' account''))
      else record_event account_apply (AccountE AccountFrozen) a)"

definition account_close :: "account \<Rightarrow> account result" where
  "account_close a =
     (if acc_status a = CLOSED
      then Inl (DomainError InvalidTransition ''account already closed'')
      else if amount (acc_available a) \<noteq> 0 \<or> amount (acc_reserved a) \<noteq> 0
      then Inl (DomainError AccountNotEmpty
             (''cannot close: available='' @ str_money (acc_available a) @
              '', reserved='' @ str_money (acc_reserved a)))
      else record_event account_apply (AccountE AccountClosed) a)"

text \<open>The commands on an existing account, as one type.\<close>

datatype account_command =
    Deposit money
  | Hold money uuid
  | ReleaseHold money uuid
  | Debit money uuid
  | Credit money uuid
  | Freeze
  | Close

fun run_account_command :: "account_command \<Rightarrow> account \<Rightarrow> account result" where
  "run_account_command (Deposit m) a = account_deposit m a"
| "run_account_command (Hold m op) a = account_hold m op a"
| "run_account_command (ReleaseHold m op) a = account_release_hold m op a"
| "run_account_command (Debit m op) a = account_debit m op a"
| "run_account_command (Credit m op) a = account_credit m op a"
| "run_account_command Freeze a = account_freeze a"
| "run_account_command Close a = account_close a"

section \<open>The aggregate contract\<close>

interpretation account: aggregate account_apply
proof
  fix a :: account and v p e
  show "account_apply (a\<lparr>agg_version := v, agg_pending := p\<rparr>) e =
      map_sum id (\<lambda>a'. a'\<lparr>agg_version := v, agg_pending := p\<rparr>) (account_apply a e)"
    by (induction a e rule: account_apply.induct)
      (auto simp: bindE_def split: sum.splits)
qed

section \<open>Invariant\<close>

definition account_inv :: "account \<Rightarrow> bool" where
  "account_inv a \<longleftrightarrow>
     currency_ok (acc_currency a) \<and>
     currency (acc_available a) = acc_currency a \<and> currency (acc_reserved a) = acc_currency a \<and>
     0 \<le> amount (acc_available a) \<and> 0 \<le> amount (acc_reserved a) \<and>
     (acc_status a = CLOSED \<longrightarrow> amount (acc_available a) = 0 \<and> amount (acc_reserved a) = 0)"

definition account_total :: "account \<Rightarrow> int" where
  "account_total a = amount (acc_available a) + amount (acc_reserved a)"

text \<open>
  What a command does when it records something: the buckets move by \<open>da\<close> and \<open>dr\<close>,
  the operation id is remembered, the event is counted and buffered.
\<close>

definition account_moved :: "account_event \<Rightarrow> int \<Rightarrow> int \<Rightarrow> uuid set \<Rightarrow> account \<Rightarrow> account" where
  "account_moved e da dr ops a =
     a\<lparr>acc_available := (acc_available a)\<lparr>amount := amount (acc_available a) + da\<rparr>,
       acc_reserved := (acc_reserved a)\<lparr>amount := amount (acc_reserved a) + dr\<rparr>,
       acc_applied_ops := acc_applied_ops a \<union> ops,
       agg_version := agg_version a + 1, agg_pending := agg_pending a @ [AccountE e]\<rparr>"

lemma assert_operational_eq_Inr [result_iffs]:
  "assert_operational m a = Inr u \<longleftrightarrow>
     acc_status a = OPEN \<and> 0 < amount m \<and> currency m = acc_currency a"
  by (auto simp: assert_operational_def result_iffs)

lemma account_moved_sel [simp]:
  "agg_version (account_moved e da dr ops a) = agg_version a + 1"
  "agg_pending (account_moved e da dr ops a) = agg_pending a @ [AccountE e]"
  "acc_account_id (account_moved e da dr ops a) = acc_account_id a"
  "acc_currency (account_moved e da dr ops a) = acc_currency a"
  "acc_status (account_moved e da dr ops a) = acc_status a"
  "amount (acc_available (account_moved e da dr ops a)) = amount (acc_available a) + da"
  "amount (acc_reserved (account_moved e da dr ops a)) = amount (acc_reserved a) + dr"
  "currency (acc_available (account_moved e da dr ops a)) = currency (acc_available a)"
  "currency (acc_reserved (account_moved e da dr ops a)) = currency (acc_reserved a)"
  "acc_applied_ops (account_moved e da dr ops a) = acc_applied_ops a \<union> ops"
  by (simp_all add: account_moved_def)

lemma money_eqI: "amount m = amount n \<Longrightarrow> currency m = currency n \<Longrightarrow> m = (n :: money)"
  by simp

text \<open>Recording one of the five balance events, on an account that satisfies the invariant.\<close>

lemma record_balance_event:
  assumes "account_inv a" and "currency m = acc_currency a"
  shows
    "record_event account_apply (AccountE (FundsDeposited m)) a =
       Inr (account_moved (FundsDeposited m) (amount m) 0 {} a)"
    "record_event account_apply (AccountE (FundsHeld m op)) a =
       Inr (account_moved (FundsHeld m op) (- amount m) (amount m) {op} a)"
    "record_event account_apply (AccountE (HoldReleased m op)) a =
       Inr (account_moved (HoldReleased m op) (amount m) (- amount m) {op} a)"
    "record_event account_apply (AccountE (AccountDebited m op)) a =
       Inr (account_moved (AccountDebited m op) 0 (- amount m) {op} a)"
    "record_event account_apply (AccountE (AccountCredited m op)) a =
       Inr (account_moved (AccountCredited m op) (amount m) 0 {op} a)"
  using assms
  by (simp_all add: record_event_def account_moved_def account_inv_def money_add_def
      money_subtract_def)

lemmas account_command_defs =
  account_deposit_def account_hold_def account_release_hold_def account_debit_def
  account_credit_def account_freeze_def account_close_def

section \<open>Abstract specification\<close>

text \<open>
  What the aggregate promises, without events, versions or \<open>Money\<close> objects: two integer
  buckets. A balance command shifts them by a pair of amounts and is refused exactly when
  the account is not open, the amount is not positive, the currency differs, or a bucket
  would go below zero; an operation id that was applied before changes nothing.
\<close>

record account_view =
  av_status :: account_status
  av_currency :: string
  av_available :: int
  av_reserved :: int
  av_ops :: "uuid set"

definition account_abs :: "account \<Rightarrow> account_view" where
  "account_abs a =
     \<lparr>av_status = acc_status a, av_currency = acc_currency a,
      av_available = amount (acc_available a), av_reserved = amount (acc_reserved a),
      av_ops = acc_applied_ops a\<rparr>"

definition spec_move ::
  "money \<Rightarrow> uuid option \<Rightarrow> int \<Rightarrow> int \<Rightarrow> account_view \<Rightarrow> domain_class + account_view" where
  "spec_move m op da dr v =
     (if av_status v \<noteq> OPEN then Inl AccountNotActive
      else if amount m \<le> 0 then Inl InvalidAmount
      else if currency m \<noteq> av_currency v then Inl CurrencyMismatch
      else if set_option op \<inter> av_ops v \<noteq> {} then Inr v
      else if av_available v + da < 0 \<or> av_reserved v + dr < 0 then Inl InsufficientFunds
      else Inr (v\<lparr>av_available := av_available v + da, av_reserved := av_reserved v + dr,
                  av_ops := av_ops v \<union> set_option op\<rparr>))"

fun account_spec :: "account_command \<Rightarrow> account_view \<Rightarrow> domain_class + account_view" where
  "account_spec (Deposit m) v = spec_move m None (amount m) 0 v"
| "account_spec (Hold m op) v = spec_move m (Some op) (- amount m) (amount m) v"
| "account_spec (ReleaseHold m op) v = spec_move m (Some op) (amount m) (- amount m) v"
| "account_spec (Debit m op) v = spec_move m (Some op) 0 (- amount m) v"
| "account_spec (Credit m op) v = spec_move m (Some op) (amount m) 0 v"
| "account_spec Freeze v =
     (if av_status v = OPEN then Inr (v\<lparr>av_status := FROZEN\<rparr>) else Inl InvalidTransition)"
| "account_spec Close v =
     (if av_status v = CLOSED then Inl InvalidTransition
      else if av_available v \<noteq> 0 \<or> av_reserved v \<noteq> 0 then Inl AccountNotEmpty
      else Inr (v\<lparr>av_status := CLOSED\<rparr>))"

fun exn_class :: "exn \<Rightarrow> domain_class option" where
  "exn_class (DomainError c _) = Some c"
| "exn_class _ = None"

lemma account_abs_moved:
  "account_abs (account_moved e da dr ops a) =
     (account_abs a)\<lparr>av_available := amount (acc_available a) + da,
        av_reserved := amount (acc_reserved a) + dr, av_ops := acc_applied_ops a \<union> ops\<rparr>"
  by (simp add: account_abs_def)

lemma account_command_refines_spec:
  assumes inv: "account_inv a"
  shows "map_sum exn_class account_abs (run_account_command c a) =
     map_sum Some id (account_spec c (account_abs a))"
proof -
  have cur: "currency (acc_available a) = acc_currency a" "currency (acc_reserved a) = acc_currency a"
    and nonneg: "0 \<le> amount (acc_available a)" "0 \<le> amount (acc_reserved a)"
    using inv by (simp_all add: account_inv_def)
  show ?thesis
  proof (cases c)
    case (Deposit m)
    then show ?thesis using nonneg record_balance_event(1) [OF inv, of m]
      by (simp add: account_deposit_def assert_operational_def assert_positive_def spec_move_def
          account_abs_moved) (simp add: account_abs_def)
  next
    case (Hold m op)
    then show ?thesis using nonneg cur record_balance_event(2) [OF inv, of m op]
      by (simp add: account_hold_def assert_operational_def assert_positive_def spec_move_def
          money_lt_def account_abs_moved) (simp add: account_abs_def)
  next
    case (ReleaseHold m op)
    then show ?thesis using nonneg cur record_balance_event(3) [OF inv, of m op]
      by (simp add: account_release_hold_def assert_operational_def assert_positive_def
          spec_move_def money_lt_def account_abs_moved) (simp add: account_abs_def)
  next
    case (Debit m op)
    then show ?thesis using nonneg cur record_balance_event(4) [OF inv, of m op]
      by (simp add: account_debit_def assert_operational_def assert_positive_def spec_move_def
          money_lt_def account_abs_moved) (simp add: account_abs_def)
  next
    case (Credit m op)
    then show ?thesis using nonneg record_balance_event(5) [OF inv, of m op]
      by (simp add: account_credit_def assert_operational_def assert_positive_def spec_move_def
          account_abs_moved) (simp add: account_abs_def)
  next
    case Freeze
    then show ?thesis
      by (simp add: account_freeze_def record_event_def account_abs_def)
  next
    case Close
    then show ?thesis
      by (simp add: account_close_def record_event_def account_abs_def)
  qed
qed

section \<open>Events and histories\<close>

text \<open>The event a command records and the operation id it carries.\<close>

fun command_event :: "account_command \<Rightarrow> account_event" where
  "command_event (Deposit m) = FundsDeposited m"
| "command_event (Hold m op) = FundsHeld m op"
| "command_event (ReleaseHold m op) = HoldReleased m op"
| "command_event (Debit m op) = AccountDebited m op"
| "command_event (Credit m op) = AccountCredited m op"
| "command_event Freeze = AccountFrozen"
| "command_event Close = AccountClosed"

fun event_op :: "account_event \<Rightarrow> uuid option" where
  "event_op (FundsHeld _ op) = Some op"
| "event_op (HoldReleased _ op) = Some op"
| "event_op (AccountDebited _ op) = Some op"
| "event_op (AccountCredited _ op) = Some op"
| "event_op _ = None"

text \<open>
  A command that succeeds either finds its operation id applied and returns the account as
  it was, or records exactly its own event; the id was new then.
\<close>

lemma run_account_command_cases:
  assumes "run_account_command c a = Inr a'"
  obtains (replayed) op where "event_op (command_event c) = Some op" "op \<in> acc_applied_ops a" "a' = a"
  | (recorded) "record_event account_apply (AccountE (command_event c)) a = Inr a'"
      "\<And>op. event_op (command_event c) = Some op \<Longrightarrow> op \<notin> acc_applied_ops a"
proof -
  have "(\<exists>op. event_op (command_event c) = Some op \<and> op \<in> acc_applied_ops a \<and> a' = a) \<or>
      record_event account_apply (AccountE (command_event c)) a = Inr a' \<and>
        (\<forall>op. event_op (command_event c) = Some op \<longrightarrow> op \<notin> acc_applied_ops a)"
    using assms by (cases c) (simp_all add: account_command_defs result_iffs split: if_splits)
  then show thesis using replayed recorded by blast
qed

lemma run_account_command_event_ok:
  assumes "account_inv a" and "run_account_command c a = Inr a'"
  shows "event_ok (AccountE (command_event c))"
  using assms
  by (cases c) (auto simp: account_command_defs result_iffs account_inv_def money_ok_def
      split: if_splits)

lemma record_event_ops:
  assumes "record_event account_apply (AccountE e) a = Inr a'"
  shows "acc_applied_ops a' = acc_applied_ops a \<union> set_option (event_op e)"
  using assms by (cases e) (auto simp: record_event_def result_iffs money_zero_def)

text \<open>No event but \<open>AccountOpened\<close> changes a currency.\<close>

lemma record_event_currency:
  assumes "record_event account_apply (AccountE e) a = Inr a'" and "\<And>c. e \<noteq> AccountOpened c"
  shows "acc_currency a' = acc_currency a" "currency (acc_available a') = currency (acc_available a)"
    "currency (acc_reserved a') = currency (acc_reserved a)"
proof -
  from assms(1) obtain b where b: "account_apply a (AccountE e) = Inr b"
    and a': "a' = b\<lparr>agg_version := agg_version b + 1, agg_pending := agg_pending b @ [AccountE e]\<rparr>"
    by (auto simp: record_event_def result_iffs)
  have "acc_currency b = acc_currency a \<and> currency (acc_available b) = currency (acc_available a) \<and>
      currency (acc_reserved b) = currency (acc_reserved a)"
    using b assms(2) by (cases e) (auto simp: result_iffs)
  then show "acc_currency a' = acc_currency a"
    "currency (acc_available a') = currency (acc_available a)"
    "currency (acc_reserved a') = currency (acc_reserved a)"
    by (simp_all add: a')
qed

lemma command_event_not_opened [simp]: "command_event c \<noteq> AccountOpened cur"
  by (cases c) simp_all

lemma run_account_command_inv:
  assumes inv: "account_inv a" and run: "run_account_command c a = Inr a'"
  shows "account_inv a'"
  using run
proof (cases rule: run_account_command_cases)
  case replayed
  with inv show ?thesis by simp
next
  case recorded
  have v: "account_spec c (account_abs a) = Inr (account_abs a')"
    using account_command_refines_spec [OF inv, of c] run
    by (cases "account_spec c (account_abs a)") auto
  have "0 \<le> amount (acc_available a') \<and> 0 \<le> amount (acc_reserved a') \<and>
      (acc_status a' = CLOSED \<longrightarrow> amount (acc_available a') = 0 \<and> amount (acc_reserved a') = 0)"
    using v inv
    by (cases c) (auto simp: account_abs_def spec_move_def account_inv_def split: if_splits)
  moreover have "acc_currency a' = acc_currency a"
    "currency (acc_available a') = acc_currency a" "currency (acc_reserved a') = acc_currency a"
    using record_event_currency [OF recorded(1)] inv by (simp_all add: account_inv_def)
  ultimately show ?thesis using inv by (simp add: account_inv_def)
qed

lemma account_init_inv: "account_inv account_init"
  by (simp add: account_inv_def account_init_def currency_ok_def UNSET_CURRENCY_def)

lemma account_open_eq_Inr:
  "account_open aid c = Inr a \<longleftrightarrow> currency_ok c \<and>
     a = account_init\<lparr>acc_account_id := Some aid, acc_currency := c, acc_status := OPEN,
           acc_available := \<lparr>amount = 0, currency = c\<rparr>, acc_reserved := \<lparr>amount = 0, currency = c\<rparr>,
           agg_version := 1, agg_pending := [AccountE (AccountOpened c)]\<rparr>"
  by (auto simp: account_open_def record_event_def money_zero_def account_init_def)

lemma account_open_inv: "account_open aid c = Inr a \<Longrightarrow> account_inv a"
  by (auto simp: account_open_eq_Inr account_inv_def)

lemma account_inv_update [simp]:
  "account_inv (a\<lparr>agg_pending := p\<rparr>) = account_inv a"
  "account_inv (a\<lparr>agg_version := v\<rparr>) = account_inv a"
  "account_inv (a\<lparr>acc_account_id := i\<rparr>) = account_inv a"
  by (simp_all add: account_inv_def)

text \<open>The identity of the object plays no part in the state transition.\<close>

lemma account_apply_id:
  "account_apply (a\<lparr>acc_account_id := i\<rparr>) e =
     map_sum id (\<lambda>a'. a'\<lparr>acc_account_id := i\<rparr>) (account_apply a e)"
  by (induction a e rule: account_apply.induct) (auto simp: bindE_def split: sum.splits)

lemma account_update_commute:
  "(a :: account)\<lparr>acc_account_id := i, agg_version := v\<rparr> = a\<lparr>agg_version := v, acc_account_id := i\<rparr>"
  "(a :: account)\<lparr>acc_account_id := i, agg_pending := p\<rparr> = a\<lparr>agg_pending := p, acc_account_id := i\<rparr>"
  by (cases a; simp)+

lemma account_replay_id:
  "load_from_history account_apply (a\<lparr>acc_account_id := i\<rparr>) es =
     map_sum id (\<lambda>a'. a'\<lparr>acc_account_id := i\<rparr>) (load_from_history account_apply a es)"
proof (induction es arbitrary: a)
  case Nil
  then show ?case by (simp add: load_from_history_def)
next
  case (Cons e es)
  show ?case
  proof (cases "account_apply a e")
    case (Inl x)
    then show ?thesis by (simp add: load_from_history_def account_apply_id)
  next
    case (Inr b)
    then have "load_from_history account_apply (a\<lparr>acc_account_id := i\<rparr>) (e # es) =
        load_from_history account_apply ((b\<lparr>agg_version := agg_version b + 1\<rparr>)\<lparr>acc_account_id := i\<rparr>) es"
      by (simp add: load_from_history_def account_apply_id account_update_commute)
    also have "\<dots> = map_sum id (\<lambda>a'. a'\<lparr>acc_account_id := i\<rparr>)
        (load_from_history account_apply (b\<lparr>agg_version := agg_version b + 1\<rparr>) es)"
      by (rule Cons.IH)
    finally show ?thesis using Inr by (simp add: load_from_history_def id_def)
  qed
qed

text \<open>
  The life of an account object and the events it has recorded so far: opened, then any
  commands that succeed, its buffer pulled by the repository at any time, and the object
  replaced by the one the repository rebuilds from the recorded events.
\<close>

inductive account_lived :: "domain_event list \<Rightarrow> account \<Rightarrow> bool" where
  opened: "account_open aid c = Inr a \<Longrightarrow> account_lived [AccountE (AccountOpened c)] a"
| command: "account_lived es a \<Longrightarrow> run_account_command c a = Inr a' \<Longrightarrow>
     account_lived (es @ drop (length (agg_pending a)) (agg_pending a')) a'"
| saved: "account_lived es a \<Longrightarrow> account_lived es (snd (pull_pending_events a))"
| loaded: "account_lived es a \<Longrightarrow> load_from_history account_apply account_init es = Inr b \<Longrightarrow>
     account_lived es b"

text \<open>Replaying the recorded events rebuilds the object, but for its identity.\<close>

lemma account_lived_replay:
  "account_lived es a \<Longrightarrow>
     load_from_history account_apply account_init es = Inr (a\<lparr>agg_pending := [], acc_account_id := None\<rparr>)"
proof (induction rule: account_lived.induct)
  case (opened aid c a)
  then show ?case
    by (auto simp: account_open_eq_Inr load_from_history_def money_zero_def account_init_def)
next
  case (command es a c a')
  from command.hyps(2) show ?case
  proof (cases rule: run_account_command_cases)
    case replayed
    with command.IH show ?thesis by simp
  next
    case recorded
    have "load_from_history account_apply (a\<lparr>agg_pending := []\<rparr>) [AccountE (command_event c)] =
        Inr (a'\<lparr>agg_pending := []\<rparr>)"
      by (rule account.record_event_replay [OF recorded(1)])
    from this [THEN arg_cong, of "map_sum id (\<lambda>a'. a'\<lparr>acc_account_id := None\<rparr>)"]
    have "load_from_history account_apply (a\<lparr>agg_pending := [], acc_account_id := None\<rparr>)
        [AccountE (command_event c)] = Inr (a'\<lparr>agg_pending := [], acc_account_id := None\<rparr>)"
      by (simp add: account_replay_id [symmetric])
    with command.IH account.record_event_frame(2) [OF recorded(1)] show ?thesis
      by (simp add: account.load_from_history_append)
  qed
next
  case (saved es a)
  then show ?case by (simp add: pull_pending_events_def)
next
  case (loaded es a b)
  then have "b = a\<lparr>agg_pending := [], acc_account_id := None\<rparr>" by simp
  with loaded.IH show ?case by simp
qed

lemma account_loaded_eq:
  assumes "account_lived es a" and "load_from_history account_apply account_init es = Inr b"
  shows "b = a\<lparr>agg_pending := [], acc_account_id := None\<rparr>"
  using account_lived_replay [OF assms(1)] assms(2) by simp

lemma account_lived_inv: "account_lived es a \<Longrightarrow> account_inv a"
proof (induction rule: account_lived.induct)
  case (opened aid c a)
  then show ?case by (rule account_open_inv)
next
  case (command es a c a')
  then show ?case by (blast intro: run_account_command_inv)
next
  case (saved es a)
  then show ?case by (simp add: pull_pending_events_def)
next
  case (loaded es a b)
  then show ?case using account_loaded_eq [OF loaded.hyps] by simp
qed

text \<open>The operation ids of a history, and what its events add to the two buckets.\<close>

fun domain_op :: "domain_event \<Rightarrow> uuid option" where
  "domain_op (AccountE e) = event_op e"
| "domain_op _ = None"

definition operation_ids :: "domain_event list \<Rightarrow> uuid list" where
  "operation_ids es = List.map_filter domain_op es"

fun total_delta :: "domain_event \<Rightarrow> int" where
  "total_delta (AccountE (FundsDeposited m)) = amount m"
| "total_delta (AccountE (AccountCredited m _)) = amount m"
| "total_delta (AccountE (AccountDebited m _)) = - amount m"
| "total_delta _ = 0"

fun reserved_delta :: "domain_event \<Rightarrow> int" where
  "reserved_delta (AccountE (FundsHeld m _)) = amount m"
| "reserved_delta (AccountE (HoldReleased m _)) = - amount m"
| "reserved_delta (AccountE (AccountDebited m _)) = - amount m"
| "reserved_delta _ = 0"

lemma operation_ids_append [simp]: "operation_ids (es @ fs) = operation_ids es @ operation_ids fs"
  by (simp add: operation_ids_def List.map_filter_def)

lemma operation_ids_single [simp]:
  "operation_ids [e] = (case domain_op e of None \<Rightarrow> [] | Some op \<Rightarrow> [op])"
  by (simp add: operation_ids_def List.map_filter_def split: option.splits)

lemma record_event_deltas:
  assumes "record_event account_apply (AccountE e) a = Inr a'" and "\<And>c. e \<noteq> AccountOpened c"
  shows "account_total a' = account_total a + total_delta (AccountE e)"
    and "amount (acc_reserved a') = amount (acc_reserved a) + reserved_delta (AccountE e)"
proof -
  from assms(1) obtain b where b: "account_apply a (AccountE e) = Inr b"
    and a': "a' = b\<lparr>agg_version := agg_version b + 1, agg_pending := agg_pending b @ [AccountE e]\<rparr>"
    by (auto simp: record_event_def result_iffs)
  have "account_total b = account_total a + total_delta (AccountE e) \<and>
      amount (acc_reserved b) = amount (acc_reserved a) + reserved_delta (AccountE e)"
    using b assms(2) by (cases e) (auto simp: result_iffs account_total_def)
  then show "account_total a' = account_total a + total_delta (AccountE e)"
    and "amount (acc_reserved a') = amount (acc_reserved a) + reserved_delta (AccountE e)"
    by (simp_all add: a' account_total_def)
qed

lemma account_lived_ops:
  "account_lived es a \<Longrightarrow> distinct (operation_ids es) \<and> set (operation_ids es) = acc_applied_ops a"
proof (induction rule: account_lived.induct)
  case (opened aid c a)
  then show ?case by (auto simp: account_open_eq_Inr account_init_def)
next
  case (command es a c a')
  from command.hyps(2) show ?case
  proof (cases rule: run_account_command_cases)
    case replayed
    with command.IH show ?thesis by simp
  next
    case recorded
    then show ?thesis
      using command.IH account.record_event_frame(2) [OF recorded(1)] record_event_ops [OF recorded(1)]
      by (auto split: option.splits)
  qed
next
  case (saved es a)
  then show ?case by (simp add: pull_pending_events_def)
next
  case (loaded es a b)
  then show ?case using account_loaded_eq [OF loaded.hyps] by (simp)
qed

lemma account_lived_kind: "account_lived es a \<Longrightarrow> e \<in> set es \<Longrightarrow> \<exists>x. e = AccountE x"
proof (induction rule: account_lived.induct)
  case (command es a c a')
  from command.hyps(2) show ?case
  proof (cases rule: run_account_command_cases)
    case recorded
    then show ?thesis
      using command account.record_event_frame(2) [OF recorded(1)] by auto
  qed (use command in simp)
qed auto

lemma account_lived_balance:
  "account_lived es a \<Longrightarrow>
     account_total a = sum_list (map total_delta es) \<and>
     amount (acc_reserved a) = sum_list (map reserved_delta es)"
proof (induction rule: account_lived.induct)
  case (opened aid c a)
  then show ?case by (auto simp: account_open_eq_Inr account_total_def)
next
  case (command es a c a')
  from command.hyps(2) show ?case
  proof (cases rule: run_account_command_cases)
    case replayed
    with command.IH show ?thesis by simp
  next
    case recorded
    then show ?thesis
      using command.IH account.record_event_frame(2) [OF recorded(1)]
        record_event_deltas [OF recorded(1)] by simp
  qed
next
  case (saved es a)
  then show ?case by (simp add: pull_pending_events_def account_total_def)
next
  case (loaded es a b)
  then show ?case using account_loaded_eq [OF loaded.hyps] by (simp add: account_total_def)
qed

lemma account_lived_version:
  "account_lived es a \<Longrightarrow> agg_version a = int (length es)"
  using account.load_from_history_frame [OF account_lived_replay, of es a]
  by (simp add: account_init_def)

text \<open>Operation ids are never forgotten, and an open account ignores a known one.\<close>

inductive account_continues :: "account \<Rightarrow> account \<Rightarrow> bool" where
  start: "account_continues a a"
| step: "account_continues a b \<Longrightarrow> run_account_command c b = Inr b' \<Longrightarrow> account_continues a b'"

lemma run_account_command_ops_mono:
  assumes "run_account_command c a = Inr a'"
  shows "acc_applied_ops a \<union> set_option (event_op (command_event c)) \<subseteq> acc_applied_ops a'"
  using assms by (cases rule: run_account_command_cases) (auto dest: record_event_ops)

lemma run_account_command_currency:
  assumes "run_account_command c a = Inr a'"
  shows "acc_currency a' = acc_currency a"
  using assms
  by (cases rule: run_account_command_cases) (auto dest: record_event_currency(1))

lemma account_continues_mono:
  "account_continues a b \<Longrightarrow> acc_applied_ops a \<subseteq> acc_applied_ops b \<and> acc_currency b = acc_currency a"
proof (induction rule: account_continues.induct)
  case (start a)
  then show ?case by simp
next
  case (step a b c b')
  then show ?case
    using run_account_command_ops_mono [OF step.hyps(2)] run_account_command_currency [OF step.hyps(2)]
    by auto
qed

lemma known_operation_noop:
  assumes "run_account_command c a = Inr a'" and "event_op (command_event c) = Some op"
    and "op \<in> acc_applied_ops b" and "acc_currency b = acc_currency a" and "acc_status b = OPEN"
  shows "run_account_command c b = Inr b"
  using assms
  by (cases c) (auto simp: account_command_defs assert_operational_def assert_positive_def
      split: if_splits)

section \<open>Properties\<close>

text \<open>
  A concrete account for the witnesses: opened in USD, 100 deposited, 40 of it held under
  operation id 7.
\<close>

definition usd :: "int \<Rightarrow> money" where
  "usd n = \<lparr>amount = n, currency = ''USD''\<rparr>"

definition sample_events :: "domain_event list" where
  "sample_events =
     [AccountE (AccountOpened ''USD''), AccountE (FundsDeposited (usd 100)),
      AccountE (FundsHeld (usd 40) 7)]"

definition sample_account :: account where
  "sample_account =
     \<lparr>agg_version = 3, agg_pending = sample_events, acc_account_id = Some 1, acc_currency = ''USD'',
      acc_status = OPEN, acc_available = usd 60, acc_reserved = usd 40, acc_applied_ops = {7}\<rparr>"

lemma currency_ok_USD [simp]: "currency_ok ''USD''"
  by (simp add: currency_ok_def)

lemma sample_account_lived: "account_lived sample_events sample_account"
proof -
  obtain a where a: "account_open 1 ''USD'' = Inr a"
    by (simp add: account_open_eq_Inr)
  define b where "b = account_moved (FundsDeposited (usd 100)) 100 0 {} a"
  have ab: "run_account_command (Deposit (usd 100)) a = Inr b"
    using a by (simp add: account_open_eq_Inr account_deposit_def assert_operational_def
        assert_positive_def record_balance_event(1) account_inv_def b_def usd_def)
  have inv: "account_inv b" using account_open_inv [OF a] ab by (rule run_account_command_inv)
  have bc: "run_account_command (Hold (usd 40) 7) b = Inr sample_account"
    using a inv by (auto simp: account_open_eq_Inr account_hold_def assert_operational_def
        assert_positive_def money_lt_def record_balance_event(2) b_def usd_def account_moved_def
        account_init_def sample_account_def sample_events_def)
  have "account_lived ([AccountE (AccountOpened ''USD'')] @ drop (length (agg_pending a)) (agg_pending b)) b"
    by (rule account_lived.command [OF account_lived.opened [OF a] ab])
  from account_lived.command [OF this bc] show ?thesis
    using a by (simp add: account_open_eq_Inr b_def sample_account_def sample_events_def)
qed

text \<open>
  C7. Refinement: on every account that can arise, every command has exactly the outcome of
  the two-bucket specification: the same error class when it raises, and otherwise the same
  status, currency, balances and set of applied operations.
\<close>

theorem account_commands_refine_specification:
  assumes "account_lived es a"
  shows "map_sum exn_class account_abs (run_account_command c a) =
    map_sum Some id (account_spec c (account_abs a))"
  using assms by (intro account_command_refines_spec account_lived_inv)

theorem account_commands_refine_specification_witness:
  "map_sum exn_class account_abs (run_account_command (Debit (usd 50) 8) sample_account) =
     Inl (Some InsufficientFunds)"
  using account_commands_refine_specification [OF sample_account_lived, of "Debit (usd 50) 8"]
  by (simp add: account_abs_def sample_account_def spec_move_def usd_def)

text \<open>
  C8. Balances: along every history of commands neither bucket is ever negative, the
  reserved part never exceeds the total, both buckets are in the account's currency, and a
  closed account is empty.
\<close>

theorem account_balances_never_negative:
  assumes "account_lived es a"
  shows "0 \<le> amount (acc_available a) \<and> 0 \<le> amount (acc_reserved a) \<and>
    amount (acc_reserved a) \<le> account_total a \<and>
    currency (acc_available a) = acc_currency a \<and> currency (acc_reserved a) = acc_currency a \<and>
    (acc_status a = CLOSED \<longrightarrow> account_total a = 0)"
  using account_lived_inv [OF assms] by (auto simp: account_inv_def account_total_def)

theorem account_balances_never_negative_witness:
  "0 \<le> amount (acc_available sample_account) \<and> amount (acc_reserved sample_account) \<le> account_total sample_account"
  using account_balances_never_negative [OF sample_account_lived] by simp

text \<open>
  C29. Audit: the state of an account is determined by its recorded events. The total is deposits
  plus credits minus debits, the reserved part is holds minus releases minus debits, the version
  counts the events, and however often the commands of a saga are repeated, no operation id occurs
  twice among the events and the applied operations are exactly those.
\<close>

theorem account_state_is_event_sum:
  assumes "account_lived es a"
  shows "account_total a = sum_list (map total_delta es) \<and>
    amount (acc_reserved a) = sum_list (map reserved_delta es) \<and> agg_version a = int (length es) \<and>
    distinct (operation_ids es) \<and> acc_applied_ops a = set (operation_ids es)"
  using account_lived_balance [OF assms] account_lived_version [OF assms] account_lived_ops [OF assms] by simp

theorem account_state_is_event_sum_witness:
  "account_total sample_account = 100 \<and> amount (acc_reserved sample_account) = 40 \<and> acc_applied_ops sample_account = {7}"
  using account_state_is_event_sum [OF sample_account_lived]
  by (simp add: sample_events_def usd_def operation_ids_def List.map_filter_def)

text \<open>
  C28. Repeated operations: once a hold, release, debit or credit has been applied, repeating it
  at any later point succeeds and changes nothing if the account is still open. The account
  specification asks for a no-op in every case, but on a frozen or closed account the status check
  comes first, and the repeated command raises \<open>AccountNotActive\<close>.
\<close>

theorem account_repeated_operation:
  assumes "run_account_command c a = Inr a'" and "event_op (command_event c) = Some op"
    and "account_continues a' b"
  shows "run_account_command c b =
    (if acc_status b = OPEN then Inr b
     else Inl (DomainError AccountNotActive (''account is '' @ status_value (acc_status b))))"
proof (cases "acc_status b = OPEN")
  case True
  have "op \<in> acc_applied_ops a'" using run_account_command_ops_mono [OF assms(1)] assms(2) by simp
  then have "op \<in> acc_applied_ops b" using account_continues_mono [OF assms(3)] by auto
  moreover have "acc_currency b = acc_currency a"
    using account_continues_mono [OF assms(3)] run_account_command_currency [OF assms(1)] by simp
  ultimately have "run_account_command c b = Inr b" using assms True by (blast intro: known_operation_noop)
  with True show ?thesis by simp
next
  case False
  with assms(2) show ?thesis by (cases c) (simp_all add: account_command_defs assert_operational_def)
qed

lemma sample_hold_again: "run_account_command (Hold (usd 40) 7) sample_account = Inr sample_account"
  by (simp add: account_hold_def assert_operational_def assert_positive_def sample_account_def usd_def)

theorem account_repeated_operation_witness:
  "run_account_command (Hold (usd 40) 7) sample_account = Inr sample_account"
  using account_repeated_operation [OF sample_hold_again _ account_continues.start, of 7] by (simp add: sample_account_def)

end
