(* ===== verification/Journal.thy ===== *)
theory Journal
  imports Accounts Runtime
begin

text \<open>
  The ledger context, \<^verbatim>\<open>src/src/ledger/domain/ledger\<close>: the balance check and the
  \<open>JournalEntry\<close> aggregate of \<^verbatim>\<open>journal_entry.py\<close> and the \<open>JournalPostingService\<close> of
  \<^verbatim>\<open>posting_service.py\<close>. The service reads accounts through the port
  \<open>AccountStatusReader\<close>, here the locale \<open>status_reader\<close>; its providers (the repository
  reader of the activities and the balances projection) interpret it in their own
  theories. The lemmas characterise exactly which leg lists are accepted and show that
  posted entries net to zero.
\<close>

section \<open>The balance check\<close>

text \<open>One round of the loop: the debit and the credit totals per currency.\<close>

type_synonym totals = "(string \<times> int) list"

definition tally_leg :: "totals \<times> totals \<Rightarrow> leg \<Rightarrow> (totals \<times> totals) result" where
  "tally_leg t l =
     bindE (assert_positive (leg_amount l)) (\<lambda>m.
       let c = currency m; (debit_total, credit_total) = t
       in if leg_direction l = DEBIT
          then Inr (dict_set c (dict_get0 debit_total c + amount m) debit_total, credit_total)
          else Inr (debit_total, dict_set c (dict_get0 credit_total c + amount m) credit_total))"

definition assert_balanced :: "runtime \<Rightarrow> leg list \<Rightarrow> unit result" where
  "assert_balanced rt legs =
     (if legs = [] then Inl (DomainError UnbalancedEntry ''entry has no legs'')
      else bindE (foldE tally_leg ([], []) legs) (\<lambda>(debit_total, credit_total).
        if debit_total = [] \<or> credit_total = []
        then Inl (DomainError UnbalancedEntry ''entry needs at least one debit and one credit'')
        else foldE (\<lambda>_ c.
               let debit = dict_get0 debit_total c; credit = dict_get0 credit_total c
               in if debit \<noteq> credit
                  then Inl (DomainError UnbalancedEntry
                         (c @ '' unbalanced: debit '' @ str_int debit @ '' != credit '' @ str_int credit))
                  else Inr ())
             () (rt_set_str rt (remdups (map fst debit_total @ map fst credit_total)))))"

section \<open>The aggregate\<close>

record journal_entry = "domain_event aggregate_root" +
  je_entry_id :: "uuid option"
  je_legs :: "leg list"
  je_posted :: bool

definition journal_init :: journal_entry where
  "journal_init =
     \<lparr>agg_version = 0, agg_pending = [], je_entry_id = None, je_legs = [], je_posted = False\<rparr>"

fun journal_apply :: "journal_entry \<Rightarrow> domain_event \<Rightarrow> journal_entry result" where
  "journal_apply j (JournalE (JournalEntryPosted legs _)) = Inr (j\<lparr>je_legs := legs, je_posted := True\<rparr>)"
| "journal_apply j (AccountE _) = Inr j"
| "journal_apply j (TransferE _) = Inr j"

definition journal_post ::
  "runtime \<Rightarrow> uuid \<Rightarrow> leg list \<Rightarrow> string option \<Rightarrow> journal_entry result" where
  "journal_post rt eid legs ref =
     bindE (assert_balanced rt legs) (\<lambda>_.
       record_event journal_apply (JournalE (JournalEntryPosted legs ref))
         (journal_init\<lparr>je_entry_id := Some eid\<rparr>))"

interpretation journal: aggregate journal_apply
proof
  fix j :: journal_entry and v p e
  show "journal_apply (j\<lparr>agg_version := v, agg_pending := p\<rparr>) e =
      map_sum id (\<lambda>j'. j'\<lparr>agg_version := v, agg_pending := p\<rparr>) (journal_apply j e)"
    by (induction j e rule: journal_apply.induct) simp_all
qed

section \<open>The posting service\<close>

record account_snapshot =
  snap_account_id :: uuid
  snap_currency :: string
  snap_status :: account_status

type_synonym 's status_reader = "uuid \<Rightarrow> ('s, exn, account_snapshot option) action"

text \<open>The bodies of the two loops: resolve one account, compare one leg's currency.\<close>

definition resolve_account ::
  "'s status_reader \<Rightarrow> (uuid \<times> account_snapshot) list \<Rightarrow> uuid \<Rightarrow>
   ('s, exn, (uuid \<times> account_snapshot) list) action" where
  "resolve_account snapshot resolved aid =
     bindM (snapshot aid) (\<lambda>found.
       case found of
         None \<Rightarrow> raiseM (DomainError UnknownAccount (str_uuid aid))
       | Some snap \<Rightarrow>
           if snap_status snap \<noteq> OPEN
           then raiseM (DomainError AccountNotActive
                  (''account '' @ str_uuid aid @ '' is '' @ status_value (snap_status snap)))
           else returnM (dict_set aid snap resolved))"

definition resolve_accounts ::
  "runtime \<Rightarrow> 's status_reader \<Rightarrow> leg list \<Rightarrow> ('s, exn, (uuid \<times> account_snapshot) list) action" where
  "resolve_accounts rt snapshot legs =
     foldM (resolve_account snapshot) [] (rt_set_uuid rt (remdups (map leg_account_id legs)))"

definition check_leg_currency :: "(uuid \<times> account_snapshot) list \<Rightarrow> leg \<Rightarrow> unit result" where
  "check_leg_currency snapshots l =
     (case map_of snapshots (leg_account_id l) of
        None \<Rightarrow> Inl KeyError
      | Some snap \<Rightarrow>
          if snap_currency snap \<noteq> currency (leg_amount l)
          then Inl (DomainError CurrencyMismatch
                 (''account '' @ str_uuid (leg_account_id l) @ '' is '' @ snap_currency snap @
                  '', leg is '' @ currency (leg_amount l)))
          else Inr ())"

definition post_entry ::
  "runtime \<Rightarrow> 's status_reader \<Rightarrow> uuid \<Rightarrow> leg list \<Rightarrow> string option \<Rightarrow>
   ('s, exn, journal_entry) action" where
  "post_entry rt snapshot eid legs ref =
     bindM (resolve_accounts rt snapshot legs) (\<lambda>snapshots.
     bindM (liftE (foldE (\<lambda>_. check_leg_currency snapshots) () legs)) (\<lambda>_.
     liftE (journal_post rt eid legs ref)))"

section \<open>Which entries are accepted\<close>

definition side_total :: "leg_direction \<Rightarrow> string \<Rightarrow> leg list \<Rightarrow> int" where
  "side_total d c legs =
     sum_list (map (\<lambda>l. amount (leg_amount l))
       (filter (\<lambda>l. leg_direction l = d \<and> currency (leg_amount l) = c) legs))"

definition has_side :: "leg_direction \<Rightarrow> leg list \<Rightarrow> bool" where
  "has_side d legs \<longleftrightarrow> (\<exists>l \<in> set legs. leg_direction l = d)"

definition legs_positive :: "leg list \<Rightarrow> bool" where
  "legs_positive legs \<longleftrightarrow> (\<forall>l \<in> set legs. 0 < amount (leg_amount l))"

definition legs_balanced :: "leg list \<Rightarrow> bool" where
  "legs_balanced legs \<longleftrightarrow>
     legs_positive legs \<and> has_side DEBIT legs \<and> has_side CREDIT legs \<and>
     (\<forall>c. side_total DEBIT c legs = side_total CREDIT c legs)"

lemma leg_direction_cases: "d = DEBIT \<or> d = CREDIT"
  by (cases d) simp_all

lemma side_total_Cons:
  "side_total d c (l # legs) =
     (if leg_direction l = d \<and> currency (leg_amount l) = c then amount (leg_amount l) else 0) +
     side_total d c legs"
  by (simp add: side_total_def)

lemma dict_get0_set: "dict_get0 (dict_set k v t) c = (if c = k then v else dict_get0 t c)"
  by (simp add: dict_get0_def)

lemma dict_keys_set: "fst ` set (dict_set k v t) = insert k (fst ` set t)"
  by (simp add: dict_set_def dom_update)

text \<open>The loop computes the totals of both sides, or stops at the first non-positive leg.\<close>

definition tallied :: "totals \<Rightarrow> leg_direction \<Rightarrow> leg list \<Rightarrow> totals \<Rightarrow> bool" where
  "tallied t d legs t' \<longleftrightarrow>
     (\<forall>k. dict_get0 t' k = dict_get0 t k + side_total d k legs) \<and>
     (t' = [] \<longleftrightarrow> t = [] \<and> \<not> has_side d legs)"

lemma tallied_Nil: "tallied t d [] t"
  by (simp add: tallied_def side_total_def has_side_def)

lemma tallied_other:
  "leg_direction l \<noteq> d \<Longrightarrow> tallied t d legs t' \<Longrightarrow> tallied t d (l # legs) t'"
  by (simp add: tallied_def side_total_Cons has_side_def)

lemma tallied_same:
  assumes "leg_direction l = d"
    and "tallied (dict_set (currency (leg_amount l))
      (dict_get0 t (currency (leg_amount l)) + amount (leg_amount l)) t) d legs t'"
  shows "tallied t d (l # legs) t'"
  using assms by (auto simp: tallied_def side_total_Cons has_side_def dict_get0_set)

lemma tally_leg_step:
  assumes "0 < amount (leg_amount l)"
  shows "tally_leg (d, c) l =
    Inr (if leg_direction l = DEBIT
         then (dict_set (currency (leg_amount l))
                 (dict_get0 d (currency (leg_amount l)) + amount (leg_amount l)) d, c)
         else (d, dict_set (currency (leg_amount l))
                 (dict_get0 c (currency (leg_amount l)) + amount (leg_amount l)) c))"
  using assms by (simp add: tally_leg_def assert_positive_def Let_def)

lemma tally_legs:
  assumes "legs_positive legs"
  shows "\<exists>td tc. foldE tally_leg (d, c) legs = Inr (td, tc) \<and>
    tallied d DEBIT legs td \<and> tallied c CREDIT legs tc"
  using assms
proof (induction legs arbitrary: d c)
  case Nil
  then show ?case by (simp add: tallied_Nil)
next
  case (Cons l legs)
  have pos: "0 < amount (leg_amount l)" and rest: "legs_positive legs"
    using Cons.prems by (simp_all add: legs_positive_def)
  have "\<exists>d' c'. tally_leg (d, c) l = Inr (d', c') \<and>
      (\<forall>t. tallied d' DEBIT legs t \<longrightarrow> tallied d DEBIT (l # legs) t) \<and>
      (\<forall>t. tallied c' CREDIT legs t \<longrightarrow> tallied c CREDIT (l # legs) t)"
    by (cases "leg_direction l")
      (simp_all add: tally_leg_step [OF pos] tallied_same tallied_other)
  with Cons.IH [OF rest] show ?case by (metis bindE_simps(2) foldE.simps(2))
qed

lemma tally_legs_nonpositive:
  assumes "\<not> legs_positive legs"
  shows "\<exists>msg. foldE tally_leg t legs = Inl (DomainError InvalidAmount msg)"
  using assms
proof (induction legs arbitrary: t)
  case Nil
  then show ?case by (simp add: legs_positive_def)
next
  case (Cons l legs)
  show ?case
  proof (cases "amount (leg_amount l) \<le> 0")
    case True
    then show ?thesis by (simp add: tally_leg_def assert_positive_def)
  next
    case False
    then have "\<not> legs_positive legs" using Cons.prems by (auto simp: legs_positive_def)
    moreover have "\<exists>t'. tally_leg t l = Inr t'"
      using False by (cases t) (simp add: tally_leg_step)
    ultimately show ?thesis using Cons.IH by auto
  qed
qed

text \<open>The comparison loop over the currencies.\<close>

lemma foldE_unit_checks:
  "foldE (\<lambda>_ x. if P x then Inl (f x) else Inr ()) () xs = Inr () \<longleftrightarrow> (\<forall>x \<in> set xs. \<not> P x)"
  by (induction xs) auto

lemma foldE_unit_checks_Inl:
  "foldE (\<lambda>_ x. if P x then Inl (f x) else Inr ()) () xs = Inl e \<Longrightarrow> \<exists>x \<in> set xs. P x \<and> e = f x"
  by (induction xs) (auto split: if_splits)

lemma dict_get0_outside: "k \<notin> fst ` set t \<Longrightarrow> dict_get0 t k = 0"
  using map_of_eq_None_iff [of t k] by (simp add: dict_get0_def)

lemma assert_balanced_positive:
  assumes "set_order_ok rt" and "legs_positive legs"
  shows "assert_balanced rt legs = Inr () \<longleftrightarrow> legs_balanced legs"
    and "\<not> legs_balanced legs \<Longrightarrow> \<exists>msg. assert_balanced rt legs = Inl (DomainError UnbalancedEntry msg)"
proof -
  from tally_legs [OF assms(2), of "[]" "[]"]
  obtain td tc where fold: "foldE tally_leg ([], []) legs = Inr (td, tc)"
    and debit: "\<And>k. dict_get0 td k = side_total DEBIT k legs"
    and credit: "\<And>k. dict_get0 tc k = side_total CREDIT k legs"
    and sides: "td = [] \<longleftrightarrow> \<not> has_side DEBIT legs" "tc = [] \<longleftrightarrow> \<not> has_side CREDIT legs"
    by (auto simp: tallied_def dict_get0_def)
  have all: "(\<forall>k \<in> fst ` set td \<union> fst ` set tc. dict_get0 td k = dict_get0 tc k) \<longleftrightarrow>
      (\<forall>k. dict_get0 td k = dict_get0 tc k)"
    by (metis UnI1 UnI2 dict_get0_outside)
  let ?keys = "rt_set_str rt (remdups (map fst td @ map fst tc))"
  let ?check = "foldE (\<lambda>_ c. if dict_get0 td c \<noteq> dict_get0 tc c
      then Inl (DomainError UnbalancedEntry (c @ '' unbalanced: debit '' @ str_int (dict_get0 td c) @
        '' != credit '' @ str_int (dict_get0 tc c))) else Inr ()) () ?keys"
  have empty: "legs = [] \<Longrightarrow> td = []" using sides by (simp add: has_side_def)
  have eq: "assert_balanced rt legs =
      (if legs = [] then Inl (DomainError UnbalancedEntry ''entry has no legs'')
       else if td = [] \<or> tc = []
       then Inl (DomainError UnbalancedEntry ''entry needs at least one debit and one credit'')
       else ?check)"
    by (simp add: assert_balanced_def fold Let_def)
  have bal: "legs_balanced legs \<longleftrightarrow> td \<noteq> [] \<and> tc \<noteq> [] \<and> (\<forall>k. dict_get0 td k = dict_get0 tc k)"
    using assms(2) sides by (simp add: legs_balanced_def debit credit)
  have check: "?check = Inr () \<longleftrightarrow> (\<forall>k. dict_get0 td k = dict_get0 tc k)"
    using all by (simp only: foldE_unit_checks) (simp add: assms(1) image_Un)
  show "assert_balanced rt legs = Inr () \<longleftrightarrow> legs_balanced legs"
    using empty check by (auto simp: eq bal)
  show "\<exists>msg. assert_balanced rt legs = Inl (DomainError UnbalancedEntry msg)"
    if "\<not> legs_balanced legs"
  proof (cases "legs = [] \<or> td = [] \<or> tc = []")
    case True
    then show ?thesis by (auto simp: eq)
  next
    case False
    with that have "?check \<noteq> Inr ()" using bal check by blast
    then obtain e where e: "?check = Inl e" by (cases ?check) auto
    then show ?thesis using False foldE_unit_checks_Inl [OF e] by (auto simp: eq)
  qed
qed

lemma assert_balanced_iff:
  assumes "set_order_ok rt"
  shows "assert_balanced rt legs = Inr () \<longleftrightarrow> legs_balanced legs"
proof (cases "legs_positive legs")
  case True
  with assms show ?thesis by (rule assert_balanced_positive(1))
next
  case False
  then have "legs \<noteq> []" by (auto simp: legs_positive_def)
  with False show ?thesis
    using tally_legs_nonpositive [OF False, of "([], [])"]
    by (auto simp: assert_balanced_def legs_balanced_def)
qed

lemma assert_balanced_errors:
  assumes "set_order_ok rt" and "assert_balanced rt legs = Inl e"
  shows "(\<exists>msg. e = DomainError UnbalancedEntry msg \<and> legs_positive legs) \<or>
     (\<exists>msg. e = DomainError InvalidAmount msg \<and> \<not> legs_positive legs)"
proof (cases "legs_positive legs")
  case True
  then have "\<not> legs_balanced legs"
    using assert_balanced_iff [OF assms(1), of legs] assms(2) by auto
  with assert_balanced_positive(2) [OF assms(1) True] True assms(2) show ?thesis by auto
next
  case False
  then have "legs \<noteq> []" by (auto simp: legs_positive_def)
  with False assms(2) show ?thesis
    using tally_legs_nonpositive [OF False, of "([], [])"] by (auto simp: assert_balanced_def)
qed

section \<open>Posting\<close>

lemma journal_post_eq_Inr:
  assumes "set_order_ok rt"
  shows "journal_post rt eid legs ref = Inr j \<longleftrightarrow> legs_balanced legs \<and>
    j = \<lparr>agg_version = 1, agg_pending = [JournalE (JournalEntryPosted legs ref)],
         je_entry_id = Some eid, je_legs = legs, je_posted = True\<rparr>"
proof -
  have "assert_balanced rt legs = Inr u \<longleftrightarrow> legs_balanced legs" for u
    using assert_balanced_iff [OF assms] by (cases u) simp
  then show ?thesis
    by (auto simp: journal_post_def result_iffs record_event_def journal_init_def)
qed

text \<open>
  Why a posting is refused, if it is. The accounts come first, in the order in which the set of
  their identifiers is iterated: the first one that is unknown or not open decides. Then the
  currencies of the legs, then the balance of the entry.
\<close>

definition account_refusal :: "account_snapshot option \<Rightarrow> domain_class option" where
  "account_refusal snap =
     (case snap of
        None \<Rightarrow> Some UnknownAccount
      | Some s \<Rightarrow> if snap_status s \<noteq> OPEN then Some AccountNotActive else None)"

definition posting_refusal :: "(uuid \<Rightarrow> account_snapshot option) \<Rightarrow> uuid list \<Rightarrow> leg list \<Rightarrow> domain_class option" where
  "posting_refusal known order legs =
     (case find (\<lambda>aid. account_refusal (known aid) \<noteq> None) order of
        Some aid \<Rightarrow> account_refusal (known aid)
      | None \<Rightarrow>
          if \<not> list_all (\<lambda>l. map_option snap_currency (known (leg_account_id l)) = Some (currency (leg_amount l))) legs
          then Some CurrencyMismatch
          else if legs_balanced legs then None
          else Some (if legs_positive legs then UnbalancedEntry else InvalidAmount))"

lemma account_refusal_None: "account_refusal snap = None \<longleftrightarrow> (\<exists>s. snap = Some s \<and> snap_status s = OPEN)"
  by (auto simp: account_refusal_def split: option.splits)

text \<open>
  The port: a reader that answers from what it knows about accounts and changes nothing.
\<close>

locale status_reader =
  fixes snapshot :: "'s status_reader"
    and known :: "'s \<Rightarrow> uuid \<Rightarrow> account_snapshot option"
    and invar :: "'s \<Rightarrow> bool"
  assumes snapshot_reads: "invar s \<Longrightarrow> snapshot aid s = (Inr (known s aid), s)"
begin

lemma resolve_account_step:
  assumes "invar s"
  shows "account_refusal (known s aid) = None \<Longrightarrow> \<exists>snap. known s aid = Some snap \<and>
      resolve_account snapshot d aid s = (Inr (dict_set aid snap d), s)"
    and "account_refusal (known s aid) = Some c \<Longrightarrow> \<exists>msg. resolve_account snapshot d aid s = (Inl (DomainError c msg), s)"
  by (auto simp: account_refusal_def resolve_account_def bindM_def snapshot_reads [OF assms]
      split: option.splits if_splits)

text \<open>The resolution loop succeeds exactly if every account is known and open; else the first that is not decides.\<close>

lemma resolve_loop:
  assumes "invar s"
  shows "find (\<lambda>aid. account_refusal (known s aid) \<noteq> None) aids = None \<Longrightarrow>
      \<exists>r. foldM (resolve_account snapshot) d aids s = (Inr r, s) \<and>
        (\<forall>k. map_of r k = (if k \<in> set aids then known s k else map_of d k))"
    and "find (\<lambda>aid. account_refusal (known s aid) \<noteq> None) aids = Some aid \<Longrightarrow> account_refusal (known s aid) = Some c \<Longrightarrow>
      \<exists>msg. foldM (resolve_account snapshot) d aids s = (Inl (DomainError c msg), s)"
proof (induction aids arbitrary: d)
  case Nil
  {
    case 1
    then show ?case by simp
  next
    case 2
    then show ?case by simp
  }
next
  case (Cons a aids)
  {
    case 1
    then have free: "account_refusal (known s a) = None" by (simp split: if_splits)
    then obtain snap where "known s a = Some snap"
      and "resolve_account snapshot d a s = (Inr (dict_set a snap d), s)"
      using resolve_account_step(1) [OF assms, of a d] by auto
    with 1 free Cons.IH(1) [of "dict_set a snap d"] show ?case by (auto simp: bindM_Inr)
  next
    case 2
    show ?case
    proof (cases "account_refusal (known s a)")
      case None
      then obtain snap where "resolve_account snapshot d a s = (Inr (dict_set a snap d), s)"
        using resolve_account_step(1) [OF assms, of a d] by auto
      with None 2 Cons.IH(2) [of "dict_set a snap d"] show ?thesis by (auto simp: bindM_Inr)
    next
      case (Some c')
      with 2 have "c' = c" by simp
      with Some show ?thesis using resolve_account_step(2) [OF assms Some, of d] by (auto simp: bindM_Inl)
    qed
  }
qed

text \<open>The currency loop, once every account is resolved.\<close>

lemma currency_loop:
  assumes "\<And>l. l \<in> set legs \<Longrightarrow> map_of r (leg_account_id l) = known s (leg_account_id l)"
    and "\<And>l. l \<in> set legs \<Longrightarrow> known s (leg_account_id l) \<noteq> None"
  shows "if list_all (\<lambda>l. map_option snap_currency (known s (leg_account_id l)) = Some (currency (leg_amount l))) legs
    then foldE (\<lambda>_. check_leg_currency r) () legs = Inr ()
    else \<exists>msg. foldE (\<lambda>_. check_leg_currency r) () legs = Inl (DomainError CurrencyMismatch msg)"
  using assms
proof (induction legs)
  case Nil
  then show ?case by simp
next
  case (Cons l legs)
  from Cons.prems(2) [of l] obtain snap where snap: "known s (leg_account_id l) = Some snap" by auto
  have look: "map_of r (leg_account_id l) = Some snap" using Cons.prems(1) [of l] snap by simp
  have IH: "if list_all (\<lambda>l. map_option snap_currency (known s (leg_account_id l)) = Some (currency (leg_amount l))) legs
    then foldE (\<lambda>_. check_leg_currency r) () legs = Inr ()
    else \<exists>msg. foldE (\<lambda>_. check_leg_currency r) () legs = Inl (DomainError CurrencyMismatch msg)"
    using Cons by simp
  have "if snap_currency snap = currency (leg_amount l) then check_leg_currency r l = Inr ()
      else \<exists>msg. check_leg_currency r l = Inl (DomainError CurrencyMismatch msg)"
    using look by (auto simp: check_leg_currency_def)
  with IH snap show ?case
    by (cases "snap_currency snap = currency (leg_amount l)") auto
qed

text \<open>The service's answer depends on what the reader knows, and on nothing else of the store.\<close>

lemma post_entry_known:
  assumes "invar s"
  shows "post_entry rt snapshot eid legs ref s =
    (fst (post_entry rt (\<lambda>aid u. (Inr (known s aid), u)) eid legs ref ()), s)"
proof -
  let ?pure = "\<lambda>aid u. (Inr (known s aid), u :: unit)"
  define g where "g d aid = fst (resolve_account ?pure d aid ())" for d aid
  have "resolve_account snapshot d aid s = (g d aid, s)" for d aid
    by (auto simp: g_def resolve_account_def bindM_def snapshot_reads [OF assms] split: option.splits)
  then have 1: "resolve_accounts rt snapshot legs s =
      (foldE g [] (rt_set_uuid rt (remdups (map leg_account_id legs))), s)"
    by (simp add: resolve_accounts_def foldM_pure)
  have "resolve_account ?pure d aid () = (g d aid, ())" for d aid
    by (simp add: g_def prod_eq_iff)
  then have 2: "resolve_accounts rt ?pure legs () =
      (foldE g [] (rt_set_uuid rt (remdups (map leg_account_id legs))), ())"
    by (simp add: resolve_accounts_def foldM_pure)
  show ?thesis
    unfolding post_entry_def bindM_run [where m = "resolve_accounts rt snapshot legs", OF 1]
      bindM_run [where m = "resolve_accounts rt ?pure legs", OF 2]
    by (auto simp: bindM_def split: sum.splits)
qed

text \<open>
  The whole service: it never touches the store, returns the entry if nothing speaks against it,
  and otherwise raises the domain error of the reason.
\<close>

lemma post_entry_cases:
  assumes inv: "invar s" and ord: "set_order_ok rt"
  shows "case posting_refusal (known s) (rt_set_uuid rt (remdups (map leg_account_id legs))) legs of
      None \<Rightarrow> post_entry rt snapshot eid legs ref s =
        (Inr \<lparr>agg_version = 1, agg_pending = [JournalE (JournalEntryPosted legs ref)],
             je_entry_id = Some eid, je_legs = legs, je_posted = True\<rparr>, s)
    | Some c \<Rightarrow> \<exists>msg. post_entry rt snapshot eid legs ref s = (Inl (DomainError c msg), s)"
proof -
  let ?order = "rt_set_uuid rt (remdups (map leg_account_id legs))"
  show ?thesis
  proof (cases "find (\<lambda>aid. account_refusal (known s aid) \<noteq> None) ?order")
    case (Some aid)
    then obtain c where c: "account_refusal (known s aid) = Some c" by (auto simp: find_Some_iff)
    from resolve_loop(2) [OF inv Some c, of "[]"] Some c show ?thesis
      by (auto simp: posting_refusal_def post_entry_def resolve_accounts_def bindM_Inl)
  next
    case None
    then have free: "account_refusal (known s (leg_account_id l)) = None" if "l \<in> set legs" for l
      using that ord by (auto simp: find_None_iff)
    from resolve_loop(1) [OF inv None, of "[]"] ord obtain r where r: "resolve_accounts rt snapshot legs s = (Inr r, s)"
      and look: "\<And>l. l \<in> set legs \<Longrightarrow> map_of r (leg_account_id l) = known s (leg_account_id l)"
      by (auto simp: resolve_accounts_def)
    let ?cur = "list_all (\<lambda>l. map_option snap_currency (known s (leg_account_id l)) = Some (currency (leg_amount l))) legs"
    have cur: "if ?cur then foldE (\<lambda>_. check_leg_currency r) () legs = Inr ()
      else \<exists>msg. foldE (\<lambda>_. check_leg_currency r) () legs = Inl (DomainError CurrencyMismatch msg)"
      using look free by (intro currency_loop) (auto simp: account_refusal_None)
    show ?thesis
    proof (cases ?cur)
      case False
      with cur r None show ?thesis by (auto simp: posting_refusal_def post_entry_def bindM_Inr)
    next
      case True
      then have post: "post_entry rt snapshot eid legs ref s = (journal_post rt eid legs ref, s)"
        using cur r by (simp add: post_entry_def bindM_Inr)
      show ?thesis
      proof (cases "legs_balanced legs")
        case bal: True
        with post True None journal_post_eq_Inr [OF ord, of eid legs ref] show ?thesis by (simp add: posting_refusal_def)
      next
        case bal: False
        then obtain e where e: "assert_balanced rt legs = Inl e"
          using assert_balanced_iff [OF ord, of legs] by (cases "assert_balanced rt legs") auto
        then have "journal_post rt eid legs ref = Inl e" by (simp add: journal_post_def)
        with bal post True None assert_balanced_errors [OF ord e] show ?thesis by (auto simp: posting_refusal_def)
      qed
    qed
  qed
qed

end

section \<open>Double entry\<close>

text \<open>The signed contribution of a leg, and the net of a list of legs.\<close>

definition leg_signed :: "leg \<Rightarrow> int" where
  "leg_signed l = (if leg_direction l = DEBIT then amount (leg_amount l) else - amount (leg_amount l))"

definition currency_net :: "string \<Rightarrow> leg list \<Rightarrow> int" where
  "currency_net c legs = sum_list (map leg_signed (filter (\<lambda>l. currency (leg_amount l) = c) legs))"

definition account_net :: "uuid \<Rightarrow> string \<Rightarrow> leg list \<Rightarrow> int" where
  "account_net aid c legs =
     sum_list (map leg_signed (filter (\<lambda>l. leg_account_id l = aid \<and> currency (leg_amount l) = c) legs))"

lemma currency_net_sides: "currency_net c legs = side_total DEBIT c legs - side_total CREDIT c legs"
proof (induction legs)
  case Nil
  then show ?case by (simp add: currency_net_def side_total_def)
next
  case (Cons l legs)
  then show ?case
    by (cases "leg_direction l") (auto simp: currency_net_def side_total_def leg_signed_def)
qed

lemma balanced_net_zero: "legs_balanced legs \<Longrightarrow> currency_net c legs = 0"
  by (simp add: currency_net_sides legs_balanced_def)

lemma currency_net_concat: "currency_net c (concat ls) = sum_list (map (currency_net c) ls)"
  by (induction ls) (simp_all add: currency_net_def)

lemma transfer_legs_balanced:
  assumes "0 < amount m"
  shows "legs_balanced [leg_debit src m, leg_credit dst m]"
  using assms
  by (auto simp: legs_balanced_def legs_positive_def has_side_def side_total_def leg_debit_def leg_credit_def)

section \<open>Properties\<close>

text \<open>
  C10. Only balanced entries exist: \<open>JournalEntry.post\<close> returns an entry exactly for non-empty legs
  of positive amounts with at least one debit and one credit whose totals agree in every currency.
  The entry records the legs as given and nets to zero in every currency. Anything else is
  refused: as \<open>InvalidAmount\<close> if some amount is not positive, as \<open>UnbalancedEntry\<close> otherwise.
\<close>

theorem journal_post_exactly_balanced:
  assumes "set_order_ok rt"
  shows "case journal_post rt eid legs ref of
      Inr j \<Rightarrow> legs_balanced legs \<and> agg_pending j = [JournalE (JournalEntryPosted legs ref)] \<and> je_legs j = legs \<and>
        (\<forall>c. currency_net c legs = 0)
    | Inl e \<Rightarrow> \<not> legs_balanced legs \<and>
        exn_class e = Some (if legs_positive legs then UnbalancedEntry else InvalidAmount)"
proof (cases "journal_post rt eid legs ref")
  case (Inl e)
  then have "assert_balanced rt legs = Inl e"
    by (auto simp: journal_post_def record_event_def result_iffs)
  with Inl assert_balanced_errors [OF assms this] assert_balanced_iff [OF assms, of legs] show ?thesis by auto
next
  case (Inr j)
  then have "legs_balanced legs" "agg_pending j = [JournalE (JournalEntryPosted legs ref)]" "je_legs j = legs"
    by (simp_all add: journal_post_eq_Inr [OF assms])
  with Inr show ?thesis by (simp add: balanced_net_zero)
qed

theorem journal_post_exactly_balanced_witness:
  "\<exists>j. journal_post plain_runtime 9 [leg_debit 1 (usd 5), leg_credit 2 (usd 5)] None = Inr j \<and>
     je_legs j = [leg_debit 1 (usd 5), leg_credit 2 (usd 5)]"
proof -
  have "legs_balanced [leg_debit 1 (usd 5), leg_credit 2 (usd 5)]"
    by (rule transfer_legs_balanced) (simp add: usd_def)
  then show ?thesis
    using journal_post_exactly_balanced [where rt = plain_runtime and eid = 9 and ref = None and
        legs = "[leg_debit 1 (usd 5), leg_credit 2 (usd 5)]"]
    by (auto split: sum.splits)
qed

end
