(* ===== verification/Repository.thy ===== *)
theory Repository
  imports Event_Store Accounts Journal
begin

text \<open>
  \<open>EventSourcedRepository\<close>, \<^verbatim>\<open>src/src/ledger/eventstore/repository.py\<close>: an aggregate is
  loaded by replaying its stream and saved by appending its buffer under its expected
  version. The repository depends on the \<open>EventStore\<close> protocol, a codec and the aggregate's
  \<open>_apply\<close>; the locale \<open>event_sourced_repository\<close> combines those three contracts and proves
  what load and save do to the decoded streams, for any store and any aggregate.
\<close>

section \<open>Load and save\<close>

record ('s, 'a) repository =
  repo_runtime :: runtime
  repo_store :: "'s event_store"
  repo_registry :: event_registry
  repo_stream_type :: string
  repo_factory :: 'a
  repo_apply :: "'a \<Rightarrow> domain_event \<Rightarrow> 'a result"

definition decode_stored :: "runtime \<Rightarrow> event_registry \<Rightarrow> stored_event \<Rightarrow> domain_event result" where
  "decode_stored rt reg rec =
     deserialize rt reg (se_event_type rec) (se_schema_version rec) (se_payload rec)"

definition repo_load ::
  "('s, (domain_event, 'z) aggregate_root_scheme) repository \<Rightarrow> uuid \<Rightarrow>
   ('s, exn, (domain_event, 'z) aggregate_root_scheme option) action" where
  "repo_load repo aid =
     bindM (es_load_stream (repo_store repo) (repo_stream_type repo) aid) (\<lambda>stored.
       if stored = [] then returnM None
       else liftE (
         bindE (mapE (decode_stored (repo_runtime repo) (repo_registry repo)) stored) (\<lambda>events.
         bindE (load_from_history (repo_apply repo) (repo_factory repo) events) (\<lambda>a. Inr (Some a)))))"

definition repo_save ::
  "('s, (domain_event, 'z) aggregate_root_scheme) repository \<Rightarrow> uuid \<Rightarrow>
   (domain_event, 'z) aggregate_root_scheme \<Rightarrow> event_metadata option \<Rightarrow>
   ('s, exn, stored_event list \<times> (domain_event, 'z) aggregate_root_scheme) action" where
  "repo_save repo aid a md =
     (let expected = expected_version a; (pending, a') = pull_pending_events a
      in if pending = [] then returnM ([], a')
         else bindM (es_append (repo_store repo) (repo_stream_type repo) aid expected pending
                  (case md of Some m \<Rightarrow> m | None \<Rightarrow> empty_metadata))
                (\<lambda>stored. returnM (stored, a')))"

section \<open>Decoded logs\<close>

text \<open>A stored event that is the envelope of a valid domain event.\<close>

definition stored_as :: "runtime \<Rightarrow> domain_event \<Rightarrow> stored_event \<Rightarrow> bool" where
  "stored_as rt e s \<longleftrightarrow>
     event_ok e \<and> se_event_type s = class_name (class_of e) \<and> se_schema_version s = 1 \<and>
     se_payload s = serialize rt e"

definition log_decodes :: "runtime \<Rightarrow> event_list \<Rightarrow> bool" where
  "log_decodes rt log \<longleftrightarrow> (\<forall>s \<in> set log. \<exists>e. stored_as rt e s)"

definition decoded :: "runtime \<Rightarrow> stored_event \<Rightarrow> domain_event" where
  "decoded rt s = projr (decode_stored rt ledger_registry s)"

definition stream_events :: "runtime \<Rightarrow> string \<Rightarrow> uuid \<Rightarrow> event_list \<Rightarrow> domain_event list" where
  "stream_events rt st sid log = map (decoded rt) (stream_of st sid log)"

lemma stream_events_append:
  "stream_events rt st sid (xs @ ys) = stream_events rt st sid xs @ stream_events rt st sid ys"
  by (simp add: stream_events_def stream_of_append)

lemma stream_events_Nil [simp]: "stream_events rt st sid [] = []"
  by (simp add: stream_events_def stream_of_def)

lemma log_decodes_append [simp]:
  "log_decodes rt (xs @ ys) \<longleftrightarrow> log_decodes rt xs \<and> log_decodes rt ys"
  by (auto simp: log_decodes_def)

lemma log_decodes_Nil [simp]: "log_decodes rt []"
  by (simp add: log_decodes_def)

context runtime_codec
begin

lemma decode_stored_as: "stored_as rt e s \<Longrightarrow> decode_stored rt ledger_registry s = Inr e"
  using ledger_codec(3) [of e] by (simp add: stored_as_def decode_stored_def)

lemma decoded_stored_as: "stored_as rt e s \<Longrightarrow> decoded rt s = e"
  by (simp add: decoded_def decode_stored_as)

lemma decode_stream:
  assumes "log_decodes rt log"
  shows "mapE (decode_stored rt ledger_registry) (stream_of st sid log) = Inr (stream_events rt st sid log)"
  unfolding stream_events_def
proof (rule mapE_Inr_map)
  fix s assume "s \<in> set (stream_of st sid log)"
  then obtain e where "stored_as rt e s" using assms by (auto simp: log_decodes_def stream_of_def)
  then show "decode_stored rt ledger_registry s = Inr (decoded rt s)"
    by (simp add: decode_stored_as decoded_stored_as)
qed

lemma stream_events_ok:
  assumes "log_decodes rt log"
  shows "list_all event_ok (stream_events rt st sid log)"
proof -
  have "event_ok (decoded rt x)" if "x \<in> set log" for x
  proof -
    from assms that obtain e where e: "stored_as rt e x" by (auto simp: log_decodes_def)
    then show ?thesis using decoded_stored_as [OF e] by (simp add: stored_as_def)
  qed
  then show ?thesis by (simp add: list_all_iff stream_events_def stream_of_def)
qed

lemma decode_extension:
  assumes "extends_log rt st sid v md log es ss" and "list_all event_ok es"
  shows "log_decodes rt ss" and "stream_events rt st sid ss = es"
    and "(st', sid') \<noteq> (st, sid) \<Longrightarrow> stream_events rt st' sid' ss = []"
proof -
  have all: "list_all2 (stored_as rt) es ss"
    using assms
    by (induction rt st sid v md log es ss rule: extends_log.induct)
      (auto simp: stored_as_def envelope_of_def)
  then show "log_decodes rt ss"
    by (induction rule: list_all2_induct) (auto simp: log_decodes_def)
  have "map (decoded rt) ss = es"
    using all by (induction rule: list_all2_induct) (simp_all add: decoded_stored_as)
  with extends_log_stream [OF assms(1)] show "stream_events rt st sid ss = es"
    and "(st', sid') \<noteq> (st, sid) \<Longrightarrow> stream_events rt st' sid' ss = []"
    by (simp_all add: stream_events_def)
qed

end

section \<open>The repository contract\<close>

locale event_sourced_repository =
  event_log rt store log invar rely + runtime_codec rt + aggregate apply_event
  for rt :: runtime and store :: "'s event_store" and log :: "'s \<Rightarrow> event_list"
    and invar :: "'s \<Rightarrow> bool" and rely :: "event_list \<Rightarrow> event_list \<Rightarrow> bool"
    and apply_event :: "(domain_event, 'z) aggregate_root_scheme \<Rightarrow> domain_event \<Rightarrow>
      (domain_event, 'z) aggregate_root_scheme result" +
  fixes stream_type :: string
    and factory :: "(domain_event, 'z) aggregate_root_scheme"
  assumes factory_fresh: "agg_version factory = 0" "agg_pending factory = []"
begin

definition repo :: "('s, (domain_event, 'z) aggregate_root_scheme) repository" where
  "repo = \<lparr>repo_runtime = rt, repo_store = store, repo_registry = ledger_registry,
     repo_stream_type = stream_type, repo_factory = factory, repo_apply = apply_event\<rparr>"

definition history :: "uuid \<Rightarrow> event_list \<Rightarrow> domain_event list" where
  "history aid l = stream_events rt stream_type aid l"

definition replay :: "domain_event list \<Rightarrow> (domain_event, 'z) aggregate_root_scheme result" where
  "replay es = load_from_history apply_event factory es"

text \<open>
  What load can return: the replay of the stream as it is when the store answers, or the
  failure of the store; the repository itself writes nothing.
\<close>

lemma load_cases:
  assumes "invar s" and "repo_load repo aid s = (r, s')"
  shows "invar s'" and "rely (log s) (log s')"
    and "log_decodes rt (log s') \<Longrightarrow>
      r = (if history aid (log s') = [] then Inr None
           else map_sum id Some (replay (history aid (log s')))) \<or> (\<exists>e. r = Inl e)"
proof -
  obtain q t where ld: "es_load_stream store stream_type aid s = (q, t)" by fastforce
  have "s' = t" using assms(2) ld
    by (auto simp: repo_load_def repo_def bindM_def split: sum.splits if_splits)
  then show "invar s'" "rely (log s) (log s')" using load_log [OF assms(1) ld] by simp_all
  assume dec: "log_decodes rt (log s')"
  show "r = (if history aid (log s') = [] then Inr None
           else map_sum id Some (replay (history aid (log s')))) \<or> (\<exists>e. r = Inl e)"
  proof (cases q)
    case (Inl e)
    with ld assms(2) show ?thesis by (auto simp: repo_load_def repo_def bindM_def)
  next
    case (Inr evs)
    then have evs: "evs = stream_of stream_type aid (log s')"
      using load_result [OF assms(1)] ld \<open>s' = t\<close> by blast
    then have "evs = [] \<longleftrightarrow> history aid (log s') = []" by (simp add: history_def stream_events_def)
    moreover have "bindE r' (\<lambda>a. Inr (Some a)) = map_sum id Some r'" for r' :: "'y result"
      by (cases r') simp_all
    ultimately show ?thesis
      using ld Inr assms(2) evs decode_stream [OF dec, of stream_type aid]
      by (auto simp: repo_load_def repo_def bindM_def history_def replay_def split: if_splits)
  qed
qed

lemma replay_frame:
  assumes "replay es = Inr a"
  shows "agg_version a = int (length es)" and "agg_pending a = []" and "expected_version a = int (length es)"
  using load_from_history_frame [of factory es a] assms factory_fresh
  by (simp_all add: replay_def expected_version_def)

text \<open>
  What save can do: nothing, or append exactly the buffer to the aggregate's own stream, and
  that only if the stream has the aggregate's expected version.
\<close>

lemma save_cases:
  assumes "invar s" and "repo_save repo aid a md s = (r, s')"
  shows "invar s'" and "\<exists>l. rely (log s) l \<and>
    (log s' = l \<and> (agg_pending a = [] \<and> r = Inr ([], a\<lparr>agg_pending := []\<rparr>) \<or> (\<exists>e. r = Inl e)) \<or>
     expected_version a = int (length (history aid l)) \<and>
       (\<exists>ss m. log s' = l @ ss \<and>
          extends_log rt stream_type aid (current_version stream_type aid l) m l (agg_pending a) ss \<and>
          (r = Inr (ss, a\<lparr>agg_pending := []\<rparr>) \<or> (\<exists>e. r = Inl e))))"
proof -
  let ?md = "case md of Some m \<Rightarrow> m | None \<Rightarrow> empty_metadata"
  obtain q t where app: "es_append store stream_type aid (expected_version a) (agg_pending a) ?md s = (q, t)"
    by fastforce
  have rs: "if agg_pending a = [] then s' = s \<and> r = Inr ([], a\<lparr>agg_pending := []\<rparr>)
    else s' = t \<and> r = map_sum id (\<lambda>ss. (ss, a\<lparr>agg_pending := []\<rparr>)) q"
    using assms(2) app
    by (auto simp: repo_save_def repo_def pull_pending_events_def bindM_def split: sum.splits)
  show "invar s'" using rs assms(1) append_invar [OF assms(1) app] by (auto split: if_splits)
  from append_effect [OF assms(1) app] obtain l where l: "rely (log s) l" "log_wf l"
    and eff: "log t = l \<and> (\<exists>e. q = Inl e) \<or>
      current_version stream_type aid l = expected_version a \<and>
      (\<exists>ss. extends_log rt stream_type aid (expected_version a) ?md l (agg_pending a) ss \<and>
        log t = l @ ss \<and> (q = Inr ss \<or> (\<exists>e. q = Inl e)))" by blast
  have len: "current_version stream_type aid l = int (length (history aid l))"
    using current_version_wf [OF l(2)] by (simp add: history_def stream_events_def)
  show "\<exists>l. rely (log s) l \<and>
    (log s' = l \<and> (agg_pending a = [] \<and> r = Inr ([], a\<lparr>agg_pending := []\<rparr>) \<or> (\<exists>e. r = Inl e)) \<or>
     expected_version a = int (length (history aid l)) \<and>
       (\<exists>ss m. log s' = l @ ss \<and>
          extends_log rt stream_type aid (current_version stream_type aid l) m l (agg_pending a) ss \<and>
          (r = Inr (ss, a\<lparr>agg_pending := []\<rparr>) \<or> (\<exists>e. r = Inl e))))"
  proof (cases "agg_pending a = []")
    case True
    with rs rely_refl show ?thesis by (intro exI [of _ "log s"]) auto
  next
    case False
    with rs eff l(1) len show ?thesis by (intro exI [of _ l]) fastforce
  qed
qed

end

end
