(* ===== verification/Transfers.thy ===== *)
theory Transfers
  imports Runtime Accounts
begin

text \<open>
  The \<open>Transfer\<close> aggregate, \<^verbatim>\<open>src/src/ledger/domain/transfers/transfer.py\<close>, and the
  derivation of deterministic identifiers of \<^verbatim>\<open>operations.py\<close>. The aggregate is the state
  machine of the saga and its audit stream; \<open>transfer_path\<close> below is the state diagram of the
  module's documentation as a relation, and the lemmas show that the recorded histories are
  exactly its paths.
\<close>

section \<open>State\<close>

datatype transfer_status =
    INITIATED
  | HELD
  | POSTED
  | COMPLETED
  | FAILED
  | NEEDS_RECONCILIATION
  | RECONCILED

fun transfer_status_value :: "transfer_status \<Rightarrow> string" where
  "transfer_status_value INITIATED = ''initiated''"
| "transfer_status_value HELD = ''held''"
| "transfer_status_value POSTED = ''posted''"
| "transfer_status_value COMPLETED = ''completed''"
| "transfer_status_value FAILED = ''failed''"
| "transfer_status_value NEEDS_RECONCILIATION = ''needs_reconciliation''"
| "transfer_status_value RECONCILED = ''reconciled''"

definition NON_TERMINAL :: "transfer_status set" where
  "NON_TERMINAL = {INITIATED, HELD, POSTED}"

record transfer = "domain_event aggregate_root" +
  tr_transfer_id :: "uuid option"
  tr_source_account_id :: "uuid option"
  tr_destination_account_id :: "uuid option"
  tr_amount :: "money option"
  tr_status :: transfer_status
  tr_journal_entry_id :: "uuid option"
  tr_failure_reason :: "failure_reason option"
  tr_reversal_of :: "uuid option"

definition transfer_init :: transfer where
  "transfer_init =
     \<lparr>agg_version = 0, agg_pending = [], tr_transfer_id = None, tr_source_account_id = None,
      tr_destination_account_id = None, tr_amount = None, tr_status = INITIATED,
      tr_journal_entry_id = None, tr_failure_reason = None, tr_reversal_of = None\<rparr>"

fun transfer_apply :: "transfer \<Rightarrow> domain_event \<Rightarrow> transfer result" where
  "transfer_apply t (TransferE (TransferInitiated source destination m rvs)) =
     Inr (t\<lparr>tr_source_account_id := Some source, tr_destination_account_id := Some destination,
            tr_amount := Some m, tr_reversal_of := rvs, tr_status := INITIATED\<rparr>)"
| "transfer_apply t (TransferE TransferHeld) = Inr (t\<lparr>tr_status := HELD\<rparr>)"
| "transfer_apply t (TransferE (TransferPosted eid)) =
     Inr (t\<lparr>tr_journal_entry_id := Some eid, tr_status := POSTED\<rparr>)"
| "transfer_apply t (TransferE TransferCompleted) = Inr (t\<lparr>tr_status := COMPLETED\<rparr>)"
| "transfer_apply t (TransferE (TransferFailed reason _)) =
     Inr (t\<lparr>tr_failure_reason := Some reason, tr_status := FAILED\<rparr>)"
| "transfer_apply t (TransferE (TransferParkedForReconciliation _)) =
     Inr (t\<lparr>tr_status := NEEDS_RECONCILIATION\<rparr>)"
| "transfer_apply t (TransferE (TransferReconciled _ _)) = Inr (t\<lparr>tr_status := RECONCILED\<rparr>)"
| "transfer_apply t (AccountE _) = Inr t"
| "transfer_apply t (JournalE _) = Inr t"

section \<open>Commands\<close>

definition assert_status :: "transfer_status \<Rightarrow> transfer \<Rightarrow> unit result" where
  "assert_status expected t =
     (if tr_status t \<noteq> expected
      then Inl (DomainError InvalidTransition
             (''expected '' @ transfer_status_value expected @ '', transfer is '' @
              transfer_status_value (tr_status t)))
      else Inr ())"

definition transfer_initiate ::
  "uuid \<Rightarrow> uuid \<Rightarrow> uuid \<Rightarrow> money \<Rightarrow> uuid option \<Rightarrow> transfer result" where
  "transfer_initiate tid source destination m rvs =
     bindE (assert_positive m) (\<lambda>_.
       if source = destination
       then Inl (DomainError SameAccountTransfer ''source and destination must be different accounts'')
       else record_event transfer_apply (TransferE (TransferInitiated source destination m rvs))
              (transfer_init\<lparr>tr_transfer_id := Some tid\<rparr>))"

definition mark_held :: "transfer \<Rightarrow> transfer result" where
  "mark_held t =
     bindE (assert_status INITIATED t) (\<lambda>_. record_event transfer_apply (TransferE TransferHeld) t)"

definition mark_posted :: "uuid \<Rightarrow> transfer \<Rightarrow> transfer result" where
  "mark_posted eid t =
     bindE (assert_status HELD t) (\<lambda>_. record_event transfer_apply (TransferE (TransferPosted eid)) t)"

definition complete :: "transfer \<Rightarrow> transfer result" where
  "complete t =
     (if tr_status t \<notin> {POSTED, NEEDS_RECONCILIATION}
      then Inl (DomainError InvalidTransition
             (''cannot complete a '' @ transfer_status_value (tr_status t) @ '' transfer''))
      else record_event transfer_apply (TransferE TransferCompleted) t)"

definition fail :: "failure_reason \<Rightarrow> string option \<Rightarrow> transfer \<Rightarrow> transfer result" where
  "fail reason detail t =
     (if tr_status t \<notin> NON_TERMINAL
      then Inl (DomainError InvalidTransition
             (''cannot fail a '' @ transfer_status_value (tr_status t) @ '' transfer''))
      else record_event transfer_apply (TransferE (TransferFailed reason detail)) t)"

definition park_for_reconciliation :: "string \<Rightarrow> transfer \<Rightarrow> transfer result" where
  "park_for_reconciliation detail t =
     bindE (assert_status POSTED t) (\<lambda>_.
       record_event transfer_apply (TransferE (TransferParkedForReconciliation detail)) t)"

definition reconcile :: "string \<Rightarrow> string option \<Rightarrow> transfer \<Rightarrow> transfer result" where
  "reconcile resolution detail t =
     bindE (assert_status NEEDS_RECONCILIATION t) (\<lambda>_.
       record_event transfer_apply (TransferE (TransferReconciled resolution detail)) t)"

datatype transfer_command =
    MarkHeld
  | MarkPosted uuid
  | Complete
  | Fail failure_reason "string option"
  | Park string
  | Reconcile string "string option"

fun run_transfer_command :: "transfer_command \<Rightarrow> transfer \<Rightarrow> transfer result" where
  "run_transfer_command MarkHeld t = mark_held t"
| "run_transfer_command (MarkPosted eid) t = mark_posted eid t"
| "run_transfer_command Complete t = complete t"
| "run_transfer_command (Fail r d) t = fail r d t"
| "run_transfer_command (Park d) t = park_for_reconciliation d t"
| "run_transfer_command (Reconcile r d) t = reconcile r d t"

interpretation transfer: aggregate transfer_apply
proof
  fix t :: transfer and v p e
  show "transfer_apply (t\<lparr>agg_version := v, agg_pending := p\<rparr>) e =
      map_sum id (\<lambda>t'. t'\<lparr>agg_version := v, agg_pending := p\<rparr>) (transfer_apply t e)"
    by (induction t e rule: transfer_apply.induct) simp_all
qed

section \<open>Deterministic identifiers\<close>

text \<open>\<open>uuid.UUID("6f1c9d2e-0000-5000-8000-0000000ab1e5")\<close>.\<close>

definition NAMESPACE :: uuid where
  "NAMESPACE = 0x6f1c9d2e0000500080000000000ab1e5"

definition operation_name :: "uuid \<Rightarrow> string \<Rightarrow> string" where
  "operation_name tid step = str_uuid tid @ '':'' @ step"

definition operation_id :: "runtime \<Rightarrow> uuid \<Rightarrow> string \<Rightarrow> uuid" where
  "operation_id rt tid step = rt_uuid5 rt NAMESPACE (operation_name tid step)"

definition journal_entry_id_for :: "runtime \<Rightarrow> uuid \<Rightarrow> uuid" where
  "journal_entry_id_for rt tid = rt_uuid5 rt NAMESPACE (str_uuid tid @ '':journal'')"

definition journal_reversal_id_for :: "runtime \<Rightarrow> uuid \<Rightarrow> uuid" where
  "journal_reversal_id_for rt tid = rt_uuid5 rt NAMESPACE (str_uuid tid @ '':journal-reversal'')"

text \<open>The names that are hashed determine transfer and step.\<close>

lemma operation_name_inject [simp]:
  "operation_name t s = operation_name t' s' \<longleftrightarrow> t = t' \<and> s = s'"
  by (auto simp: operation_name_def append_eq_append_conv)

lemma journal_ids_as_operations:
  "journal_entry_id_for rt tid = operation_id rt tid ''journal''"
  "journal_reversal_id_for rt tid = operation_id rt tid ''journal-reversal''"
  by (simp_all add: journal_entry_id_for_def journal_reversal_id_for_def operation_id_def
      operation_name_def)

text \<open>
  What the saga relies on of \<open>uuid5\<close>: the identifiers of the steps of a given set of
  transfers do not collide.
\<close>

definition saga_steps :: "string list" where
  "saga_steps = [''hold'', ''debit'', ''credit'', ''release'', ''refund'', ''journal'', ''journal-reversal'']"

definition uuid5_distinct :: "runtime \<Rightarrow> uuid list \<Rightarrow> bool" where
  "uuid5_distinct rt tids \<longleftrightarrow>
     inj_on (rt_uuid5 rt NAMESPACE) (set [operation_name t s. t \<leftarrow> tids, s \<leftarrow> saga_steps])"

lemma uuid5_distinctD:
  assumes "uuid5_distinct rt tids" and "t \<in> set tids" "t' \<in> set tids"
    and "s \<in> set saga_steps" "s' \<in> set saga_steps"
  shows "operation_id rt t s = operation_id rt t' s' \<longleftrightarrow> t = t' \<and> s = s'"
proof
  assume eq: "operation_id rt t s = operation_id rt t' s'"
  have "operation_name t s = operation_name t' s'"
    using assms(1) eq unfolding uuid5_distinct_def operation_id_def
    by (rule inj_onD) (use assms in auto)
  then show "t = t' \<and> s = s'" by simp
qed simp

section \<open>The state diagram\<close>

text \<open>One arrow per event, as the documentation of the module draws them.\<close>

inductive transfer_arrow :: "transfer_status \<Rightarrow> transfer_event \<Rightarrow> transfer_status \<Rightarrow> bool" where
  hold: "transfer_arrow INITIATED TransferHeld HELD"
| post: "transfer_arrow HELD (TransferPosted eid) POSTED"
| settle: "transfer_arrow POSTED TransferCompleted COMPLETED"
| park: "transfer_arrow POSTED (TransferParkedForReconciliation d) NEEDS_RECONCILIATION"
| refunded: "transfer_arrow NEEDS_RECONCILIATION (TransferReconciled r dt) RECONCILED"
| retried: "transfer_arrow NEEDS_RECONCILIATION TransferCompleted COMPLETED"
| failed: "st \<in> NON_TERMINAL \<Longrightarrow> transfer_arrow st (TransferFailed reason dt) FAILED"

inductive_simps transfer_arrow_simps:
  "transfer_arrow st TransferHeld st'"
  "transfer_arrow st (TransferPosted eid) st'"
  "transfer_arrow st TransferCompleted st'"
  "transfer_arrow st (TransferParkedForReconciliation d) st'"
  "transfer_arrow st (TransferReconciled r dt) st'"
  "transfer_arrow st (TransferFailed reason dt) st'"
  "transfer_arrow st (TransferInitiated a b m rvs) st'"

inductive_cases transfer_arrow_from:
  "transfer_arrow COMPLETED e st'"
  "transfer_arrow FAILED e st'"
  "transfer_arrow RECONCILED e st'"
  "transfer_arrow NEEDS_RECONCILIATION e st'"

fun transfer_path :: "transfer_status \<Rightarrow> domain_event list \<Rightarrow> transfer_status \<Rightarrow> bool" where
  "transfer_path st [] st' \<longleftrightarrow> st = st'"
| "transfer_path st (TransferE e # es) st' \<longleftrightarrow> (\<exists>st1. transfer_arrow st e st1 \<and> transfer_path st1 es st')"
| "transfer_path st (_ # es) st' \<longleftrightarrow> False"

fun transfer_command_event :: "transfer_command \<Rightarrow> transfer_event" where
  "transfer_command_event MarkHeld = TransferHeld"
| "transfer_command_event (MarkPosted eid) = TransferPosted eid"
| "transfer_command_event Complete = TransferCompleted"
| "transfer_command_event (Fail r d) = TransferFailed r d"
| "transfer_command_event (Park d) = TransferParkedForReconciliation d"
| "transfer_command_event (Reconcile r d) = TransferReconciled r d"

lemmas transfer_command_defs =
  mark_held_def mark_posted_def complete_def fail_def park_for_reconciliation_def reconcile_def

lemma assert_status_eq_Inr [result_iffs]: "assert_status st t = Inr u \<longleftrightarrow> tr_status t = st"
  by (simp add: assert_status_def)

text \<open>A command succeeds exactly along an arrow, and then records its event; otherwise it raises.\<close>

lemma run_transfer_command_eq_Inr:
  "run_transfer_command c t = Inr t' \<longleftrightarrow>
     record_event transfer_apply (TransferE (transfer_command_event c)) t = Inr t' \<and>
     transfer_arrow (tr_status t) (transfer_command_event c) (tr_status t')"
  by (cases c) (auto simp: transfer_command_defs result_iffs transfer_arrow_simps record_event_def
      split: if_splits)

lemma run_transfer_command_eq_Inl:
  assumes "run_transfer_command c t = Inl e"
  shows "(\<exists>msg. e = DomainError InvalidTransition msg) \<and>
    \<not> (\<exists>st. transfer_arrow (tr_status t) (transfer_command_event c) st)"
  using assms
  by (cases c) (auto simp: transfer_command_defs result_iffs transfer_arrow_simps record_event_def
      assert_status_def split: if_splits)

lemma record_transfer_event:
  "\<exists>t'. record_event transfer_apply (TransferE e) t = Inr t'"
  by (cases e) (simp_all add: record_event_def)

lemma transfer_initiate_eq_Inr:
  "transfer_initiate tid src dst m rvs = Inr t \<longleftrightarrow> 0 < amount m \<and> src \<noteq> dst \<and>
     t = transfer_init\<lparr>tr_transfer_id := Some tid, tr_source_account_id := Some src,
       tr_destination_account_id := Some dst, tr_amount := Some m, tr_reversal_of := rvs,
       agg_version := 1, agg_pending := [TransferE (TransferInitiated src dst m rvs)]\<rparr>"
  by (auto simp: transfer_initiate_def result_iffs record_event_def transfer_init_def)

lemma transfer_path_append:
  "transfer_path st (es @ fs) st' \<longleftrightarrow> (\<exists>st1. transfer_path st es st1 \<and> transfer_path st1 fs st')"
  by (induction st es st' rule: transfer_path.induct) auto

lemma transfer_arrow_unique: "transfer_arrow st e st1 \<Longrightarrow> transfer_arrow st e st2 \<Longrightarrow> st1 = st2"
  by (cases e) (auto simp: transfer_arrow_simps)

lemma transfer_path_kind: "transfer_path st es st' \<Longrightarrow> e \<in> set es \<Longrightarrow> \<exists>x. e = TransferE x"
  by (induction st es st' rule: transfer_path.induct) auto

lemma transfer_path_terminal:
  assumes "st \<in> {COMPLETED, FAILED, RECONCILED}" and "transfer_path st es st'"
  shows "es = []"
proof (cases "(st, es, st')" rule: transfer_path.cases)
  case (2 st1 e fs st2)
  with assms show ?thesis by (auto elim: transfer_arrow_from simp: NON_TERMINAL_def)
qed (use assms in auto)

text \<open>The histories of a transfer object: initiated, then commands, its buffer pulled
  at any time, and the object rebuilt from its events.\<close>

inductive transfer_lived :: "domain_event list \<Rightarrow> transfer \<Rightarrow> bool" where
  initiated: "transfer_initiate tid src dst m rvs = Inr t \<Longrightarrow>
     transfer_lived [TransferE (TransferInitiated src dst m rvs)] t"
| command: "transfer_lived es t \<Longrightarrow> run_transfer_command c t = Inr t' \<Longrightarrow>
     transfer_lived (es @ drop (length (agg_pending t)) (agg_pending t')) t'"
| saved: "transfer_lived es t \<Longrightarrow> transfer_lived es (snd (pull_pending_events t))"
| loaded: "transfer_lived es t \<Longrightarrow> load_from_history transfer_apply transfer_init es = Inr u \<Longrightarrow>
     transfer_lived es u"

lemma transfer_command_step:
  assumes "transfer_lived es t" and "run_transfer_command c t = Inr t'"
  shows "transfer_lived (es @ [TransferE (transfer_command_event c)]) t'"
proof -
  have "agg_pending t' = agg_pending t @ [TransferE (transfer_command_event c)]"
    using assms(2) transfer.record_event_frame(2) by (auto simp: run_transfer_command_eq_Inr)
  with transfer_lived.command [OF assms] show ?thesis by simp
qed

text \<open>What a recorded event changes: the status, and the field the event carries.\<close>

lemma transfer_command_frame:
  assumes "run_transfer_command c t = Inr t'"
  shows "tr_source_account_id t' = tr_source_account_id t"
    and "tr_destination_account_id t' = tr_destination_account_id t"
    and "tr_amount t' = tr_amount t"
proof -
  have "record_event transfer_apply (TransferE (transfer_command_event c)) t = Inr t'"
    using assms by (simp add: run_transfer_command_eq_Inr)
  then show "tr_source_account_id t' = tr_source_account_id t"
    and "tr_destination_account_id t' = tr_destination_account_id t"
    and "tr_amount t' = tr_amount t"
    by (cases c; force simp: record_event_def)+
qed

text \<open>Replaying the recorded events rebuilds the object, but for its identity.\<close>

lemma transfer_apply_id:
  "transfer_apply (t\<lparr>tr_transfer_id := i\<rparr>) e =
     map_sum id (\<lambda>t'. t'\<lparr>tr_transfer_id := i\<rparr>) (transfer_apply t e)"
  by (induction t e rule: transfer_apply.induct) simp_all

lemma transfer_update_commute:
  "(t :: transfer)\<lparr>tr_transfer_id := i, agg_version := v\<rparr> = t\<lparr>agg_version := v, tr_transfer_id := i\<rparr>"
  by (cases t) simp

lemma transfer_replay_id:
  "load_from_history transfer_apply (t\<lparr>tr_transfer_id := i\<rparr>) [TransferE e] =
     map_sum id (\<lambda>t'. t'\<lparr>tr_transfer_id := i\<rparr>) (load_from_history transfer_apply t [TransferE e])"
  by (cases e) (simp_all add: load_from_history_def)

lemma transfer_lived_replay:
  "transfer_lived es t \<Longrightarrow>
     load_from_history transfer_apply transfer_init es = Inr (t\<lparr>agg_pending := [], tr_transfer_id := None\<rparr>)"
proof (induction rule: transfer_lived.induct)
  case (initiated tid src dst m rvs t)
  then show ?case
    by (auto simp: transfer_initiate_eq_Inr load_from_history_def transfer_init_def)
next
  case (command es t c t')
  then have rec: "record_event transfer_apply (TransferE (transfer_command_event c)) t = Inr t'"
    by (simp add: run_transfer_command_eq_Inr)
  have "load_from_history transfer_apply (t\<lparr>agg_pending := []\<rparr>) [TransferE (transfer_command_event c)] =
      Inr (t'\<lparr>agg_pending := []\<rparr>)"
    by (rule transfer.record_event_replay [OF rec])
  from this [THEN arg_cong, of "map_sum id (\<lambda>t'. t'\<lparr>tr_transfer_id := None\<rparr>)"]
  have "load_from_history transfer_apply (t\<lparr>agg_pending := [], tr_transfer_id := None\<rparr>)
      [TransferE (transfer_command_event c)] = Inr (t'\<lparr>agg_pending := [], tr_transfer_id := None\<rparr>)"
    by (simp add: transfer_replay_id [symmetric])
  with command.IH transfer.record_event_frame(2) [OF rec] show ?case
    by (simp add: transfer.load_from_history_append)
next
  case (saved es t)
  then show ?case by (simp add: pull_pending_events_def)
next
  case (loaded es t u)
  then have "u = t\<lparr>agg_pending := [], tr_transfer_id := None\<rparr>" by simp
  with loaded.IH show ?case by simp
qed

lemma transfer_loaded_eq:
  assumes "transfer_lived es t" and "load_from_history transfer_apply transfer_init es = Inr u"
  shows "u = t\<lparr>agg_pending := [], tr_transfer_id := None\<rparr>"
  using transfer_lived_replay [OF assms(1)] assms(2) by simp

lemma transfer_lived_path:
  "transfer_lived es t \<Longrightarrow>
     \<exists>src dst m rvs fs. es = TransferE (TransferInitiated src dst m rvs) # fs \<and>
       0 < amount m \<and> src \<noteq> dst \<and> transfer_path INITIATED fs (tr_status t) \<and>
       tr_source_account_id t = Some src \<and> tr_destination_account_id t = Some dst \<and>
       tr_amount t = Some m"
proof (induction rule: transfer_lived.induct)
  case (initiated tid src dst m rvs t)
  then show ?case by (auto simp: transfer_initiate_eq_Inr transfer_init_def)
next
  case (command es t c t')
  have new: "drop (length (agg_pending t)) (agg_pending t') = [TransferE (transfer_command_event c)]"
    using command.hyps(2) transfer.record_event_frame(2) by (auto simp: run_transfer_command_eq_Inr)
  have "transfer_arrow (tr_status t) (transfer_command_event c) (tr_status t')"
    using command.hyps(2) by (simp add: run_transfer_command_eq_Inr)
  with command.IH transfer_command_frame [OF command.hyps(2)] show ?case
    unfolding new by (fastforce simp: transfer_path_append)
next
  case (saved es t)
  then show ?case by (auto simp: pull_pending_events_def)
next
  case (loaded es t u)
  then show ?case using transfer_loaded_eq [OF loaded.hyps] by auto
qed

text \<open>Every arrow is the arrow of some command.\<close>

lemma transfer_arrow_command:
  assumes "transfer_arrow st e st'"
  obtains c where "transfer_command_event c = e"
  using assms
  by (cases rule: transfer_arrow.cases) (metis transfer_command_event.simps)+

lemma transfer_path_lived:
  assumes "transfer_path INITIATED fs st" and "0 < amount m" and "src \<noteq> dst"
  shows "\<exists>t. transfer_lived (TransferE (TransferInitiated src dst m rvs) # fs) t \<and> tr_status t = st"
  using assms(1)
proof (induction fs arbitrary: st rule: rev_induct)
  case Nil
  obtain t where t: "transfer_initiate 0 src dst m rvs = Inr t"
    using assms(2,3) by (simp add: transfer_initiate_eq_Inr)
  then have "tr_status t = INITIATED" by (auto simp: transfer_initiate_eq_Inr transfer_init_def)
  with transfer_lived.initiated [OF t] Nil show ?case by auto
next
  case (snoc x fs)
  from snoc.prems obtain st1 where p: "transfer_path INITIATED fs st1" "transfer_path st1 [x] st"
    by (auto simp: transfer_path_append)
  then obtain e where x: "x = TransferE e" and arr: "transfer_arrow st1 e st"
    by (cases x) auto
  from snoc.IH [OF p(1)] obtain t where
    t: "transfer_lived (TransferE (TransferInitiated src dst m rvs) # fs) t" "tr_status t = st1" by auto
  obtain c where c: "transfer_command_event c = e" using arr by (rule transfer_arrow_command)
  have run: "\<exists>t'. run_transfer_command c t = Inr t'"
  proof (cases "run_transfer_command c t")
    case (Inl exc)
    then show ?thesis using run_transfer_command_eq_Inl [OF Inl] arr t(2) c by blast
  qed simp
  then obtain t' where t': "run_transfer_command c t = Inr t'" ..
  then have "tr_status t' = st"
    using arr t(2) c transfer_arrow_unique by (auto simp: run_transfer_command_eq_Inr)
  with transfer_command_step [OF t(1) t'] x c show ?case by auto
qed

section \<open>Properties\<close>

definition sample_path :: "domain_event list" where
  "sample_path = [TransferE TransferHeld, TransferE (TransferPosted 9),
     TransferE (TransferParkedForReconciliation ''credit failed''), TransferE TransferCompleted]"

lemma sample_path_ok: "transfer_path INITIATED sample_path COMPLETED"
  by (auto simp: sample_path_def transfer_arrow_simps)



text \<open>
  Idempotency keys: whatever the transfers, the names hashed for two steps are equal only
  for the same transfer and the same step; so if \<open>uuid5\<close> does not collide on the names of a
  set of transfers, their hold, debit, credit, release and refund ids and their journal entry
  and reversal ids are all different, and each is a function of transfer and step alone.
\<close>

lemma saga_ids_distinct:
  assumes "uuid5_distinct rt tids" and "distinct tids"
  shows "distinct (concat (map (\<lambda>t. map (operation_id rt t) [''hold'', ''debit'', ''credit'', ''release'', ''refund''] @
      [journal_entry_id_for rt t, journal_reversal_id_for rt t]) tids))"
proof -
  have eq: "map (operation_id rt t) [''hold'', ''debit'', ''credit'', ''release'', ''refund''] @
      [journal_entry_id_for rt t, journal_reversal_id_for rt t] = map (operation_id rt t) saga_steps" for t
    by (simp add: saga_steps_def journal_ids_as_operations)
  have steps: "distinct saga_steps" by (simp add: saga_steps_def)
  have "distinct (concat (map (\<lambda>t. map (operation_id rt t) saga_steps) ts))"
    if "set ts \<subseteq> set tids" "distinct ts" for ts
    using that
  proof (induction ts)
    case (Cons t ts)
    have "distinct (map (operation_id rt t) saga_steps)"
      using steps Cons.prems uuid5_distinctD [OF assms(1), of t t]
      by (auto simp: distinct_map inj_on_def)
    moreover have "set (map (operation_id rt t) saga_steps) \<inter>
        set (concat (map (\<lambda>t. map (operation_id rt t) saga_steps) ts)) = {}"
    proof -
      have "operation_id rt t s \<noteq> operation_id rt t' s'"
        if "t' \<in> set ts" "s \<in> set saga_steps" "s' \<in> set saga_steps" for t' s s'
        using that Cons.prems uuid5_distinctD [OF assms(1), of t t' s s'] by auto
      then show ?thesis by auto
    qed
    ultimately show ?case using Cons by simp
  qed simp
  then show ?thesis using assms(2) by (simp only: eq subset_refl)
qed

lemma plain_uuid5_distinct: "uuid5_distinct plain_runtime [tid]"
proof -
  have eq: "rt_uuid5 plain_runtime NAMESPACE (operation_name tid s) =
      fold_chars NAMESPACE (str_uuid tid) + fold_chars 0 (CHR '':'' # s)" for s
    by (simp add: plain_runtime_def plain_uuid5_def operation_name_def)
  have "distinct (map (\<lambda>s. fold_chars 0 (CHR '':'' # s)) saga_steps)"
    by (simp add: saga_steps_def fold_chars_def)
  then have "inj_on (\<lambda>s. fold_chars 0 (CHR '':'' # s)) (set saga_steps)" by (simp only: distinct_map)
  then have "inj_on (rt_uuid5 plain_runtime NAMESPACE) (operation_name tid ` set saga_steps)"
    unfolding inj_on_def by (auto simp only: eq ball_simps add_left_cancel)
  then show ?thesis by (simp add: uuid5_distinct_def)
qed

lemma hex_digits_numeral:
  "hex_digits (numeral k) n = hex_digits (pred_numeral k) (n div 16) @ [digit_char (n mod 16)]"
  by (simp only: numeral_eq_Suc [of k] hex_digits.simps)

lemma NAMESPACE_str: "str_uuid NAMESPACE = ''6f1c9d2e-0000-5000-8000-0000000ab1e5''"
  by (simp add: str_uuid_def NAMESPACE_def hex_digits_numeral digit_char_def Let_def
      char_of_def bit_iff_odd)

end
