(* ===== verification/Ledger_State.thy ===== *)
theory Ledger_State
  imports Repository Transfers
begin

text \<open>
  The three repositories on one store (\<^verbatim>\<open>src/src/ledger/temporal/dependencies.py\<close>) and what
  a consistent ledger is. A log is \<open>ledger_ok\<close> if every stream is a history its aggregate can
  record; \<open>ledger_step\<close> is one committed write that keeps it so. The locale \<open>ledger_log\<close> is a
  store whose other clients also make only such steps, and every program over the repositories is
  shown to move the log along \<open>ledger_step\<close> (\<open>keeps evolves\<close>), whatever fails and whoever
  writes in between: an aggregate that was loaded from a stale stream cannot be saved.
\<close>

section \<open>Wiring\<close>

record 's repositories =
  accounts :: "('s, account) repository"
  journals :: "('s, journal_entry) repository"
  transfers :: "('s, transfer) repository"

definition build_repositories :: "runtime \<Rightarrow> 's event_store \<Rightarrow> event_registry \<Rightarrow> 's repositories" where
  "build_repositories rt store reg =
     \<lparr>accounts = \<lparr>repo_runtime = rt, repo_store = store, repo_registry = reg,
        repo_stream_type = ACCOUNT_STREAM, repo_factory = account_init, repo_apply = account_apply\<rparr>,
      journals = \<lparr>repo_runtime = rt, repo_store = store, repo_registry = reg,
        repo_stream_type = JOURNAL_STREAM, repo_factory = journal_init, repo_apply = journal_apply\<rparr>,
      transfers = \<lparr>repo_runtime = rt, repo_store = store, repo_registry = reg,
        repo_stream_type = TRANSFER_STREAM, repo_factory = transfer_init, repo_apply = transfer_apply\<rparr>\<rparr>"

section \<open>Consistent ledgers\<close>

definition journal_lived :: "domain_event list \<Rightarrow> bool" where
  "journal_lived es \<longleftrightarrow> (\<exists>legs ref. es = [JournalE (JournalEntryPosted legs ref)] \<and> legs_balanced legs)"

definition legal_history :: "string \<Rightarrow> domain_event list \<Rightarrow> bool" where
  "legal_history st es \<longleftrightarrow>
     es = [] \<or> st = ACCOUNT_STREAM \<and> (\<exists>a. account_lived es a) \<or> st = JOURNAL_STREAM \<and> journal_lived es \<or>
     st = TRANSFER_STREAM \<and> (\<exists>t. transfer_lived es t)"

fun event_stream :: "domain_event \<Rightarrow> string" where
  "event_stream (AccountE _) = ACCOUNT_STREAM"
| "event_stream (JournalE _) = JOURNAL_STREAM"
| "event_stream (TransferE _) = TRANSFER_STREAM"

definition ledger_ok :: "runtime \<Rightarrow> event_list \<Rightarrow> bool" where
  "ledger_ok rt log \<longleftrightarrow>
     log_wf log \<and> log_decodes rt log \<and> (\<forall>st sid. legal_history st (stream_events rt st sid log))"

inductive ledger_step :: "runtime \<Rightarrow> event_list \<Rightarrow> event_list \<Rightarrow> bool" for rt where
  commit: "extends_log rt st sid (current_version st sid log) md log es ss \<Longrightarrow> list_all event_ok es \<Longrightarrow>
    legal_history st (stream_events rt st sid log @ es) \<Longrightarrow> ledger_step rt log (log @ ss)"

abbreviation ledger_steps :: "runtime \<Rightarrow> event_list \<Rightarrow> event_list \<Rightarrow> bool" where
  "ledger_steps rt \<equiv> (ledger_step rt)\<^sup>*\<^sup>*"

lemma legal_history_simps [simp]:
  "legal_history st []"
  "es \<noteq> [] \<Longrightarrow> legal_history ACCOUNT_STREAM es \<longleftrightarrow> (\<exists>a. account_lived es a)"
  "es \<noteq> [] \<Longrightarrow> legal_history JOURNAL_STREAM es \<longleftrightarrow> journal_lived es"
  "es \<noteq> [] \<Longrightarrow> legal_history TRANSFER_STREAM es \<longleftrightarrow> (\<exists>t. transfer_lived es t)"
  by (simp_all add: legal_history_def)

lemma ledger_ok_Nil [simp]: "ledger_ok rt []"
  by (simp add: ledger_ok_def)

lemma ledger_step_grows: "ledger_step rt log log' \<Longrightarrow> \<exists>ss. log' = log @ ss"
  by (auto elim: ledger_step.cases)

lemma ledger_steps_grow: "ledger_steps rt log log' \<Longrightarrow> \<exists>ss. log' = log @ ss"
proof (induction rule: rtranclp_induct)
  case base
  then show ?case by simp
next
  case (step log1 log2)
  then obtain ss where "log1 = log @ ss" by blast
  moreover from ledger_step_grows [OF step.hyps(2)] obtain ts where "log2 = log1 @ ts" ..
  ultimately have "log2 = log @ (ss @ ts)" by simp
  then show ?case ..
qed

context runtime_codec
begin

lemma ledger_step_ok:
  assumes "ledger_step rt log log'" and ok: "ledger_ok rt log"
  shows "ledger_ok rt log'"
  using assms(1)
proof cases
  case (commit st sid md es ss)
  note dec = decode_extension [OF commit(2,3)]
  have "legal_history st' (stream_events rt st' sid' (log @ ss))" for st' sid'
  proof (cases "(st', sid') = (st, sid)")
    case True
    then show ?thesis using commit(4) dec(2) by (simp add: stream_events_append)
  next
    case False
    then show ?thesis using ok dec(3) [OF False] by (simp add: stream_events_append ledger_ok_def)
  qed
  moreover have "log_wf (log @ ss)"
    using ok by (intro extends_log_wf [OF _ refl commit(2)]) (simp add: ledger_ok_def)
  moreover have "log_decodes rt (log @ ss)" using ok dec(1) by (simp add: ledger_ok_def)
  ultimately show ?thesis using commit(1) by (simp add: ledger_ok_def)
qed

lemma ledger_steps_ok: "ledger_steps rt log log' \<Longrightarrow> ledger_ok rt log \<Longrightarrow> ledger_ok rt log'"
  by (induction rule: rtranclp_induct) (auto intro: ledger_step_ok)

text \<open>In a consistent ledger every envelope is well typed: it decodes to a valid event of its stream's context.\<close>

lemma ledger_ok_typed:
  assumes "ledger_ok rt log" and "s \<in> set log"
  obtains e where "decode_stored rt ledger_registry s = Inr e" and "event_ok e" and "event_stream e = se_stream_type s"
    and "se_event_type s = class_name (class_of e)"
proof -
  from assms obtain e where e: "stored_as rt e s" by (auto simp: ledger_ok_def log_decodes_def)
  let ?es = "stream_events rt (se_stream_type s) (se_stream_id s) log"
  have "s \<in> set (stream_of (se_stream_type s) (se_stream_id s) log)" using assms(2) by (simp add: stream_of_def in_stream_def)
  then have mem: "e \<in> set ?es" using decoded_stored_as [OF e] by (force simp: stream_events_def)
  have "legal_history (se_stream_type s) ?es" using assms(1) by (simp add: ledger_ok_def)
  with mem have "event_stream e = se_stream_type s"
    by (auto simp: legal_history_def journal_lived_def dest!: account_lived_kind transfer_lived_path transfer_path_kind)
  with e show ?thesis by (intro that [of e]) (simp_all add: stored_as_def decode_stored_as)
qed

end

section \<open>Stores shared by legal writers\<close>

locale ledger_log = event_log rt store log invar rely + runtime_codec rt
  for rt :: runtime and store :: "'s event_store" and log :: "'s \<Rightarrow> event_list"
    and invar :: "'s \<Rightarrow> bool" and rely :: "event_list \<Rightarrow> event_list \<Rightarrow> bool" +
  assumes rely_steps: "rely l l' \<Longrightarrow> ledger_ok rt l \<Longrightarrow> ledger_steps rt l l'"
begin

definition ok :: "'s \<Rightarrow> bool" where
  "ok s \<longleftrightarrow> invar s \<and> ledger_ok rt (log s)"

text \<open>The guarantee of every program: it moves a consistent ledger along legal steps.\<close>

definition evolves :: "'s \<Rightarrow> 's \<Rightarrow> bool" where
  "evolves s s' \<longleftrightarrow> (ok s \<longrightarrow> ok s' \<and> ledger_steps rt (log s) (log s'))"

lemma evolves_refl: "reflp evolves"
  by (simp add: reflp_def evolves_def)

lemma evolves_trans: "transp evolves"
  unfolding transp_def evolves_def by (blast intro: rtranclp_trans)

lemma evolvesI:
  assumes "ok s \<Longrightarrow> invar s'" and "ok s \<Longrightarrow> ledger_steps rt (log s) (log s')"
  shows "evolves s s'"
  using assms ledger_steps_ok by (auto simp: evolves_def ok_def)

lemmas keeps_evolves [intro] =
  keeps_pure [OF evolves_refl] keeps_bindM [OF evolves_trans] keeps_catchM [OF evolves_trans]

end

locale ledger_repository = ledger_log rt store log invar rely + aggregate apply_event
  for rt :: runtime and store :: "'s event_store" and log :: "'s \<Rightarrow> event_list"
    and invar :: "'s \<Rightarrow> bool" and rely :: "event_list \<Rightarrow> event_list \<Rightarrow> bool"
    and apply_event :: "(domain_event, 'z) aggregate_root_scheme \<Rightarrow> domain_event \<Rightarrow>
      (domain_event, 'z) aggregate_root_scheme result" +
  fixes stream_type :: string
    and factory :: "(domain_event, 'z) aggregate_root_scheme"
  assumes factory_new: "agg_version factory = 0" "agg_pending factory = []"

sublocale ledger_repository \<subseteq>
  event_sourced_repository rt store log invar rely apply_event stream_type factory
  by unfold_locales (simp_all add: factory_new)

context ledger_repository
begin

lemma keeps_load [intro]: "keeps evolves (repo_load repo aid)"
  unfolding keeps_def
proof
  fix s
  obtain r s' where eq: "repo_load repo aid s = (r, s')" by fastforce
  have "evolves s s'"
    using load_cases(1,2) [OF _ eq] by (intro evolvesI) (auto simp: ok_def dest: rely_steps)
  then show "evolves s (snd (repo_load repo aid s))" using eq by simp
qed

text \<open>
  Saving: if the buffer is a legal continuation of every stream that has the expected version,
  the write is a legal step, or there is none.
\<close>

lemma save_evolves:
  assumes "list_all event_ok (agg_pending a)"
    and legal: "\<And>l. rely (log s) l \<Longrightarrow> expected_version a = int (length (history aid l)) \<Longrightarrow>
      agg_pending a \<noteq> [] \<Longrightarrow> ledger_ok rt l \<Longrightarrow> legal_history stream_type (history aid l @ agg_pending a)"
    and save: "repo_save repo aid a md s = (r, s')"
  shows "evolves s s'"
proof (rule evolvesI)
  assume ok: "ok s"
  note cases = save_cases [OF _ save]
  show "invar s'" using cases(1) ok by (simp add: ok_def)
  from cases(2) ok obtain l where l: "rely (log s) l" and c: "log s' = l \<or>
      expected_version a = int (length (history aid l)) \<and>
       (\<exists>ss m. log s' = l @ ss \<and>
          extends_log rt stream_type aid (current_version stream_type aid l) m l (agg_pending a) ss)"
    unfolding ok_def by blast
  have steps: "ledger_steps rt (log s) l" using l ok by (auto simp: ok_def dest: rely_steps)
  have lok: "ledger_ok rt l" using ledger_steps_ok [OF steps] ok by (simp add: ok_def)
  from c show "ledger_steps rt (log s) (log s')"
  proof
    assume "log s' = l"
    with steps show ?thesis by simp
  next
    assume "expected_version a = int (length (history aid l)) \<and>
       (\<exists>ss m. log s' = l @ ss \<and>
          extends_log rt stream_type aid (current_version stream_type aid l) m l (agg_pending a) ss)"
    then obtain ss m where v: "expected_version a = int (length (history aid l))"
      and log': "log s' = l @ ss"
      and ext: "extends_log rt stream_type aid (current_version stream_type aid l) m l (agg_pending a) ss"
      by blast
    have "legal_history stream_type (stream_events rt stream_type aid l @ agg_pending a)"
    proof (cases "agg_pending a = []")
      case True
      then show ?thesis using lok by (simp add: ledger_ok_def)
    next
      case False
      then show ?thesis using legal [OF l v False lok] by (simp add: history_def)
    qed
    with ext assms(1) have "ledger_step rt l (log s')" unfolding log' by (intro ledger_step.commit)
    with steps show ?thesis by (rule rtranclp.rtrancl_into_rtrancl)
  qed
qed

text \<open>A new aggregate, saved as the first events of its stream.\<close>

lemma keeps_save_new:
  assumes "list_all event_ok (agg_pending a)" and "expected_version a = 0"
    and "legal_history stream_type (agg_pending a)"
  shows "keeps evolves (repo_save repo aid a md)"
  unfolding keeps_def
proof
  fix s
  obtain r s' where eq: "repo_save repo aid a md s = (r, s')" by fastforce
  have "evolves s s'" using assms by (intro save_evolves [OF _ _ eq]) simp_all
  then show "evolves s (snd (repo_save repo aid a md s))" using eq by simp
qed

text \<open>
  Load, change, save: the change is computed on what was loaded. If the stream has moved on when
  the save arrives, the version differs and nothing is written; if the version is the same, so is
  the history, and the buffer continues it legally.
\<close>

definition legal_change ::
  "((domain_event, 'z) aggregate_root_scheme \<Rightarrow> (domain_event, 'z) aggregate_root_scheme result) \<Rightarrow> bool" where
  "legal_change cmd \<longleftrightarrow> (\<forall>es a a'. es \<noteq> [] \<longrightarrow> legal_history stream_type es \<longrightarrow> replay es = Inr a \<longrightarrow>
     cmd a = Inr a' \<longrightarrow> expected_version a' = expected_version a \<and>
       list_all event_ok (agg_pending a') \<and> legal_history stream_type (es @ agg_pending a'))"

lemma keeps_update:
  assumes change: "legal_change cmd" and miss: "keeps evolves miss" and skip: "keeps evolves skip"
    and k: "\<And>x. keeps evolves (k x)"
  shows "keeps evolves (bindM (repo_load repo aid) (\<lambda>found. case found of None \<Rightarrow> miss
    | Some a \<Rightarrow> if guard a then bindM (liftE (cmd a)) (\<lambda>a'. bindM (repo_save repo aid a' md) k) else skip))"
    (is "keeps evolves (bindM _ ?body)")
  unfolding keeps_def
proof
  fix s
  obtain r s1 where load: "repo_load repo aid s = (r, s1)" by fastforce
  have e1: "evolves s s1" using keepsD [OF keeps_load load] .
  have body: "evolves s1 (snd (?body x s1))" if x: "r = Inr x" and ok: "ok s" for x
  proof (cases x)
    case None
    then show ?thesis using miss by (simp add: keeps_def)
  next
    case (Some a)
    show ?thesis
    proof (cases "guard a")
    case False
    then show ?thesis using Some skip by (simp add: keeps_def)
    next
    case guard: True
    show ?thesis
    proof (cases "cmd a")
      case (Inl e)
      then show ?thesis using Some guard evolves_refl by (simp add: reflp_def)
    next
      case (Inr a')
      let ?es = "history aid (log s1)"
      have "log_decodes rt (log s1)" using e1 ok by (simp add: evolves_def ok_def ledger_ok_def)
      then have es: "?es \<noteq> []" "replay ?es = Inr a"
        using load_cases(3) [OF _ load] x Some ok
        by (auto split: if_splits simp: ok_def map_sum_def split: sum.splits)
      have "legal_history stream_type ?es"
        using e1 ok by (simp add: evolves_def ok_def ledger_ok_def history_def)
      with change es Inr have ch: "expected_version a' = expected_version a"
        "list_all event_ok (agg_pending a')" "legal_history stream_type (?es @ agg_pending a')"
        by (auto simp: legal_change_def)
      obtain q s2 where save: "repo_save repo aid a' md s1 = (q, s2)" by fastforce
      have "evolves s1 s2"
      proof (rule save_evolves [OF ch(2) _ save])
        fix l
        assume l: "rely (log s1) l" and v: "expected_version a' = int (length (history aid l))"
        obtain ss where "l = log s1 @ ss" using rely_grows [OF l] ..
        moreover have "length (history aid l) = length ?es"
          using v ch(1) replay_frame(3) [OF es(2)] by simp
        ultimately have "history aid l = ?es"
          by (simp add: history_def stream_events_append)
        with ch(3) show "legal_history stream_type (history aid l @ agg_pending a')" by simp
      qed
      moreover have "evolves s2 (snd (k y s2))" for y using k by (simp add: keeps_def)
      ultimately show ?thesis
        using Some Inr guard save evolves_trans by (cases q) (auto simp: bindM_def dest: transpD)
    qed
    qed
  qed
  show "evolves s (snd (bindM (repo_load repo aid) ?body s))"
  proof (cases "ok s")
    case True
    with body e1 evolves_trans load show ?thesis
      by (cases r) (auto simp: bindM_def dest: transpD)
  qed (simp add: evolves_def)
qed

end

section \<open>The three repositories\<close>

sublocale ledger_log \<subseteq> acc: ledger_repository rt store log invar rely account_apply ACCOUNT_STREAM account_init
  by unfold_locales (simp_all add: account_init_def)

sublocale ledger_log \<subseteq> jrn: ledger_repository rt store log invar rely journal_apply JOURNAL_STREAM journal_init
  by unfold_locales (simp_all add: journal_init_def)

sublocale ledger_log \<subseteq> trf: ledger_repository rt store log invar rely transfer_apply TRANSFER_STREAM transfer_init
  by unfold_locales (simp_all add: transfer_init_def)

text \<open>A command on a loaded aggregate continues the history it was loaded from.\<close>

lemma account_change_legal:
  assumes "account_lived es b" and "load_from_history account_apply account_init es = Inr a"
    and "run_account_command c a = Inr a'"
  shows "expected_version a' = expected_version a" "list_all event_ok (agg_pending a')"
    "account_lived (es @ agg_pending a') a'"
proof -
  have lived: "account_lived es a" using assms(1,2) by (rule account_lived.loaded)
  have "agg_pending a = []" using account_loaded_eq [OF assms(1,2)] by simp
  then show "account_lived (es @ agg_pending a') a'"
    using account_lived.command [OF lived assms(3)] by simp
  have inv: "account_inv a" using lived by (rule account_lived_inv)
  from assms(3) show "expected_version a' = expected_version a"
    by (cases rule: run_account_command_cases) (auto dest: account.record_event_frame(3))
  from assms(3) show "list_all event_ok (agg_pending a')"
  proof (cases rule: run_account_command_cases)
    case recorded
    then show ?thesis
      using account.record_event_frame(2) [OF recorded(1)] \<open>agg_pending a = []\<close>
        run_account_command_event_ok [OF inv assms(3)] by simp
  qed (use \<open>agg_pending a = []\<close> in simp)
qed

lemma transfer_change_legal:
  assumes "transfer_lived es u" and "load_from_history transfer_apply transfer_init es = Inr t"
    and "run_transfer_command c t = Inr t'"
  shows "expected_version t' = expected_version t" "list_all event_ok (agg_pending t')"
    "transfer_lived (es @ agg_pending t') t'"
proof -
  have lived: "transfer_lived es t" using assms(1,2) by (rule transfer_lived.loaded)
  have "agg_pending t = []" using transfer_loaded_eq [OF assms(1,2)] by simp
  moreover have rec: "record_event transfer_apply (TransferE (transfer_command_event c)) t = Inr t'"
    using assms(3) by (simp add: run_transfer_command_eq_Inr)
  ultimately have pend: "agg_pending t' = [TransferE (transfer_command_event c)]"
    using transfer.record_event_frame(2) [OF rec] by simp
  show "expected_version t' = expected_version t" using transfer.record_event_frame(3) [OF rec] .
  show "list_all event_ok (agg_pending t')" unfolding pend by (cases c) simp_all
  show "transfer_lived (es @ agg_pending t') t'"
    unfolding pend by (rule transfer_command_step [OF lived assms(3)])
qed

context ledger_log
begin

lemma repositories:
  "accounts (build_repositories rt store ledger_registry) = acc.repo"
  "journals (build_repositories rt store ledger_registry) = jrn.repo"
  "transfers (build_repositories rt store ledger_registry) = trf.repo"
  by (simp_all add: build_repositories_def acc.repo_def jrn.repo_def trf.repo_def)

lemma account_legal_change:
  assumes "\<And>a a'. cmd a = Inr a' \<Longrightarrow> \<exists>c. run_account_command c a = Inr a'"
  shows "acc.legal_change cmd"
  unfolding acc.legal_change_def acc.replay_def
proof (intro allI impI)
  fix es a a'
  assume es: "es \<noteq> []" "legal_history ACCOUNT_STREAM es"
    and load: "load_from_history account_apply account_init es = Inr a" and cmd: "cmd a = Inr a'"
  obtain b where b: "account_lived es b" using es by auto
  obtain c where c: "run_account_command c a = Inr a'" using assms [OF cmd] by blast
  note ch = account_change_legal [OF b load c]
  have "legal_history ACCOUNT_STREAM (es @ agg_pending a')" using ch(3) es(1) by auto
  with ch(1,2) show "expected_version a' = expected_version a \<and> list_all event_ok (agg_pending a') \<and>
      legal_history ACCOUNT_STREAM (es @ agg_pending a')" by simp
qed

lemma transfer_legal_change:
  assumes "\<And>t t'. cmd t = Inr t' \<Longrightarrow> \<exists>c. run_transfer_command c t = Inr t'"
  shows "trf.legal_change cmd"
  unfolding trf.legal_change_def trf.replay_def
proof (intro allI impI)
  fix es t t'
  assume es: "es \<noteq> []" "legal_history TRANSFER_STREAM es"
    and load: "load_from_history transfer_apply transfer_init es = Inr t" and cmd: "cmd t = Inr t'"
  obtain u where u: "transfer_lived es u" using es by auto
  obtain c where c: "run_transfer_command c t = Inr t'" using assms [OF cmd] by blast
  note ch = transfer_change_legal [OF u load c]
  have "legal_history TRANSFER_STREAM (es @ agg_pending t')" using ch(3) es(1) by auto
  with ch(1,2) show "expected_version t' = expected_version t \<and> list_all event_ok (agg_pending t') \<and>
      legal_history TRANSFER_STREAM (es @ agg_pending t')" by simp
qed

lemma keeps_save_account:
  assumes "account_open aid' c = Inr a"
  shows "keeps evolves (repo_save acc.repo aid a md)"
proof (rule acc.keeps_save_new)
  show "legal_history ACCOUNT_STREAM (agg_pending a)"
    using assms account_lived.opened [OF assms] by (auto simp: account_open_eq_Inr)
qed (use assms in \<open>auto simp: account_open_eq_Inr expected_version_def\<close>)

lemma keeps_save_transfer:
  assumes "transfer_initiate tid' src dst m rvs = Inr t" and "money_ok m"
  shows "keeps evolves (repo_save trf.repo tid t md)"
proof (rule trf.keeps_save_new)
  show "legal_history TRANSFER_STREAM (agg_pending t)"
    using assms transfer_lived.initiated [OF assms(1)] by (auto simp: transfer_initiate_eq_Inr)
qed (use assms in \<open>auto simp: transfer_initiate_eq_Inr expected_version_def\<close>)

lemma keeps_save_journal:
  assumes "legs_balanced legs" and "list_all (\<lambda>l. money_ok (leg_amount l)) legs"
    and "agg_pending j = [JournalE (JournalEntryPosted legs ref)]" and "agg_version j = 1"
  shows "keeps evolves (repo_save jrn.repo eid j md)"
  using assms by (intro jrn.keeps_save_new) (auto simp: expected_version_def journal_lived_def)

end

end
