(* ===== verification/Ledger_View.thy ===== *)
theory Ledger_View
  imports Ledger_State
begin

text \<open>
  A ledger seen as three maps: the account, journal entry and transfer that loading each
  identifier gives. On a store that does not fail and has no other client, a program over the
  repositories is a function of this view; \<open>runs_to m v r v'\<close> says that the action \<open>m\<close>, started
  in any consistent store with view \<open>v\<close>, ends with result \<open>r\<close> in a consistent store with view
  \<open>v'\<close>. Its rules execute a repository program symbolically: loading reads the view, saving
  updates it at one identifier.
\<close>

section \<open>The view\<close>

definition account_at :: "runtime \<Rightarrow> event_list \<Rightarrow> uuid \<Rightarrow> account option" where
  "account_at rt log aid =
     (let es = stream_events rt ACCOUNT_STREAM aid log
      in if es = [] then None else Some (projr (load_from_history account_apply account_init es)))"

definition journal_at :: "runtime \<Rightarrow> event_list \<Rightarrow> uuid \<Rightarrow> journal_entry option" where
  "journal_at rt log eid =
     (let es = stream_events rt JOURNAL_STREAM eid log
      in if es = [] then None else Some (projr (load_from_history journal_apply journal_init es)))"

definition transfer_at :: "runtime \<Rightarrow> event_list \<Rightarrow> uuid \<Rightarrow> transfer option" where
  "transfer_at rt log tid =
     (let es = stream_events rt TRANSFER_STREAM tid log
      in if es = [] then None else Some (projr (load_from_history transfer_apply transfer_init es)))"

record ledger_view =
  lv_accounts :: "uuid \<Rightarrow> account option"
  lv_journals :: "uuid \<Rightarrow> journal_entry option"
  lv_transfers :: "uuid \<Rightarrow> transfer option"

definition view_of :: "runtime \<Rightarrow> event_list \<Rightarrow> ledger_view" where
  "view_of rt log =
     \<lparr>lv_accounts = account_at rt log, lv_journals = journal_at rt log, lv_transfers = transfer_at rt log\<rparr>"

text \<open>What the repository stores of an object: neither its buffer nor its identity.\<close>

definition stored_account :: "account \<Rightarrow> account" where
  "stored_account a = a\<lparr>agg_pending := [], acc_account_id := None\<rparr>"

definition stored_transfer :: "transfer \<Rightarrow> transfer" where
  "stored_transfer t = t\<lparr>agg_pending := [], tr_transfer_id := None\<rparr>"

definition stored_entry :: "leg list \<Rightarrow> journal_entry" where
  "stored_entry legs = \<lparr>agg_version = 1, agg_pending = [], je_entry_id = None, je_legs = legs, je_posted = True\<rparr>"

definition put_account :: "uuid \<Rightarrow> account \<Rightarrow> ledger_view \<Rightarrow> ledger_view" where
  "put_account aid a v = v\<lparr>lv_accounts := (lv_accounts v)(aid \<mapsto> stored_account a)\<rparr>"

definition put_transfer :: "uuid \<Rightarrow> transfer \<Rightarrow> ledger_view \<Rightarrow> ledger_view" where
  "put_transfer tid t v = v\<lparr>lv_transfers := (lv_transfers v)(tid \<mapsto> stored_transfer t)\<rparr>"

definition put_entry :: "uuid \<Rightarrow> leg list \<Rightarrow> ledger_view \<Rightarrow> ledger_view" where
  "put_entry eid legs v = v\<lparr>lv_journals := (lv_journals v)(eid \<mapsto> stored_entry legs)\<rparr>"

lemma put_view_simps [simp]:
  "lv_accounts (put_account aid a v) = (lv_accounts v)(aid \<mapsto> stored_account a)"
  "lv_journals (put_account aid a v) = lv_journals v"
  "lv_transfers (put_account aid a v) = lv_transfers v"
  "lv_accounts (put_transfer tid t v) = lv_accounts v"
  "lv_journals (put_transfer tid t v) = lv_journals v"
  "lv_transfers (put_transfer tid t v) = (lv_transfers v)(tid \<mapsto> stored_transfer t)"
  "lv_accounts (put_entry eid legs v) = lv_accounts v"
  "lv_journals (put_entry eid legs v) = (lv_journals v)(eid \<mapsto> stored_entry legs)"
  "lv_transfers (put_entry eid legs v) = lv_transfers v"
  by (simp_all add: put_account_def put_transfer_def put_entry_def)

lemma stored_account_sel [simp]:
  "acc_status (stored_account a) = acc_status a" "acc_currency (stored_account a) = acc_currency a"
  "acc_available (stored_account a) = acc_available a" "acc_reserved (stored_account a) = acc_reserved a"
  "acc_applied_ops (stored_account a) = acc_applied_ops a" "account_inv (stored_account a) = account_inv a"
  by (simp_all add: stored_account_def)

lemma stored_transfer_sel [simp]:
  "tr_status (stored_transfer t) = tr_status t" "tr_journal_entry_id (stored_transfer t) = tr_journal_entry_id t"
  "tr_failure_reason (stored_transfer t) = tr_failure_reason t"
  by (simp_all add: stored_transfer_def)

text \<open>What \<open>ledger_ok\<close> says of the view.\<close>

lemma account_at_ok:
  assumes "ledger_ok rt log"
  shows "account_at rt log aid = Some a \<longleftrightarrow>
      stream_events rt ACCOUNT_STREAM aid log \<noteq> [] \<and>
      load_from_history account_apply account_init (stream_events rt ACCOUNT_STREAM aid log) = Inr a"
    and "account_at rt log aid = Some a \<Longrightarrow> account_lived (stream_events rt ACCOUNT_STREAM aid log) a"
proof -
  let ?es = "stream_events rt ACCOUNT_STREAM aid log"
  have "?es = [] \<or> (\<exists>b. account_lived ?es b)"
    using assms by (metis ledger_ok_def legal_history_simps(2))
  then have *: "?es = [] \<or> (\<exists>b. account_lived ?es b \<and>
      load_from_history account_apply account_init ?es = Inr (b\<lparr>agg_pending := [], acc_account_id := None\<rparr>))"
    using account_lived_replay by blast
  then show "account_at rt log aid = Some a \<longleftrightarrow> ?es \<noteq> [] \<and>
      load_from_history account_apply account_init ?es = Inr a"
    by (auto simp: account_at_def Let_def)
  with * show "account_at rt log aid = Some a \<Longrightarrow> account_lived ?es a"
    by (auto intro: account_lived.loaded)
qed

lemma transfer_at_ok:
  assumes "ledger_ok rt log"
  shows "transfer_at rt log tid = Some t \<longleftrightarrow>
      stream_events rt TRANSFER_STREAM tid log \<noteq> [] \<and>
      load_from_history transfer_apply transfer_init (stream_events rt TRANSFER_STREAM tid log) = Inr t"
    and "transfer_at rt log tid = Some t \<Longrightarrow> transfer_lived (stream_events rt TRANSFER_STREAM tid log) t"
proof -
  let ?es = "stream_events rt TRANSFER_STREAM tid log"
  have "?es = [] \<or> (\<exists>u. transfer_lived ?es u)"
    using assms by (metis ledger_ok_def legal_history_simps(4))
  then have *: "?es = [] \<or> (\<exists>u. transfer_lived ?es u \<and>
      load_from_history transfer_apply transfer_init ?es = Inr (u\<lparr>agg_pending := [], tr_transfer_id := None\<rparr>))"
    using transfer_lived_replay by blast
  then show "transfer_at rt log tid = Some t \<longleftrightarrow> ?es \<noteq> [] \<and>
      load_from_history transfer_apply transfer_init ?es = Inr t"
    by (auto simp: transfer_at_def Let_def)
  with * show "transfer_at rt log tid = Some t \<Longrightarrow> transfer_lived ?es t"
    by (auto intro: transfer_lived.loaded)
qed

lemma journal_replay [simp]:
  "load_from_history journal_apply journal_init [JournalE (JournalEntryPosted legs ref)] =
     Inr (stored_entry legs)"
  by (simp add: load_from_history_def journal_init_def stored_entry_def)

lemma journal_at_ok:
  assumes "ledger_ok rt log"
  shows "journal_at rt log eid = Some j \<longleftrightarrow>
      (\<exists>legs ref. stream_events rt JOURNAL_STREAM eid log = [JournalE (JournalEntryPosted legs ref)] \<and>
         legs_balanced legs \<and> j = stored_entry legs)"
proof -
  let ?es = "stream_events rt JOURNAL_STREAM eid log"
  have "?es = [] \<or> journal_lived ?es"
    using assms by (metis ledger_ok_def legal_history_simps(3))
  then show ?thesis
    by (auto simp: journal_at_def journal_lived_def)
qed

section \<open>Sequential execution\<close>

locale sequential_ledger = reliable_event_log rt store log invar + runtime_codec rt
  for rt :: runtime and store :: "'s event_store" and log :: "'s \<Rightarrow> event_list"
    and invar :: "'s \<Rightarrow> bool"

sublocale sequential_ledger \<subseteq> ledger_log rt store log invar "(=)"
  by unfold_locales simp

locale sequential_repository = sequential_ledger rt store log invar +
  ledger_repository rt store log invar "(=)" apply_event stream_type factory
  for rt :: runtime and store :: "'s event_store" and log :: "'s \<Rightarrow> event_list"
    and invar :: "'s \<Rightarrow> bool"
    and apply_event :: "(domain_event, 'z) aggregate_root_scheme \<Rightarrow> domain_event \<Rightarrow>
      (domain_event, 'z) aggregate_root_scheme result"
    and stream_type :: string and factory :: "(domain_event, 'z) aggregate_root_scheme"
begin

lemma load_exact:
  assumes "ok s"
  shows "repo_load repo aid s =
    (if history aid (log s) = [] then Inr None else map_sum id Some (replay (history aid (log s))), s)"
proof -
  have inv: "invar s" and dec: "log_decodes rt (log s)" using assms by (simp_all add: ok_def ledger_ok_def)
  have "bindE r (\<lambda>a. Inr (Some a)) = map_sum id Some r" for r :: "'y result" by (cases r) simp_all
  then show ?thesis
    using load_ok [OF inv, of stream_type aid] decode_stream [OF dec, of stream_type aid]
    by (auto simp: repo_load_def repo_def bindM_def history_def replay_def stream_events_def)
qed

lemma save_exact:
  assumes "ok s" and "expected_version a = int (length (history aid (log s)))"
    and "list_all event_ok (agg_pending a)"
    and "legal_history stream_type (history aid (log s) @ agg_pending a)"
  shows "\<exists>ss s'. repo_save repo aid a md s = (Inr (ss, a\<lparr>agg_pending := []\<rparr>), s') \<and> ok s' \<and>
    (\<forall>st sid. stream_events rt st sid (log s') =
       (if (st, sid) = (stream_type, aid) then history aid (log s) @ agg_pending a
        else stream_events rt st sid (log s)))"
proof (cases "agg_pending a = []")
  case True
  then show ?thesis using assms(1) by (auto simp: repo_save_def pull_pending_events_def history_def)
next
  case False
  have inv: "invar s" and wf: "log_wf (log s)" using assms(1) by (simp_all add: ok_def ledger_ok_def)
  let ?md = "case md of Some m \<Rightarrow> m | None \<Rightarrow> empty_metadata"
  have v: "current_version stream_type aid (log s) = expected_version a"
    using assms(2) current_version_wf [OF wf] by (simp add: history_def stream_events_def)
  obtain ss s' where app: "es_append store stream_type aid (expected_version a) (agg_pending a) ?md s = (Inr ss, s')"
    and inv': "invar s'" and log': "log s' = log s @ ss"
    and ext: "extends_log rt stream_type aid (expected_version a) ?md (log s) (agg_pending a) ss"
    using append_succeeds [OF inv v] by blast
  have "ledger_step rt (log s) (log s')"
    unfolding log' using ext assms(3,4) by (intro ledger_step.commit) (simp_all add: v history_def)
  then have "ok s'" using ledger_step_ok inv' assms(1) by (auto simp: ok_def)
  moreover have "repo_save repo aid a md s = (Inr (ss, a\<lparr>agg_pending := []\<rparr>), s')"
    using False app by (simp add: repo_save_def repo_def pull_pending_events_def bindM_Inr)
  ultimately show ?thesis
    using decode_extension(2,3) [OF ext assms(3)]
    by (auto simp: log' stream_events_append history_def)
qed

end

sublocale sequential_ledger \<subseteq> acc: sequential_repository rt store log invar account_apply ACCOUNT_STREAM account_init
  by unfold_locales

sublocale sequential_ledger \<subseteq> jrn: sequential_repository rt store log invar journal_apply JOURNAL_STREAM journal_init
  by unfold_locales

sublocale sequential_ledger \<subseteq> trf: sequential_repository rt store log invar transfer_apply TRANSFER_STREAM transfer_init
  by unfold_locales

context sequential_ledger
begin

definition runs_to :: "('s, exn, 'b) action \<Rightarrow> ledger_view \<Rightarrow> exn + 'b \<Rightarrow> ledger_view \<Rightarrow> bool" where
  "runs_to m v r v' \<longleftrightarrow>
     (\<forall>s. ok s \<and> view_of rt (log s) = v \<longrightarrow>
        (\<exists>s'. m s = (r, s') \<and> ok s' \<and> view_of rt (log s') = v'))"

lemma runs_to_pure [intro]:
  "runs_to (returnM x) v (Inr x) v" "runs_to (raiseM e) v (Inl e) v" "runs_to (liftE q) v q v"
  by (simp_all add: runs_to_def)

lemma runs_to_bind:
  "runs_to m v (Inr x) v1 \<Longrightarrow> runs_to (f x) v1 r v2 \<Longrightarrow> runs_to (bindM m f) v r v2"
  unfolding runs_to_def by (metis bindM_Inr)

lemma runs_to_bind_raise: "runs_to m v (Inl e) v1 \<Longrightarrow> runs_to (bindM m f) v (Inl e) v1"
  unfolding runs_to_def by (metis bindM_Inl)

lemma runs_to_catch:
  "runs_to m v (Inr x) v1 \<Longrightarrow> runs_to (catchM m h) v (Inr x) v1"
  "runs_to m v (Inl e) v1 \<Longrightarrow> runs_to (h e) v1 r v2 \<Longrightarrow> runs_to (catchM m h) v r v2"
  unfolding runs_to_def by (metis catchM_Inr) (metis catchM_Inl)

text \<open>Loading reads the view.\<close>

lemma load_at:
  assumes "ok s"
  shows "repo_load acc.repo aid s = (Inr (account_at rt (log s) aid), s)"
    and "repo_load jrn.repo eid s = (Inr (journal_at rt (log s) eid), s)"
    and "repo_load trf.repo tid s = (Inr (transfer_at rt (log s) tid), s)"
proof -
  have lok: "ledger_ok rt (log s)" using assms by (simp add: ok_def)
  show "repo_load acc.repo aid s = (Inr (account_at rt (log s) aid), s)"
    using account_at_ok(1) [OF lok, of aid]
    by (cases "account_at rt (log s) aid")
      (auto simp: acc.load_exact [OF assms] acc.history_def acc.replay_def account_at_def Let_def split: if_splits)
  show "repo_load jrn.repo eid s = (Inr (journal_at rt (log s) eid), s)"
    using journal_at_ok [OF lok, of eid]
    by (cases "journal_at rt (log s) eid")
      (auto simp: jrn.load_exact [OF assms] jrn.history_def jrn.replay_def journal_at_def Let_def split: if_splits)
  show "repo_load trf.repo tid s = (Inr (transfer_at rt (log s) tid), s)"
    using transfer_at_ok(1) [OF lok, of tid]
    by (cases "transfer_at rt (log s) tid")
      (auto simp: trf.load_exact [OF assms] trf.history_def trf.replay_def transfer_at_def Let_def split: if_splits)
qed

lemma runs_to_load:
  "runs_to (repo_load acc.repo aid) v (Inr (lv_accounts v aid)) v"
  "runs_to (repo_load jrn.repo eid) v (Inr (lv_journals v eid)) v"
  "runs_to (repo_load trf.repo tid) v (Inr (lv_transfers v tid)) v"
  by (auto simp: runs_to_def view_of_def load_at)

text \<open>A save whose events continue the stream legally updates the view at that identifier.\<close>

lemma view_after_save:
  assumes ok: "ok s" "ok s'"
    and streams: "\<forall>st sid. stream_events rt st sid (log s') =
       (if (st, sid) = (st0, sid0) then es else stream_events rt st sid (log s))"
  shows "st0 = ACCOUNT_STREAM \<Longrightarrow> es \<noteq> [] \<Longrightarrow> load_from_history account_apply account_init es = Inr (stored_account a) \<Longrightarrow>
      view_of rt (log s') = put_account sid0 a (view_of rt (log s))"
    and "st0 = TRANSFER_STREAM \<Longrightarrow> es \<noteq> [] \<Longrightarrow> load_from_history transfer_apply transfer_init es = Inr (stored_transfer t) \<Longrightarrow>
      view_of rt (log s') = put_transfer sid0 t (view_of rt (log s))"
    and "st0 = JOURNAL_STREAM \<Longrightarrow> es = [JournalE (JournalEntryPosted legs ref)] \<Longrightarrow>
      view_of rt (log s') = put_entry sid0 legs (view_of rt (log s))"
proof -
  assume "st0 = ACCOUNT_STREAM" "es \<noteq> []" "load_from_history account_apply account_init es = Inr (stored_account a)"
  then show "view_of rt (log s') = put_account sid0 a (view_of rt (log s))"
    using streams by (auto simp: view_of_def put_account_def account_at_def journal_at_def transfer_at_def Let_def fun_eq_iff)
next
  assume "st0 = TRANSFER_STREAM" "es \<noteq> []" "load_from_history transfer_apply transfer_init es = Inr (stored_transfer t)"
  then show "view_of rt (log s') = put_transfer sid0 t (view_of rt (log s))"
    using streams by (auto simp: view_of_def put_transfer_def account_at_def journal_at_def transfer_at_def Let_def fun_eq_iff)
next
  assume "st0 = JOURNAL_STREAM" "es = [JournalE (JournalEntryPosted legs ref)]"
  then show "view_of rt (log s') = put_entry sid0 legs (view_of rt (log s))"
    using streams by (auto simp: view_of_def put_entry_def account_at_def journal_at_def transfer_at_def Let_def fun_eq_iff)
qed

lemma runs_to_save_account_result:
  assumes a: "lv_accounts v aid = Some a" and c: "run_account_command c a = Inr a'"
    and k: "\<And>ss. runs_to (k (ss, a'\<lparr>agg_pending := []\<rparr>)) (put_account aid a' v) r v'"
  shows "runs_to (bindM (repo_save acc.repo aid a' md) k) v r v'"
  unfolding runs_to_def
proof (intro allI impI)
  fix s assume s: "ok s \<and> view_of rt (log s) = v"
  let ?es = "stream_events rt ACCOUNT_STREAM aid (log s)"
  have at: "account_at rt (log s) aid = Some a" and lok: "ledger_ok rt (log s)"
    using s a by (auto simp: view_of_def ok_def)
  then have es: "?es \<noteq> []" and load: "load_from_history account_apply account_init ?es = Inr a"
    using account_at_ok(1) by blast+
  note ch = account_change_legal [OF account_at_ok(2) [OF lok at] load c]
  have ver: "expected_version a' = int (length (acc.history aid (log s)))"
    using ch(1) acc.replay_frame(3) [of ?es a] load by (simp add: acc.replay_def acc.history_def)
  have "legal_history ACCOUNT_STREAM (acc.history aid (log s) @ agg_pending a')"
    using ch(3) es by (auto simp: acc.history_def)
  from acc.save_exact [OF conjunct1 [OF s] ver ch(2) this, of md]
  obtain ss s' where save: "repo_save acc.repo aid a' md s = (Inr (ss, a'\<lparr>agg_pending := []\<rparr>), s')"
    and ok': "ok s'" and st: "\<forall>st sid. stream_events rt st sid (log s') =
       (if (st, sid) = (ACCOUNT_STREAM, aid) then ?es @ agg_pending a' else stream_events rt st sid (log s))"
    by (auto simp: acc.history_def)
  have "view_of rt (log s') = put_account aid a' v"
    using view_after_save(1) [OF conjunct1 [OF s] ok' st refl, of a'] es s account_lived_replay [OF ch(3)]
    by (simp add: stored_account_def)
  with k ok' save show "\<exists>s'. bindM (repo_save acc.repo aid a' md) k s = (r, s') \<and> ok s' \<and>
      view_of rt (log s') = v'"
    by (auto simp: runs_to_def bindM_Inr)
qed

lemma runs_to_save_account:
  assumes a: "lv_accounts v aid = Some a" and c: "run_account_command c a = Inr a'"
    and k: "runs_to k (put_account aid a' v) r v'"
  shows "runs_to (bindM (repo_save acc.repo aid a' md) (\<lambda>_. k)) v r v'"
  by (rule runs_to_save_account_result [OF a c k])

lemma runs_to_save_new_account_result:
  assumes a: "lv_accounts v aid = None" and c: "account_open aid' cur = Inr a'"
    and k: "\<And>ss. runs_to (k (ss, a'\<lparr>agg_pending := []\<rparr>)) (put_account aid a' v) r v'"
  shows "runs_to (bindM (repo_save acc.repo aid a' md) k) v r v'"
  unfolding runs_to_def
proof (intro allI impI)
  fix s assume s: "ok s \<and> view_of rt (log s) = v"
  have es: "stream_events rt ACCOUNT_STREAM aid (log s) = []"
    using s a by (auto simp: view_of_def account_at_def Let_def split: if_splits)
  have pend: "agg_pending a' = [AccountE (AccountOpened cur)]" "expected_version a' = 0" "currency_ok cur"
    using c by (auto simp: account_open_eq_Inr expected_version_def)
  note lived = account_lived.opened [OF c]
  have "legal_history ACCOUNT_STREAM (acc.history aid (log s) @ agg_pending a')"
    using lived es by (auto simp: pend acc.history_def)
  from acc.save_exact [OF conjunct1 [OF s] _ _ this, of md]
  obtain ss s' where save: "repo_save acc.repo aid a' md s = (Inr (ss, a'\<lparr>agg_pending := []\<rparr>), s')"
    and ok': "ok s'" and st: "\<forall>st sid. stream_events rt st sid (log s') =
       (if (st, sid) = (ACCOUNT_STREAM, aid) then agg_pending a' else stream_events rt st sid (log s))"
    using es pend by (auto simp: acc.history_def)
  have "view_of rt (log s') = put_account aid a' v"
    using view_after_save(1) [OF conjunct1 [OF s] ok' st refl, of a'] pend s account_lived_replay [OF lived]
    by (simp add: stored_account_def)
  with k ok' save show "\<exists>s'. bindM (repo_save acc.repo aid a' md) k s = (r, s') \<and> ok s' \<and>
      view_of rt (log s') = v'"
    by (auto simp: runs_to_def bindM_Inr)
qed

lemma runs_to_save_new_account:
  assumes a: "lv_accounts v aid = None" and c: "account_open aid' cur = Inr a'"
    and k: "runs_to k (put_account aid a' v) r v'"
  shows "runs_to (bindM (repo_save acc.repo aid a' md) (\<lambda>_. k)) v r v'"
  by (rule runs_to_save_new_account_result [OF a c k])

lemma runs_to_save_transfer:
  assumes t: "lv_transfers v tid = Some t" and c: "run_transfer_command c t = Inr t'"
    and k: "runs_to k (put_transfer tid t' v) r v'"
  shows "runs_to (bindM (repo_save trf.repo tid t' md) (\<lambda>_. k)) v r v'"
  unfolding runs_to_def
proof (intro allI impI)
  fix s assume s: "ok s \<and> view_of rt (log s) = v"
  let ?es = "stream_events rt TRANSFER_STREAM tid (log s)"
  have at: "transfer_at rt (log s) tid = Some t" and lok: "ledger_ok rt (log s)"
    using s t by (auto simp: view_of_def ok_def)
  then have es: "?es \<noteq> []" and load: "load_from_history transfer_apply transfer_init ?es = Inr t"
    using transfer_at_ok(1) by blast+
  note ch = transfer_change_legal [OF transfer_at_ok(2) [OF lok at] load c]
  have ver: "expected_version t' = int (length (trf.history tid (log s)))"
    using ch(1) trf.replay_frame(3) [of ?es t] load by (simp add: trf.replay_def trf.history_def)
  have "legal_history TRANSFER_STREAM (trf.history tid (log s) @ agg_pending t')"
    using ch(3) es by (auto simp: trf.history_def)
  from trf.save_exact [OF conjunct1 [OF s] ver ch(2) this, of md]
  obtain ss s' where save: "repo_save trf.repo tid t' md s = (Inr (ss, t'\<lparr>agg_pending := []\<rparr>), s')"
    and ok': "ok s'" and st: "\<forall>st sid. stream_events rt st sid (log s') =
       (if (st, sid) = (TRANSFER_STREAM, tid) then ?es @ agg_pending t' else stream_events rt st sid (log s))"
    by (auto simp: trf.history_def)
  have "view_of rt (log s') = put_transfer tid t' v"
    using view_after_save(2) [OF conjunct1 [OF s] ok' st refl, of t'] es s transfer_lived_replay [OF ch(3)]
    by (simp add: stored_transfer_def)
  with k ok' save show "\<exists>s'. bindM (repo_save trf.repo tid t' md) (\<lambda>_. k) s = (r, s') \<and> ok s' \<and>
      view_of rt (log s') = v'"
    by (auto simp: runs_to_def bindM_Inr)
qed

lemma runs_to_save_new_transfer:
  assumes t: "lv_transfers v tid = None" and c: "transfer_initiate tid' src dst m rvs = Inr t'" and m: "money_ok m"
    and k: "runs_to k (put_transfer tid t' v) r v'"
  shows "runs_to (bindM (repo_save trf.repo tid t' md) (\<lambda>_. k)) v r v'"
  unfolding runs_to_def
proof (intro allI impI)
  fix s assume s: "ok s \<and> view_of rt (log s) = v"
  have es: "stream_events rt TRANSFER_STREAM tid (log s) = []"
    using s t by (auto simp: view_of_def transfer_at_def Let_def split: if_splits)
  have pend: "agg_pending t' = [TransferE (TransferInitiated src dst m rvs)]" "expected_version t' = 0"
    using c by (auto simp: transfer_initiate_eq_Inr expected_version_def)
  note lived = transfer_lived.initiated [OF c]
  have "legal_history TRANSFER_STREAM (trf.history tid (log s) @ agg_pending t')"
    using lived es by (auto simp: pend trf.history_def)
  from trf.save_exact [OF conjunct1 [OF s] _ _ this, of md]
  obtain ss s' where save: "repo_save trf.repo tid t' md s = (Inr (ss, t'\<lparr>agg_pending := []\<rparr>), s')"
    and ok': "ok s'" and st: "\<forall>st sid. stream_events rt st sid (log s') =
       (if (st, sid) = (TRANSFER_STREAM, tid) then agg_pending t' else stream_events rt st sid (log s))"
    using es pend m by (auto simp: trf.history_def)
  have "view_of rt (log s') = put_transfer tid t' v"
    using view_after_save(2) [OF conjunct1 [OF s] ok' st refl, of t'] pend s transfer_lived_replay [OF lived]
    by (simp add: stored_transfer_def)
  with k ok' save show "\<exists>s'. bindM (repo_save trf.repo tid t' md) (\<lambda>_. k) s = (r, s') \<and> ok s' \<and>
      view_of rt (log s') = v'"
    by (auto simp: runs_to_def bindM_Inr)
qed

lemma runs_to_save_entry:
  assumes j: "lv_journals v eid = None" and bal: "legs_balanced legs"
    and m: "list_all (\<lambda>l. money_ok (leg_amount l)) legs"
    and pend: "agg_pending j' = [JournalE (JournalEntryPosted legs ref)]" and ver: "agg_version j' = 1"
    and k: "runs_to k (put_entry eid legs v) r v'"
  shows "runs_to (bindM (repo_save jrn.repo eid j' md) (\<lambda>_. k)) v r v'"
  unfolding runs_to_def
proof (intro allI impI)
  fix s assume s: "ok s \<and> view_of rt (log s) = v"
  have es: "stream_events rt JOURNAL_STREAM eid (log s) = []"
    using s j by (auto simp: view_of_def journal_at_def Let_def split: if_splits)
  have "legal_history JOURNAL_STREAM (jrn.history eid (log s) @ agg_pending j')"
    using es bal by (auto simp: pend jrn.history_def journal_lived_def)
  from jrn.save_exact [OF conjunct1 [OF s] _ _ this, of md]
  obtain ss s' where save: "repo_save jrn.repo eid j' md s = (Inr (ss, j'\<lparr>agg_pending := []\<rparr>), s')"
    and ok': "ok s'" and st: "\<forall>st sid. stream_events rt st sid (log s') =
       (if (st, sid) = (JOURNAL_STREAM, eid) then agg_pending j' else stream_events rt st sid (log s))"
    using es pend ver m by (auto simp: jrn.history_def expected_version_def)
  have "view_of rt (log s') = put_entry eid legs v"
    using view_after_save(3) [OF conjunct1 [OF s] ok' st refl pend] s by simp
  with k ok' save show "\<exists>s'. bindM (repo_save jrn.repo eid j' md) (\<lambda>_. k) s = (r, s') \<and> ok s' \<and>
      view_of rt (log s') = v'"
    by (auto simp: runs_to_def bindM_Inr)
qed

end

lemma repo_save_returns: "repo_save repo aid a md s = (Inr (ss, x), s') \<Longrightarrow> x = a\<lparr>agg_pending := []\<rparr>"
  by (auto simp: repo_save_def pull_pending_events_def bindM_def split: if_splits prod.splits sum.splits)

context sequential_ledger
begin

lemma saved_view:
  assumes "runs_to (bindM (repo_save repo aid a md) (\<lambda>_. returnM ())) (view_of rt (log s)) (Inr ()) v'" and "ok s"
  shows "\<exists>ss s'. repo_save repo aid a md s = (Inr (ss, a\<lparr>agg_pending := []\<rparr>), s') \<and> ok s' \<and> view_of rt (log s') = v'"
proof -
  from assms obtain s' where run: "bindM (repo_save repo aid a md) (\<lambda>_. returnM ()) s = (Inr (), s')"
    and s': "ok s'" "view_of rt (log s') = v'" unfolding runs_to_def by blast
  from run obtain ss x where "repo_save repo aid a md s = (Inr (ss, x), s')"
    by (auto simp: bindM_def split: prod.splits sum.splits)
  with s' repo_save_returns show ?thesis by fastforce
qed

end

text \<open>The in-memory store is such a store, for every runtime whose codec round-trips.\<close>

lemma memory_sequential_ledger:
  assumes "codec_round_trip rt"
  shows "sequential_ledger rt (memory_store rt ledger_registry) (\<lambda>s. s) memory_invar"
  by (intro sequential_ledger.intro memory.reliable_event_log_axioms runtime_codec.intro assms)

abbreviation memory_repositories :: "runtime \<Rightarrow> event_list repositories" where
  "memory_repositories rt \<equiv> build_repositories rt (memory_store rt ledger_registry) ledger_registry"

lemma memory_ledger_log:
  assumes "codec_round_trip rt"
  shows "ledger_log rt (memory_store rt ledger_registry) (\<lambda>s. s) memory_invar (=)"
  using sequential_ledger.axioms [OF memory_sequential_ledger [OF assms]]
  by (intro ledger_log.intro ledger_log_axioms.intro reliable_event_log.axioms(1)) simp_all

lemma memory_ok:
  assumes "codec_round_trip rt"
  shows "ledger_log.ok rt (\<lambda>s. s) memory_invar log \<longleftrightarrow> memory_invar log \<and> ledger_ok rt log"
  by (rule ledger_log.ok_def [OF memory_ledger_log [OF assms]])

interpretation plain_memory:
  sequential_ledger plain_runtime "memory_store plain_runtime ledger_registry" "\<lambda>s. s" memory_invar
  by (rule memory_sequential_ledger) simp

lemma account_at_inv: "ledger_ok rt log \<Longrightarrow> account_at rt log aid = Some a \<Longrightarrow> account_inv a"
  by (rule account_lived_inv [OF account_at_ok(2)])

lemma view_of_sel [simp]:
  "lv_accounts (view_of rt log) = account_at rt log" "lv_journals (view_of rt log) = journal_at rt log"
  "lv_transfers (view_of rt log) = transfer_at rt log"
  by (simp_all add: view_of_def)

text \<open>A ledger with two accounts in USD, the first holding 100, for the witnesses.\<close>

lemma sample_ledger:
  obtains log a b where "memory_invar log" and "ledger_ok plain_runtime log"
    and "account_at plain_runtime log = [1 \<mapsto> a, 2 \<mapsto> b]" and "journal_at plain_runtime log = Map.empty"
    and "transfer_at plain_runtime log = Map.empty"
    and "acc_status a = OPEN" and "acc_currency a = ''USD''" and "amount (acc_available a) = 100"
    and "amount (acc_reserved a) = 0" and "acc_applied_ops a = {}"
    and "acc_status b = OPEN" and "acc_currency b = ''USD''" and "acc_applied_ops b = {}"
proof -
  obtain x where x: "account_open 1 ''USD'' = Inr x" by (simp add: account_open_eq_Inr)
  obtain y where y: "account_open 2 ''USD'' = Inr y" by (simp add: account_open_eq_Inr)
  let ?x = "account_moved (FundsDeposited (usd 100)) 100 0 {} (stored_account x)"
  have dep: "run_account_command (Deposit (usd 100)) (stored_account x) = Inr ?x"
    using x account_open_inv [OF x] record_balance_event(1) [of "stored_account x" "usd 100"]
    by (auto simp: account_open_eq_Inr account_deposit_def assert_operational_def assert_positive_def usd_def)
  define v0 where "v0 = view_of plain_runtime []"
  have v0: "lv_accounts v0 = Map.empty" "lv_journals v0 = Map.empty" "lv_transfers v0 = Map.empty"
    by (auto simp: v0_def account_at_def journal_at_def transfer_at_def)
  let ?v = "put_account 2 y (put_account 1 ?x (put_account 1 x v0))"
  have runs: "plain_memory.runs_to (bindM (repo_save plain_memory.acc.repo 1 x None) (\<lambda>_.
      bindM (repo_save plain_memory.acc.repo 1 ?x None) (\<lambda>_. bindM (repo_save plain_memory.acc.repo 2 y None) (\<lambda>_. returnM ()))))
      v0 (Inr ()) ?v"
    by (rule plain_memory.runs_to_save_new_account [OF _ x], simp add: v0,
        rule plain_memory.runs_to_save_account [OF _ dep], simp,
        rule plain_memory.runs_to_save_new_account [OF _ y], simp add: v0, rule plain_memory.runs_to_pure(1))
  have ok: "plain_memory.ok []" by (simp add: plain_memory.ok_def memory_invar_Nil)
  from runs ok obtain log where log: "plain_memory.ok log" "view_of plain_runtime log = ?v"
    unfolding plain_memory.runs_to_def v0_def by blast
  have "account_at plain_runtime log = lv_accounts ?v" "journal_at plain_runtime log = lv_journals ?v"
    "transfer_at plain_runtime log = lv_transfers ?v" using log(2) view_of_sel by metis+
  moreover have "memory_invar log" "ledger_ok plain_runtime log" using log(1) by (simp_all add: plain_memory.ok_def)
  ultimately show thesis
    using x y by (intro that [of log "stored_account ?x" "stored_account y"])
      (auto simp: v0 account_open_eq_Inr account_init_def fun_eq_iff)
qed

section \<open>The trial balance\<close>

definition posted_legs :: "runtime \<Rightarrow> event_list \<Rightarrow> leg list" where
  "posted_legs rt log =
     concat (map (\<lambda>s. case decoded rt s of JournalE (JournalEntryPosted legs _) \<Rightarrow> legs | _ \<Rightarrow> []) log)"

lemma posted_entry_balanced:
  assumes "ledger_ok rt log" and "s \<in> set log" and "decoded rt s = JournalE (JournalEntryPosted legs ref)"
  shows "legs_balanced legs"
proof -
  let ?es = "stream_events rt (se_stream_type s) (se_stream_id s) log"
  have mem: "JournalE (JournalEntryPosted legs ref) \<in> set ?es"
    using assms(2,3) by (force simp: stream_events_def stream_of_def in_stream_def image_iff)
  have "legal_history (se_stream_type s) ?es" using assms(1) by (simp add: ledger_ok_def)
  then consider a where "account_lived ?es a" | "journal_lived ?es" | t where "transfer_lived ?es t"
    using mem by (auto simp: legal_history_def)
  then show ?thesis
  proof cases
    case 1
    then show ?thesis using account_lived_kind [OF 1 mem] by simp
  next
    case 2
    then show ?thesis using mem by (auto simp: journal_lived_def)
  next
    case 3
    then show ?thesis using transfer_lived_path [OF 3] mem by (auto dest: transfer_path_kind)
  qed
qed

text \<open>In a consistent ledger the legs of all journal entries taken together net to zero in every currency.\<close>

lemma posted_legs_balance:
  assumes "ledger_ok rt log"
  shows "currency_net c (posted_legs rt log) = 0"
proof -
  have "currency_net c (case decoded rt s of JournalE (JournalEntryPosted legs _) \<Rightarrow> legs | _ \<Rightarrow> []) = 0"
    if "s \<in> set log" for s
    using posted_entry_balanced [OF assms that] balanced_net_zero
    by (auto simp: currency_net_def split: domain_event.splits journal_event.splits)
  then have "map (currency_net c \<circ> (\<lambda>s. case decoded rt s of JournalE (JournalEntryPosted legs _) \<Rightarrow> legs | _ \<Rightarrow> [])) log =
      map (\<lambda>_. 0) log" by simp
  then show ?thesis by (simp add: posted_legs_def currency_net_concat map_replicate_const sum_list_replicate)
qed

section \<open>Saving and loading\<close>

text \<open>What the three repositories load from a log.\<close>

definition loads ::
  "event_list repositories \<Rightarrow> event_list \<Rightarrow>
   (uuid \<Rightarrow> account option result) \<times> (uuid \<Rightarrow> journal_entry option result) \<times> (uuid \<Rightarrow> transfer option result)" where
  "loads R log = (\<lambda>i. fst (repo_load (accounts R) i log), \<lambda>i. fst (repo_load (journals R) i log),
     \<lambda>i. fst (repo_load (transfers R) i log))"

lemma loads_view:
  assumes "codec_round_trip rt" and "memory_invar log" and "ledger_ok rt log"
  shows "loads (memory_repositories rt) log =
    (Inr \<circ> lv_accounts (view_of rt log), Inr \<circ> lv_journals (view_of rt log), Inr \<circ> lv_transfers (view_of rt log))"
  using assms(2,3) sequential_ledger.load_at [OF memory_sequential_ledger [OF assms(1)], of log]
  by (simp add: loads_def ledger_log.repositories [OF memory_ledger_log [OF assms(1)]] memory_ok [OF assms(1)] comp_def)

text \<open>
  C34. Saving and loading: on a consistent ledger, saving an account that was loaded and changed by a
  command, a transfer likewise, or a newly posted journal entry succeeds; afterwards its repository
  loads what was saved, identity apart, and nothing else in any of the three repositories loads
  differently. So events, serialisation, envelopes and replay together lose nothing.
\<close>

theorem saved_aggregates_load_back:
  assumes "codec_round_trip rt" and "set_order_ok rt" and "memory_invar log" and "ledger_ok rt log"
    and "R = memory_repositories rt" and "loads R log = (A, J, T)"
  shows "(\<forall>a c a'. A aid = Inr (Some a) \<and> run_account_command c a = Inr a' \<longrightarrow>
      (\<exists>ss log'. repo_save (accounts R) aid a' md log = (Inr (ss, a'\<lparr>agg_pending := []\<rparr>), log') \<and>
        loads R log' = (A(aid := Inr (Some (a'\<lparr>agg_pending := [], acc_account_id := None\<rparr>))), J, T))) \<and>
    (\<forall>t c t'. T tid = Inr (Some t) \<and> run_transfer_command c t = Inr t' \<longrightarrow>
      (\<exists>ss log'. repo_save (transfers R) tid t' md log = (Inr (ss, t'\<lparr>agg_pending := []\<rparr>), log') \<and>
        loads R log' = (A, J, T(tid := Inr (Some (t'\<lparr>agg_pending := [], tr_transfer_id := None\<rparr>)))))) \<and>
    (\<forall>legs ref j. J eid = Inr None \<and> journal_post rt eid legs ref = Inr j \<and> list_all (\<lambda>l. money_ok (leg_amount l)) legs \<longrightarrow>
      (\<exists>ss log'. repo_save (journals R) eid j md log = (Inr (ss, j\<lparr>agg_pending := []\<rparr>), log') \<and>
        loads R log' = (A, J(eid := Inr (Some (j\<lparr>agg_pending := [], je_entry_id := None\<rparr>))), T)))"
proof -
  note seq = memory_sequential_ledger [OF assms(1)]
  note repos = ledger_log.repositories [OF memory_ledger_log [OF assms(1)], folded assms(5)]
  let ?v = "view_of rt log"
  have ok: "ledger_log.ok rt (\<lambda>s. s) memory_invar log" using assms(3,4) by (simp add: memory_ok [OF assms(1)])
  have old: "A = Inr \<circ> lv_accounts ?v" "J = Inr \<circ> lv_journals ?v" "T = Inr \<circ> lv_transfers ?v"
    using loads_view [OF assms(1,3,4)] assms(5,6) by simp_all
  have new: "loads R log' = (Inr \<circ> lv_accounts v', Inr \<circ> lv_journals v', Inr \<circ> lv_transfers v')"
    if "ledger_log.ok rt (\<lambda>s. s) memory_invar log'" "view_of rt log' = v'" for log' v'
    using loads_view [OF assms(1), of log'] that by (simp add: memory_ok [OF assms(1)] assms(5))
  note unit = sequential_ledger.runs_to_pure(1) [OF seq, of "()"]
  show ?thesis
  proof (intro conjI allI impI)
    fix a c a' assume "A aid = Inr (Some a) \<and> run_account_command c a = Inr a'"
    then have "lv_accounts ?v aid = Some a" "run_account_command c a = Inr a'" by (simp_all add: old)
    from sequential_ledger.saved_view [OF seq sequential_ledger.runs_to_save_account [OF seq this unit] ok, of md]
    show "\<exists>ss log'. repo_save (accounts R) aid a' md log = (Inr (ss, a'\<lparr>agg_pending := []\<rparr>), log') \<and>
        loads R log' = (A(aid := Inr (Some (a'\<lparr>agg_pending := [], acc_account_id := None\<rparr>))), J, T)"
      unfolding repos by (auto simp: new old fun_eq_iff stored_account_def)
  next
    fix t c t' assume "T tid = Inr (Some t) \<and> run_transfer_command c t = Inr t'"
    then have "lv_transfers ?v tid = Some t" "run_transfer_command c t = Inr t'" by (simp_all add: old)
    from sequential_ledger.saved_view [OF seq sequential_ledger.runs_to_save_transfer [OF seq this unit] ok, of md]
    show "\<exists>ss log'. repo_save (transfers R) tid t' md log = (Inr (ss, t'\<lparr>agg_pending := []\<rparr>), log') \<and>
        loads R log' = (A, J, T(tid := Inr (Some (t'\<lparr>agg_pending := [], tr_transfer_id := None\<rparr>))))"
      unfolding repos by (auto simp: new old fun_eq_iff stored_transfer_def)
  next
    fix legs ref j assume j: "J eid = Inr None \<and> journal_post rt eid legs ref = Inr j \<and> list_all (\<lambda>l. money_ok (leg_amount l)) legs"
    then have "lv_journals ?v eid = None" "legs_balanced legs" "list_all (\<lambda>l. money_ok (leg_amount l)) legs"
      "agg_pending j = [JournalE (JournalEntryPosted legs ref)]" "agg_version j = 1"
      and j': "stored_entry legs = j\<lparr>agg_pending := [], je_entry_id := None\<rparr>"
      by (simp_all add: old journal_post_eq_Inr [OF assms(2)] stored_entry_def)
    from sequential_ledger.saved_view [OF seq sequential_ledger.runs_to_save_entry [OF seq this(1-5) unit] ok, of md]
    show "\<exists>ss log'. repo_save (journals R) eid j md log = (Inr (ss, j\<lparr>agg_pending := []\<rparr>), log') \<and>
        loads R log' = (A, J(eid := Inr (Some (j\<lparr>agg_pending := [], je_entry_id := None\<rparr>))), T)"
      unfolding repos by (auto simp: new old fun_eq_iff j')
  qed
qed

theorem saved_aggregates_load_back_witness:
  "\<exists>log log' a a' ss. let R = memory_repositories plain_runtime in
     repo_load (accounts R) 1 log = (Inr (Some a), log) \<and> account_freeze a = Inr a' \<and>
     repo_save (accounts R) 1 a' None log = (Inr (ss, a'\<lparr>agg_pending := []\<rparr>), log') \<and>
     fst (repo_load (accounts R) 1 log') = Inr (Some (a'\<lparr>agg_pending := [], acc_account_id := None\<rparr>)) \<and> acc_status a' = FROZEN"
proof (rule sample_ledger)
  fix log a b
  assume log: "memory_invar log" "ledger_ok plain_runtime log" and at: "account_at plain_runtime log = [1 \<mapsto> a, 2 \<mapsto> b]"
    and opened: "acc_status a = OPEN"
  let ?R = "memory_repositories plain_runtime"
  obtain A J T where loads: "loads ?R log = (A, J, T)" by (cases "loads ?R log") auto
  have A: "A 1 = Inr (Some a)" using loads loads_view [of plain_runtime log] log at by auto
  have load: "repo_load (accounts ?R) 1 log = (Inr (Some a), log)"
    using plain_memory.load_at(1) [of log 1] log at by (simp add: plain_memory.ok_def plain_memory.repositories)
  obtain a' where a': "run_account_command Freeze a = Inr a'" "acc_status a' = FROZEN"
    using opened by (auto simp: account_freeze_def record_event_def)
  from saved_aggregates_load_back [OF _ _ log refl loads, of 1 None] A a'(1)
  have "\<exists>ss log'. repo_save (accounts ?R) 1 a' None log = (Inr (ss, a'\<lparr>agg_pending := []\<rparr>), log') \<and>
      loads ?R log' = (A(1 := Inr (Some (a'\<lparr>agg_pending := [], acc_account_id := None\<rparr>))), J, T)"
    by (simp only: plain_runtime_ok simp_thms)
  then obtain ss log' where save: "repo_save (accounts ?R) 1 a' None log = (Inr (ss, a'\<lparr>agg_pending := []\<rparr>), log')"
    and new: "loads ?R log' = (A(1 := Inr (Some (a'\<lparr>agg_pending := [], acc_account_id := None\<rparr>))), J, T)" by blast
  have "fst (repo_load (accounts ?R) 1 log') = fst (loads ?R log') 1" by (simp add: loads_def)
  also have "\<dots> = Inr (Some (a'\<lparr>agg_pending := [], acc_account_id := None\<rparr>))" by (simp add: new)
  finally show ?thesis using load a' save unfolding Let_def run_account_command.simps by blast
qed

end
