(* ===== verification/Messages.thy ===== *)
theory Messages
  imports Transfers
begin

text \<open>
  The messages that cross the boundary between workflow and activities,
  \<^verbatim>\<open>src/src/ledger/temporal/messages.py\<close>. Pydantic validates the \<open>Money\<close> in a
  \<open>TransferInput\<close>; \<open>input_ok\<close> says so.
\<close>

datatype reconciliation_resolution = RETRY_CREDIT | REFUND_SOURCE

record transfer_input =
  ti_transfer_id :: uuid
  ti_source_account_id :: uuid
  ti_destination_account_id :: uuid
  ti_amount :: money
  ti_reversal_of :: "uuid option"
  ti_traceparent :: "string option"

record fail_input =
  fi_transfer_id :: uuid
  fi_reason :: failure_reason
  fi_detail :: "string option"

record park_input =
  pi_transfer_id :: uuid
  pi_detail :: string

record refund_input =
  ri_transfer_id :: uuid
  ri_source_account_id :: uuid
  ri_amount :: money

record transfer_result =
  res_transfer_id :: uuid
  res_status :: transfer_status
  res_journal_entry_id :: "uuid option"
  res_failure_reason :: "failure_reason option"
  res_detail :: "string option"

definition input_ok :: "transfer_input \<Rightarrow> bool" where
  "input_ok d \<longleftrightarrow> money_ok (ti_amount d)"

end
