(* ===== verification/Activities.thy ===== *)
theory Activities
  imports Ledger_View Messages
begin

text \<open>
  The Temporal activities, \<^verbatim>\<open>src/src/ledger/temporal/activities/transfer_activities.py\<close>: the
  only code through which the saga touches the store. Each activity is an action over the three
  repositories; \<open>catch_terminal\<close> is the \<open>except (...) as err: raise _terminal(err)\<close> clause with
  its list of classes. The repository-backed status reader interprets the posting service's port.
\<close>

section \<open>Helpers\<close>

fun terminal :: "exn \<Rightarrow> exn" where
  "terminal (DomainError c msg) = ApplicationError msg (Some (error_code c)) True"
| "terminal e = e"

definition catch_terminal :: "domain_class list \<Rightarrow> ('s, exn, 'a) action \<Rightarrow> ('s, exn, 'a) action" where
  "catch_terminal classes m =
     catchM m (\<lambda>e. case exn_class e of
       Some c \<Rightarrow> if c \<in> set classes then raiseM (terminal e) else raiseM e
     | None \<Rightarrow> raiseM e)"

definition transfer_meta :: "uuid \<Rightarrow> string option \<Rightarrow> event_metadata" where
  "transfer_meta tid tp = \<lparr>md_correlation_id = Some tid, md_causation_id = None, md_traceparent = tp\<rparr>"

fun OPPOSITE :: "leg_direction \<Rightarrow> leg_direction" where
  "OPPOSITE DEBIT = CREDIT"
| "OPPOSITE CREDIT = DEBIT"

definition repository_snapshot :: "('s, account) repository \<Rightarrow> 's status_reader" where
  "repository_snapshot accs aid =
     bindM (repo_load accs aid) (\<lambda>found.
       case found of
         None \<Rightarrow> returnM None
       | Some a \<Rightarrow> returnM (Some \<lparr>snap_account_id = aid, snap_currency = acc_currency a,
                                  snap_status = acc_status a\<rparr>))"

text \<open>
  The two passages the activities share: load an account (\<open>miss\<close> if there is none), run a
  command on it and save it; load the transfer and, if it exists and passes the status check,
  record the milestone and save it.
\<close>

definition move_account ::
  "'s repositories \<Rightarrow> uuid \<Rightarrow> event_metadata \<Rightarrow> ('s, exn, unit) action \<Rightarrow>
   (account \<Rightarrow> account result) \<Rightarrow> ('s, exn, unit) action" where
  "move_account R aid md miss cmd =
     bindM (repo_load (accounts R) aid) (\<lambda>found.
       case found of
         None \<Rightarrow> miss
       | Some a \<Rightarrow> bindM (liftE (cmd a)) (\<lambda>a'.
           bindM (repo_save (accounts R) aid a' (Some md)) (\<lambda>_. returnM ())))"

definition advance_transfer ::
  "'s repositories \<Rightarrow> uuid \<Rightarrow> event_metadata \<Rightarrow> transfer_status set \<Rightarrow>
   (transfer \<Rightarrow> transfer result) \<Rightarrow> ('s, exn, unit) action" where
  "advance_transfer R tid md statuses cmd =
     bindM (repo_load (transfers R) tid) (\<lambda>found.
       case found of
         None \<Rightarrow> returnM ()
       | Some t \<Rightarrow>
           if tr_status t \<in> statuses
           then bindM (liftE (cmd t)) (\<lambda>t'.
                bindM (repo_save (transfers R) tid t' (Some md)) (\<lambda>_. returnM ()))
           else returnM ())"

section \<open>The activities\<close>

definition record_initiated ::
  "runtime \<Rightarrow> 's repositories \<Rightarrow> transfer_input \<Rightarrow> ('s, exn, unit) action" where
  "record_initiated rt R d =
     bindM (repo_load (transfers R) (ti_transfer_id d)) (\<lambda>found.
       if found \<noteq> None then returnM ()
       else
         bindM (catch_terminal [SameAccountTransfer, InvalidAmount]
           (liftE (transfer_initiate (ti_transfer_id d) (ti_source_account_id d)
              (ti_destination_account_id d) (ti_amount d) (ti_reversal_of d)))) (\<lambda>t.
         bindM (repo_save (transfers R) (ti_transfer_id d) t
           (Some (transfer_meta (ti_transfer_id d) (ti_traceparent d)))) (\<lambda>_. returnM ())))"

definition hold_funds ::
  "runtime \<Rightarrow> 's repositories \<Rightarrow> transfer_input \<Rightarrow> ('s, exn, unit) action" where
  "hold_funds rt R d =
     (let op = operation_id rt (ti_transfer_id d) ''hold'';
          md = transfer_meta (ti_transfer_id d) (ti_traceparent d)
      in bindM (catch_terminal [InsufficientFunds, AccountNotActive, CurrencyMismatch, UnknownAccount]
           (move_account R (ti_source_account_id d) md
              (raiseM (DomainError UnknownAccount (str_uuid (ti_source_account_id d))))
              (account_hold (ti_amount d) op))) (\<lambda>_.
         advance_transfer R (ti_transfer_id d) md {INITIATED} mark_held))"

definition post_journal ::
  "runtime \<Rightarrow> 's repositories \<Rightarrow> transfer_input \<Rightarrow> ('s, exn, string) action" where
  "post_journal rt R d =
     (let entry_id = journal_entry_id_for rt (ti_transfer_id d);
          md = transfer_meta (ti_transfer_id d) (ti_traceparent d)
      in bindM (repo_load (journals R) entry_id) (\<lambda>found.
         bindM (if found = None
                then let legs = [leg_debit (ti_source_account_id d) (ti_amount d),
                                 leg_credit (ti_destination_account_id d) (ti_amount d)]
                     in bindM (catch_terminal [UnknownAccount, AccountNotActive, CurrencyMismatch, UnbalancedEntry]
                          (post_entry rt (repository_snapshot (accounts R)) entry_id legs
                             (Some (str_uuid (ti_transfer_id d))))) (\<lambda>entry.
                        bindM (repo_save (journals R) entry_id entry (Some md)) (\<lambda>_. returnM ()))
                else returnM ()) (\<lambda>_.
         bindM (advance_transfer R (ti_transfer_id d) md {HELD} (mark_posted entry_id)) (\<lambda>_.
         returnM (str_uuid entry_id)))))"

definition reversed_legs :: "leg list \<Rightarrow> leg list" where
  "reversed_legs legs =
     map (\<lambda>l. \<lparr>leg_account_id = leg_account_id l, leg_direction = OPPOSITE (leg_direction l),
               leg_amount = leg_amount l\<rparr>) legs"

definition reverse_journal ::
  "runtime \<Rightarrow> 's repositories \<Rightarrow> transfer_input \<Rightarrow> ('s, exn, unit) action" where
  "reverse_journal rt R d =
     (let reversal_id = journal_reversal_id_for rt (ti_transfer_id d)
      in bindM (repo_load (journals R) reversal_id) (\<lambda>found.
         if found \<noteq> None then returnM ()
         else bindM (repo_load (journals R) (journal_entry_id_for rt (ti_transfer_id d))) (\<lambda>original.
           case original of
             None \<Rightarrow> returnM ()
           | Some j \<Rightarrow>
               bindM (liftE (journal_post rt reversal_id (reversed_legs (je_legs j))
                  (Some (''reversal of '' @ str_uuid (ti_transfer_id d))))) (\<lambda>entry.
               bindM (repo_save (journals R) reversal_id entry
                  (Some (transfer_meta (ti_transfer_id d) (ti_traceparent d)))) (\<lambda>_. returnM ())))))"

definition settle_debit ::
  "runtime \<Rightarrow> 's repositories \<Rightarrow> transfer_input \<Rightarrow> ('s, exn, unit) action" where
  "settle_debit rt R d =
     (let op = operation_id rt (ti_transfer_id d) ''debit''
      in catch_terminal [InsufficientFunds, AccountNotActive, UnknownAccount]
           (move_account R (ti_source_account_id d) (transfer_meta (ti_transfer_id d) (ti_traceparent d))
              (raiseM (DomainError UnknownAccount (str_uuid (ti_source_account_id d))))
              (account_debit (ti_amount d) op)))"

definition settle_credit ::
  "runtime \<Rightarrow> 's repositories \<Rightarrow> transfer_input \<Rightarrow> ('s, exn, unit) action" where
  "settle_credit rt R d =
     (let op = operation_id rt (ti_transfer_id d) ''credit'';
          md = transfer_meta (ti_transfer_id d) (ti_traceparent d)
      in bindM (catch_terminal [AccountNotActive, UnknownAccount]
           (move_account R (ti_destination_account_id d) md
              (raiseM (DomainError UnknownAccount (str_uuid (ti_destination_account_id d))))
              (account_credit (ti_amount d) op))) (\<lambda>_.
         advance_transfer R (ti_transfer_id d) md {POSTED, NEEDS_RECONCILIATION} complete))"

definition refund_source ::
  "runtime \<Rightarrow> 's repositories \<Rightarrow> refund_input \<Rightarrow> ('s, exn, unit) action" where
  "refund_source rt R d =
     (let op = operation_id rt (ri_transfer_id d) ''refund'';
          md = transfer_meta (ri_transfer_id d) None
      in bindM (catch_terminal [AccountNotActive, UnknownAccount]
           (move_account R (ri_source_account_id d) md
              (raiseM (DomainError UnknownAccount (str_uuid (ri_source_account_id d))))
              (account_credit (ri_amount d) op))) (\<lambda>_.
         advance_transfer R (ri_transfer_id d) md {NEEDS_RECONCILIATION}
           (reconcile ''refunded'' (Some ''funds returned to source''))))"

definition release_hold ::
  "runtime \<Rightarrow> 's repositories \<Rightarrow> transfer_input \<Rightarrow> ('s, exn, unit) action" where
  "release_hold rt R d =
     (let op = operation_id rt (ti_transfer_id d) ''release''
      in move_account R (ti_source_account_id d) (transfer_meta (ti_transfer_id d) (ti_traceparent d))
           (returnM ()) (account_release_hold (ti_amount d) op))"

definition fail_transfer :: "'s repositories \<Rightarrow> fail_input \<Rightarrow> ('s, exn, unit) action" where
  "fail_transfer R d =
     advance_transfer R (fi_transfer_id d) (transfer_meta (fi_transfer_id d) None) NON_TERMINAL
       (fail (fi_reason d) (fi_detail d))"

definition park_transfer :: "'s repositories \<Rightarrow> park_input \<Rightarrow> ('s, exn, unit) action" where
  "park_transfer R d =
     advance_transfer R (pi_transfer_id d) (transfer_meta (pi_transfer_id d) None) {POSTED}
       (park_for_reconciliation (pi_detail d))"

section \<open>Every activity keeps the ledger consistent\<close>

context ledger_log
begin

abbreviation repos :: "'s repositories" where
  "repos \<equiv> build_repositories rt store ledger_registry"

lemma keeps_catch_terminal [intro]: "keeps evolves m \<Longrightarrow> keeps evolves (catch_terminal cs m)"
  unfolding catch_terminal_def
  by (intro keeps_evolves) (auto split: option.splits)

lemma keeps_move_account:
  assumes "keeps evolves miss" and "\<And>a a'. cmd a = Inr a' \<Longrightarrow> \<exists>c. run_account_command c a = Inr a'"
  shows "keeps evolves (move_account repos aid md miss cmd)"
proof -
  have "keeps evolves (returnM ())" by auto
  from acc.keeps_update [OF account_legal_change [of cmd, OF assms(2)] assms(1) this this, of aid "\<lambda>_. True"]
  show ?thesis unfolding move_account_def repositories by simp
qed

lemma keeps_advance_transfer:
  assumes "\<And>t t'. cmd t = Inr t' \<Longrightarrow> \<exists>c. run_transfer_command c t = Inr t'"
  shows "keeps evolves (advance_transfer repos tid md sts cmd)"
  unfolding advance_transfer_def repositories
  by (rule trf.keeps_update [OF transfer_legal_change [of cmd, OF assms]]) auto

lemma loaded_entry_ok:
  assumes "ok s" and load: "repo_load jrn.repo eid s = (Inr (Some j), s1)"
  shows "list_all (\<lambda>l. money_ok (leg_amount l)) (je_legs j)" and "legs_balanced (je_legs j)"
proof -
  have lok: "ledger_ok rt (log s1)"
    using assms(1) keepsD [OF jrn.keeps_load load] by (simp add: evolves_def ok_def)
  then have dec: "log_decodes rt (log s1)" by (simp add: ledger_ok_def)
  have "jrn.history eid (log s1) \<noteq> []" "jrn.replay (jrn.history eid (log s1)) = Inr j"
    using jrn.load_cases(3) [OF _ load dec] assms(1)
    by (auto split: if_splits simp: ok_def map_sum_def split: sum.splits)
  then have "journal_at rt (log s1) eid = Some j"
    by (simp add: journal_at_def jrn.history_def jrn.replay_def Let_def)
  then obtain legs ref where st: "stream_events rt JOURNAL_STREAM eid (log s1) = [JournalE (JournalEntryPosted legs ref)]"
    and bal: "legs_balanced legs" "j = stored_entry legs" using journal_at_ok [OF lok] by blast
  have "event_ok (JournalE (JournalEntryPosted legs ref))"
    using stream_events_ok [OF dec, of JOURNAL_STREAM eid] st by simp
  with bal show "list_all (\<lambda>l. money_ok (leg_amount l)) (je_legs j)" and "legs_balanced (je_legs j)"
    by (simp_all add: stored_entry_def)
qed

lemma keeps_load_journal:
  assumes "keeps evolves (f None)"
    and "\<And>j. list_all (\<lambda>l. money_ok (leg_amount l)) (je_legs j) \<Longrightarrow> legs_balanced (je_legs j) \<Longrightarrow>
      keeps evolves (f (Some j))"
  shows "keeps evolves (bindM (repo_load jrn.repo eid) f)"
  unfolding keeps_def
proof
  fix s
  obtain r s1 where load: "repo_load jrn.repo eid s = (r, s1)" by fastforce
  have e1: "evolves s s1" using keepsD [OF jrn.keeps_load load] .
  show "evolves s (snd (bindM (repo_load jrn.repo eid) f s))"
  proof (cases "ok s")
    case True
    have "evolves s1 (snd (f x s1))" if "r = Inr x" for x
    proof (cases x)
      case None
      then show ?thesis using assms(1) by (simp add: keeps_def)
    next
      case (Some j)
      then have "repo_load jrn.repo eid s = (Inr (Some j), s1)" using load that by simp
      from assms(2) [OF loaded_entry_ok [OF True this]] Some show ?thesis by (simp add: keeps_def)
    qed
    with e1 evolves_trans load show ?thesis by (cases r) (auto simp: bindM_def dest: transpD)
  qed (simp add: evolves_def)
qed

end

section \<open>Reversed entries\<close>

lemma reversed_side_total:
  "side_total DEBIT c (reversed_legs legs) = side_total CREDIT c legs"
  "side_total CREDIT c (reversed_legs legs) = side_total DEBIT c legs"
proof -
  have op: "OPPOSITE d = DEBIT \<longleftrightarrow> d = CREDIT" "OPPOSITE d = CREDIT \<longleftrightarrow> d = DEBIT" for d
    by (cases d; simp)+
  show "side_total DEBIT c (reversed_legs legs) = side_total CREDIT c legs"
    "side_total CREDIT c (reversed_legs legs) = side_total DEBIT c legs"
    by (induction legs) (simp_all add: side_total_def reversed_legs_def op)
qed

lemma reversed_legs_balanced:
  assumes "legs_balanced legs"
  shows "legs_balanced (reversed_legs legs)"
proof -
  have "legs_positive (reversed_legs legs)"
    using assms by (auto simp: legs_balanced_def legs_positive_def reversed_legs_def)
  moreover have "has_side DEBIT (reversed_legs legs)" "has_side CREDIT (reversed_legs legs)"
    using assms by (force simp: legs_balanced_def has_side_def reversed_legs_def)+
  ultimately show ?thesis
    using assms by (simp add: legs_balanced_def reversed_side_total)
qed

lemma reversed_legs_money_ok:
  "list_all (\<lambda>l. money_ok (leg_amount l)) (reversed_legs legs) = list_all (\<lambda>l. money_ok (leg_amount l)) legs"
  by (simp add: reversed_legs_def list_all_iff)

lemma account_net_reversed: "account_net aid c (reversed_legs legs) = - account_net aid c legs"
proof (induction legs)
  case Nil
  then show ?case by (simp add: account_net_def reversed_legs_def)
next
  case (Cons l legs)
  then show ?case
    by (cases "leg_direction l") (auto simp: account_net_def reversed_legs_def leg_signed_def)
qed

section \<open>Consistency of the activities\<close>

context ledger_log
begin

lemma keeps_account_commands [intro]:
  "keeps evolves miss \<Longrightarrow> keeps evolves (move_account repos aid md miss (account_hold m op))"
  "keeps evolves miss \<Longrightarrow> keeps evolves (move_account repos aid md miss (account_debit m op))"
  "keeps evolves miss \<Longrightarrow> keeps evolves (move_account repos aid md miss (account_credit m op))"
  "keeps evolves miss \<Longrightarrow> keeps evolves (move_account repos aid md miss (account_release_hold m op))"
  by (rule keeps_move_account, assumption, metis run_account_command.simps)+

lemma keeps_transfer_commands [intro]:
  "keeps evolves (advance_transfer repos tid md sts mark_held)"
  "keeps evolves (advance_transfer repos tid md sts (mark_posted eid))"
  "keeps evolves (advance_transfer repos tid md sts complete)"
  "keeps evolves (advance_transfer repos tid md sts (fail r dt))"
  "keeps evolves (advance_transfer repos tid md sts (park_for_reconciliation dd))"
  "keeps evolves (advance_transfer repos tid md sts (reconcile rr dt))"
  by (rule keeps_advance_transfer, metis run_transfer_command.simps)+

lemma keeps_snapshot [intro]: "keeps evolves (repository_snapshot acc.repo aid)"
  unfolding repository_snapshot_def by (intro keeps_evolves acc.keeps_load) (auto split: option.splits)

lemma keeps_foldM:
  assumes "\<And>b x. keeps evolves (f b x)"
  shows "keeps evolves (foldM f b xs)"
  by (induction xs arbitrary: b) (auto intro: assms)

lemma keeps_post_entry [intro]: "keeps evolves (post_entry rt (repository_snapshot acc.repo) eid legs ref)"
proof -
  have "keeps evolves (resolve_account (repository_snapshot acc.repo) d aid)" for d aid
    unfolding resolve_account_def by (intro keeps_evolves keeps_snapshot) (auto split: option.splits)
  then show ?thesis
    unfolding post_entry_def resolve_accounts_def by (intro keeps_evolves keeps_foldM)
qed

lemma yields_post_entry:
  "yields (\<lambda>j. journal_post rt eid legs ref = Inr j) (catch_terminal cs (post_entry rt snap eid legs ref))"
  unfolding catch_terminal_def post_entry_def
  by (intro yields_catchM yields_bindM yields_liftE) (auto simp: yields_raiseM split: option.splits)

lemma keeps_post_and_save:
  assumes "set_order_ok rt" and "list_all (\<lambda>l. money_ok (leg_amount l)) legs"
    and "keeps evolves m" and "yields (\<lambda>j. journal_post rt eid legs ref = Inr j) m"
  shows "keeps evolves (bindM m (\<lambda>entry. bindM (repo_save jrn.repo eid entry md) (\<lambda>_. returnM ())))"
  using evolves_trans assms(3,4)
proof (rule keeps_bindM_yields)
  fix j assume "journal_post rt eid legs ref = Inr j"
  then have "legs_balanced legs" "agg_pending j = [JournalE (JournalEntryPosted legs ref)]" "agg_version j = 1"
    by (simp_all add: journal_post_eq_Inr [OF assms(1)])
  then have "keeps evolves (repo_save jrn.repo eid j md)" by (intro keeps_save_journal [OF _ assms(2)])
  then show "keeps evolves (bindM (repo_save jrn.repo eid j md) (\<lambda>_. returnM ()))" by auto
qed

lemma keeps_record_initiated:
  assumes "input_ok d"
  shows "keeps evolves (record_initiated rt repos d)"
proof -
  let ?init = "transfer_initiate (ti_transfer_id d) (ti_source_account_id d) (ti_destination_account_id d)
    (ti_amount d) (ti_reversal_of d)"
  have y: "yields (\<lambda>t. ?init = Inr t) (catch_terminal [SameAccountTransfer, InvalidAmount] (liftE ?init))"
    unfolding catch_terminal_def
    by (intro yields_catchM yields_liftE) (auto simp: yields_raiseM split: option.splits)
  have "keeps evolves (bindM (catch_terminal [SameAccountTransfer, InvalidAmount] (liftE ?init)) (\<lambda>t.
      bindM (repo_save trf.repo (ti_transfer_id d) t md) (\<lambda>_. returnM ())))" for md
    using evolves_trans _ y
  proof (rule keeps_bindM_yields)
    fix t assume "?init = Inr t"
    then have "keeps evolves (repo_save trf.repo (ti_transfer_id d) t md)"
      using assms by (intro keeps_save_transfer) (simp_all add: input_ok_def)
    then show "keeps evolves (bindM (repo_save trf.repo (ti_transfer_id d) t md) (\<lambda>_. returnM ()))" by auto
  qed auto
  then show ?thesis
    unfolding record_initiated_def repositories by (intro keeps_evolves trf.keeps_load) auto
qed

lemma keeps_post_journal:
  assumes "set_order_ok rt" and "input_ok d"
  shows "keeps evolves (post_journal rt repos d)"
  unfolding post_journal_def repositories Let_def
proof (intro keeps_evolves jrn.keeps_load keeps_transfer_commands)
  fix found :: "journal_entry option"
  let ?legs = "[leg_debit (ti_source_account_id d) (ti_amount d), leg_credit (ti_destination_account_id d) (ti_amount d)]"
  have "list_all (\<lambda>l. money_ok (leg_amount l)) ?legs"
    using assms(2) by (simp add: leg_debit_def leg_credit_def input_ok_def)
  from keeps_post_and_save [OF assms(1) this keeps_catch_terminal [OF keeps_post_entry] yields_post_entry]
  show "keeps evolves (if found = None
      then bindM (catch_terminal [UnknownAccount, AccountNotActive, CurrencyMismatch, UnbalancedEntry]
          (post_entry rt (repository_snapshot acc.repo) (journal_entry_id_for rt (ti_transfer_id d)) ?legs
            (Some (str_uuid (ti_transfer_id d)))))
        (\<lambda>entry. bindM (repo_save jrn.repo (journal_entry_id_for rt (ti_transfer_id d)) entry
            (Some (transfer_meta (ti_transfer_id d) (ti_traceparent d)))) (\<lambda>_. returnM ()))
      else returnM ())"
    by auto
qed

lemma keeps_reverse_journal:
  assumes "set_order_ok rt"
  shows "keeps evolves (reverse_journal rt repos d)"
proof -
  let ?rid = "journal_reversal_id_for rt (ti_transfer_id d)"
  have post: "keeps evolves (bindM (liftE (journal_post rt ?rid (reversed_legs (je_legs j)) ref))
      (\<lambda>entry. bindM (repo_save jrn.repo ?rid entry md) (\<lambda>_. returnM ())))"
    if "list_all (\<lambda>l. money_ok (leg_amount l)) (je_legs j)" for j :: journal_entry and ref md
    using that
    by (intro keeps_post_and_save [OF assms, of "reversed_legs (je_legs j)"] yields_liftE)
      (auto simp: reversed_legs_money_ok)
  have inner: "keeps evolves (bindM (repo_load jrn.repo eid) (\<lambda>original. case original of None \<Rightarrow> returnM ()
      | Some j \<Rightarrow> bindM (liftE (journal_post rt ?rid (reversed_legs (je_legs j)) ref))
          (\<lambda>entry. bindM (repo_save jrn.repo ?rid entry md) (\<lambda>_. returnM ()))))" for eid ref md
    by (rule keeps_load_journal) (use post in auto)
  show ?thesis
    unfolding reverse_journal_def repositories Let_def
    by (intro keeps_evolves jrn.keeps_load) (use inner in auto)
qed

lemma keeps_activities:
  "keeps evolves (hold_funds rt repos d)" "keeps evolves (settle_debit rt repos d)"
  "keeps evolves (settle_credit rt repos d)" "keeps evolves (refund_source rt repos rd)"
  "keeps evolves (release_hold rt repos d)" "keeps evolves (fail_transfer repos fd)"
  "keeps evolves (park_transfer repos pd)"
  unfolding hold_funds_def settle_debit_def settle_credit_def refund_source_def release_hold_def
    fail_transfer_def park_transfer_def Let_def
  by (intro keeps_evolves keeps_catch_terminal keeps_account_commands keeps_transfer_commands)+

end

end
