(* ===== verification/Workflow.thy ===== *)
theory Workflow
  imports Activities
begin

text \<open>
  The transfer saga, \<^verbatim>\<open>src/src/ledger/temporal/workflows/transfer_workflow.py\<close>. The Temporal
  service that executes activities is not part of the repository: it is the parameter \<open>drv\<close>, a
  function from the attempt limit and the activity call to an action that returns the
  activity's value or the \<open>ActivityError\<close> the workflow sees. What the code relies on is stated
  by \<open>temporal_contract\<close> (a run of at least one and at most the permitted number of attempts, some
  of whose results may be lost) and \<open>temporal_prompt\<close> (no attempt is lost). The workflow object's
  fields and the local variables of \<open>run\<close> that survive an exception are one record; operator
  signals are the list of decisions the wait condition will see.
\<close>

section \<open>Activity calls and failures\<close>

datatype activity_call =
    RecordInitiated transfer_input
  | HoldFunds transfer_input
  | PostJournal transfer_input
  | ReverseJournal transfer_input
  | SettleDebit transfer_input
  | SettleCredit transfer_input
  | RefundSource refund_input
  | ReleaseHold_act transfer_input
  | FailTransfer fail_input
  | ParkTransfer park_input

datatype activity_value = NoneV | StrV string

definition unitV :: "('s, exn, unit) action \<Rightarrow> ('s, exn, activity_value) action" where
  "unitV m = bindM m (\<lambda>_. returnM NoneV)"

text \<open>The registered activities, as \<open>all_activities\<close> lists them.\<close>

fun run_activity ::
  "runtime \<Rightarrow> 's repositories \<Rightarrow> activity_call \<Rightarrow> ('s, exn, activity_value) action" where
  "run_activity rt R (RecordInitiated d) = unitV (record_initiated rt R d)"
| "run_activity rt R (HoldFunds d) = unitV (hold_funds rt R d)"
| "run_activity rt R (PostJournal d) = bindM (post_journal rt R d) (\<lambda>eid. returnM (StrV eid))"
| "run_activity rt R (ReverseJournal d) = unitV (reverse_journal rt R d)"
| "run_activity rt R (SettleDebit d) = unitV (settle_debit rt R d)"
| "run_activity rt R (SettleCredit d) = unitV (settle_credit rt R d)"
| "run_activity rt R (RefundSource d) = unitV (refund_source rt R d)"
| "run_activity rt R (ReleaseHold_act d) = unitV (release_hold rt R d)"
| "run_activity rt R (FailTransfer d) = unitV (fail_transfer R d)"
| "run_activity rt R (ParkTransfer d) = unitV (park_transfer R d)"

text \<open>
  The cause of an \<open>ActivityError\<close>: an \<open>ApplicationError\<close> (message, type), anything else (its
  text, for example a timeout), or none.
\<close>

datatype activity_failure =
    ApplicationCause string "string option"
  | OtherCause string
  | NoCause string

definition reason_from :: "activity_failure \<Rightarrow> failure_reason \<times> string" where
  "reason_from err =
     (case err of
        ApplicationCause detail app_type \<Rightarrow>
          (case app_type of
             None \<Rightarrow> (CONFLICT, detail)
           | Some ty \<Rightarrow>
               if ty \<in> {''conflict'', ''ConcurrencyConflict''} then (CONFLICT, detail)
               else (case FailureReason ty of
                       Inr r \<Rightarrow> (r, detail)
                     | Inl _ \<Rightarrow> (OTHER, detail)))
      | OtherCause txt \<Rightarrow> (OTHER, txt)
      | NoCause txt \<Rightarrow> (OTHER, txt))"

section \<open>The workflow object\<close>

record 's workflow =
  wf_world :: 's
  wf_status :: transfer_status
  wf_failure :: "failure_reason option"
  wf_resolution :: "reconciliation_resolution option"
  wf_holding :: bool
  wf_posted :: bool
  wf_signals :: "reconciliation_resolution list"

definition workflow_init :: "'s \<Rightarrow> reconciliation_resolution list \<Rightarrow> 's workflow" where
  "workflow_init s signals =
     \<lparr>wf_world = s, wf_status = INITIATED, wf_failure = None, wf_resolution = None,
      wf_holding = False, wf_posted = False, wf_signals = signals\<rparr>"

definition current_status :: "'s workflow \<Rightarrow> string" where
  "current_status w = transfer_status_value (wf_status w)"

definition workflow_failure_reason :: "'s workflow \<Rightarrow> string option" where
  "workflow_failure_reason w = map_option failure_reason_value (wf_failure w)"

definition resolve_reconciliation :: "reconciliation_resolution \<Rightarrow> 's workflow \<Rightarrow> 's workflow" where
  "resolve_reconciliation decision w = w\<lparr>wf_resolution := Some decision\<rparr>"

text \<open>
  How a run of the workflow code can be left without a result: an \<open>ActivityError\<close> that is not
  caught, a \<open>ValueError\<close> of \<open>UUID(...)\<close>, or not at all, because the workflow waits for a signal
  that has not come.
\<close>

datatype workflow_exn =
    ActivityError activity_failure
  | UuidValueError
  | AwaitingSignal

type_synonym 's driver = "nat \<Rightarrow> activity_call \<Rightarrow> ('s, activity_failure, activity_value) action"

definition DEFAULT_RETRY :: nat where
  "DEFAULT_RETRY = 5"

definition CREDIT_RETRY :: nat where
  "CREDIT_RETRY = 3"

definition execute ::
  "'s driver \<Rightarrow> nat \<Rightarrow> activity_call \<Rightarrow> ('s workflow, workflow_exn, activity_value) action" where
  "execute drv attempts call =
     (\<lambda>w. case drv attempts call (wf_world w) of
        (Inl err, s) \<Rightarrow> (Inl (ActivityError err), w\<lparr>wf_world := s\<rparr>)
      | (Inr x, s) \<Rightarrow> (Inr x, w\<lparr>wf_world := s\<rparr>))"

definition assign :: "('s workflow \<Rightarrow> 's workflow) \<Rightarrow> ('s workflow, workflow_exn, unit) action" where
  "assign f = (\<lambda>w. (Inr (), f w))"

text \<open>\<open>try: m except ActivityError as err: h(err)\<close>.\<close>

definition catch_activity ::
  "('s workflow, workflow_exn, 'a) action \<Rightarrow> (activity_failure \<Rightarrow> ('s workflow, workflow_exn, 'a) action) \<Rightarrow>
   ('s workflow, workflow_exn, 'a) action" where
  "catch_activity m h = catchM m (\<lambda>e. case e of ActivityError err \<Rightarrow> h err | _ \<Rightarrow> raiseM e)"

text \<open>\<open>UUID(entry_id)\<close> on what an activity returned.\<close>

definition uuid_of_value :: "activity_value \<Rightarrow> ('s workflow, workflow_exn, uuid) action" where
  "uuid_of_value x =
     (case x of
        StrV txt \<Rightarrow> (case UUID txt of Inr u \<Rightarrow> returnM u | Inl _ \<Rightarrow> raiseM UuidValueError)
      | NoneV \<Rightarrow> raiseM UuidValueError)"

section \<open>The saga\<close>

text \<open>\<open>TransferResult\<close> with a journal entry, as both successful ends build it.\<close>

definition settled_result ::
  "transfer_input \<Rightarrow> activity_value \<Rightarrow> string option \<Rightarrow> ('s workflow, workflow_exn, transfer_result) action" where
  "settled_result d entry_id detail =
     (\<lambda>w. bindM (uuid_of_value entry_id) (\<lambda>eid.
        returnM \<lparr>res_transfer_id = ti_transfer_id d, res_status = wf_status w,
                 res_journal_entry_id = Some eid, res_failure_reason = None, res_detail = detail\<rparr>) w)"

text \<open>The \<open>while True\<close> loop of \<open>_await_resolution\<close>: one decision per round.\<close>

primrec resolution_loop ::
  "'s driver \<Rightarrow> transfer_input \<Rightarrow> activity_value \<Rightarrow> reconciliation_resolution list \<Rightarrow>
   ('s workflow, workflow_exn, transfer_result) action" where
  "resolution_loop drv d entry_id [] = raiseM AwaitingSignal"
| "resolution_loop drv d entry_id (decision # later) =
     bindM (assign (\<lambda>w. w\<lparr>wf_resolution := None, wf_signals := later\<rparr>)) (\<lambda>_.
       if decision = RETRY_CREDIT
       then bindM (catch_activity
              (bindM (execute drv CREDIT_RETRY (SettleCredit d)) (\<lambda>_. returnM True))
              (\<lambda>_. returnM False)) (\<lambda>credited.
            if credited
            then bindM (assign (\<lambda>w. w\<lparr>wf_status := COMPLETED\<rparr>)) (\<lambda>_. settled_result d entry_id None)
            else resolution_loop drv d entry_id later)
       else bindM (catch_activity
              (bindM (execute drv DEFAULT_RETRY (RefundSource
                 \<lparr>ri_transfer_id = ti_transfer_id d, ri_source_account_id = ti_source_account_id d,
                  ri_amount = ti_amount d\<rparr>)) (\<lambda>_. returnM True))
              (\<lambda>_. returnM False)) (\<lambda>refunded.
            if refunded
            then bindM (assign (\<lambda>w. w\<lparr>wf_status := RECONCILED\<rparr>)) (\<lambda>_.
                 settled_result d entry_id (Some ''refunded to source''))
            else resolution_loop drv d entry_id later))"

definition await_resolution ::
  "'s driver \<Rightarrow> transfer_input \<Rightarrow> activity_value \<Rightarrow> ('s workflow, workflow_exn, transfer_result) action" where
  "await_resolution drv d entry_id =
     bindM (assign (\<lambda>w. w\<lparr>wf_status := NEEDS_RECONCILIATION\<rparr>)) (\<lambda>_ w.
       resolution_loop drv d entry_id
         ((case wf_resolution w of Some decision \<Rightarrow> [decision] | None \<Rightarrow> []) @ wf_signals w) w)"

text \<open>The \<open>try\<close> body of \<open>run\<close>.\<close>

definition saga_steps_body ::
  "'s driver \<Rightarrow> transfer_input \<Rightarrow> ('s workflow, workflow_exn, transfer_result) action" where
  "saga_steps_body drv d =
     bindM (execute drv DEFAULT_RETRY (HoldFunds d)) (\<lambda>_.
     bindM (assign (\<lambda>w. w\<lparr>wf_status := HELD, wf_holding := True\<rparr>)) (\<lambda>_.
     bindM (execute drv DEFAULT_RETRY (PostJournal d)) (\<lambda>entry_id.
     bindM (assign (\<lambda>w. w\<lparr>wf_status := POSTED, wf_posted := True\<rparr>)) (\<lambda>_.
     bindM (execute drv DEFAULT_RETRY (SettleDebit d)) (\<lambda>_.
     bindM (assign (\<lambda>w. w\<lparr>wf_holding := False\<rparr>)) (\<lambda>_.
     bindM (catch_activity
        (bindM (execute drv CREDIT_RETRY (SettleCredit d)) (\<lambda>_. returnM None))
        (\<lambda>credit_err.
           bindM (execute drv DEFAULT_RETRY (ParkTransfer
              \<lparr>pi_transfer_id = ti_transfer_id d,
               pi_detail = ''credit failed after debit: '' @ snd (reason_from credit_err)\<rparr>)) (\<lambda>_.
           bindM (await_resolution drv d entry_id) (\<lambda>res. returnM (Some res))))) (\<lambda>parked.
     case parked of
       Some res \<Rightarrow> returnM res
     | None \<Rightarrow>
         bindM (assign (\<lambda>w. w\<lparr>wf_status := COMPLETED\<rparr>)) (\<lambda>_. settled_result d entry_id None))))))))"

text \<open>The \<open>except ActivityError\<close> handler of \<open>run\<close>.\<close>

definition compensate ::
  "'s driver \<Rightarrow> transfer_input \<Rightarrow> activity_failure \<Rightarrow> ('s workflow, workflow_exn, transfer_result) action" where
  "compensate drv d err =
     (\<lambda>w. let (reason, detail) = reason_from err
         in bindM (if wf_holding w then bindM (execute drv DEFAULT_RETRY (ReleaseHold_act d)) (\<lambda>_. returnM ())
                     else returnM ()) (\<lambda>_.
            bindM (if wf_posted w then bindM (execute drv DEFAULT_RETRY (ReverseJournal d)) (\<lambda>_. returnM ())
                   else returnM ()) (\<lambda>_.
            bindM (execute drv DEFAULT_RETRY (FailTransfer
               \<lparr>fi_transfer_id = ti_transfer_id d, fi_reason = reason, fi_detail = Some detail\<rparr>)) (\<lambda>_.
            bindM (assign (\<lambda>w. w\<lparr>wf_status := FAILED, wf_failure := Some reason\<rparr>)) (\<lambda>_.
            returnM \<lparr>res_transfer_id = ti_transfer_id d, res_status = FAILED, res_journal_entry_id = None,
                     res_failure_reason = Some reason, res_detail = Some detail\<rparr>)))) w)"

definition workflow_run ::
  "'s driver \<Rightarrow> transfer_input \<Rightarrow> ('s workflow, workflow_exn, transfer_result) action" where
  "workflow_run drv d =
     bindM (execute drv DEFAULT_RETRY (RecordInitiated d)) (\<lambda>_.
     bindM (assign (\<lambda>w. w\<lparr>wf_holding := False, wf_posted := False\<rparr>)) (\<lambda>_.
       catch_activity (saga_steps_body drv d) (compensate drv d)))"

section \<open>What the service promises\<close>

text \<open>
  How an exception that leaves an activity appears as the cause of the \<open>ActivityError\<close>: the SDK
  keeps an \<open>ApplicationError\<close> and wraps any other exception in one whose type is the class name.
\<close>

fun domain_class_name :: "domain_class \<Rightarrow> string" where
  "domain_class_name DomainErrorBase = ''DomainError''"
| "domain_class_name CurrencyMismatch = ''CurrencyMismatch''"
| "domain_class_name InvalidAmount = ''InvalidAmount''"
| "domain_class_name InsufficientFunds = ''InsufficientFunds''"
| "domain_class_name AccountNotActive = ''AccountNotActive''"
| "domain_class_name InvalidTransition = ''InvalidTransition''"
| "domain_class_name UnbalancedEntry = ''UnbalancedEntry''"
| "domain_class_name UnknownAccount = ''UnknownAccount''"
| "domain_class_name SameAccountTransfer = ''SameAccountTransfer''"
| "domain_class_name AccountNotEmpty = ''AccountNotEmpty''"
| "domain_class_name NotFound = ''NotFound''"

fun exn_type_name :: "exn \<Rightarrow> string" where
  "exn_type_name (DomainError c _) = domain_class_name c"
| "exn_type_name (ConcurrencyConflict _ _ _ _) = ''ConcurrencyConflict''"
| "exn_type_name (UnknownEventType _) = ''UnknownEventType''"
| "exn_type_name ValidationError = ''ValidationError''"
| "exn_type_name KeyError = ''KeyError''"
| "exn_type_name IndexError = ''IndexError''"
| "exn_type_name TypeError = ''TypeError''"
| "exn_type_name (ValueError _) = ''ValueError''"
| "exn_type_name (ApplicationError _ _ _) = ''ApplicationError''"
| "exn_type_name (RuntimeError _) = ''RuntimeError''"
| "exn_type_name (InfrastructureError _) = ''InfrastructureError''"

definition failure_of :: "(exn \<Rightarrow> string) \<Rightarrow> exn \<Rightarrow> activity_failure" where
  "failure_of estr e =
     (case e of
        ApplicationError msg ty _ \<Rightarrow> ApplicationCause msg ty
      | _ \<Rightarrow> ApplicationCause (estr e) (Some (exn_type_name e)))"

definition non_retryable :: "exn \<Rightarrow> bool" where
  "non_retryable e \<longleftrightarrow> (case e of ApplicationError _ _ nr \<Rightarrow> nr | _ \<Rightarrow> False)"

text \<open>
  Executing an activity with at most \<open>n\<close> attempts: the first attempt that returns gives the
  value, a non-retryable error or the last attempt's error gives the failure. An attempt whose
  worker or connection dies is lost: what it did to the store stays, its result does not. A worker
  may also die before the activity does anything.
\<close>

inductive attempts ::
  "(exn \<Rightarrow> string) \<Rightarrow> ('s, exn, 'v) action \<Rightarrow> nat \<Rightarrow> 's \<Rightarrow> (activity_failure + 'v) \<times> 's \<Rightarrow> bool"
  for estr act where
  returned: "act s = (Inr x, s') \<Longrightarrow> attempts estr act (Suc n) s (Inr x, s')"
| stopped: "act s = (Inl e, s') \<Longrightarrow> non_retryable e \<or> n = 0 \<Longrightarrow>
    attempts estr act (Suc n) s (Inl (failure_of estr e), s')"
| retried: "act s = (Inl e, s') \<Longrightarrow> \<not> non_retryable e \<Longrightarrow> attempts estr act n s' res \<Longrightarrow>
    attempts estr act (Suc n) s res"
| lost: "act s = (r, s') \<Longrightarrow> attempts estr act n s' res \<Longrightarrow> attempts estr act (Suc n) s res"
| lost_last: "act s = (r, s') \<Longrightarrow> attempts estr act (Suc 0) s (Inl (OtherCause msg), s')"
| crashed: "attempts estr act n s res \<Longrightarrow> attempts estr act (Suc n) s res"
| crashed_last: "attempts estr act (Suc 0) s (Inl (OtherCause msg), s)"

definition temporal_contract ::
  "runtime \<Rightarrow> 's repositories \<Rightarrow> (exn \<Rightarrow> string) \<Rightarrow> 's driver \<Rightarrow> bool" where
  "temporal_contract rt R estr drv \<longleftrightarrow>
     (\<forall>n call s. 0 < n \<longrightarrow> attempts estr (run_activity rt R call) n s (drv n call s))"

text \<open>The same when no attempt is lost: a loop.\<close>

fun attempt_loop ::
  "(exn \<Rightarrow> string) \<Rightarrow> ('s, exn, 'v) action \<Rightarrow> nat \<Rightarrow> ('s, activity_failure, 'v) action" where
  "attempt_loop estr act 0 s = (Inl (NoCause ''''), s)"
| "attempt_loop estr act (Suc n) s =
     (case act s of
        (Inr x, s') \<Rightarrow> (Inr x, s')
      | (Inl e, s') \<Rightarrow>
          if non_retryable e \<or> n = 0 then (Inl (failure_of estr e), s')
          else attempt_loop estr act n s')"

definition temporal_prompt ::
  "runtime \<Rightarrow> 's repositories \<Rightarrow> (exn \<Rightarrow> string) \<Rightarrow> 's driver \<Rightarrow> bool" where
  "temporal_prompt rt R estr drv \<longleftrightarrow>
     (\<forall>n call s. 0 < n \<longrightarrow> drv n call s = attempt_loop estr (run_activity rt R call) n s)"

lemma attempt_loop_attempts: "0 < n \<Longrightarrow> attempts estr act n s (attempt_loop estr act n s)"
proof (induction estr act n s rule: attempt_loop.induct)
  case (2 estr act n s)
  show ?case
  proof (cases "act s")
    case (Pair r s')
    show ?thesis
    proof (cases r)
      case (Inl e)
      show ?thesis
      proof (cases "non_retryable e \<or> n = 0")
        case True
        with Pair Inl show ?thesis by (auto intro: attempts.stopped)
      next
        case False
        with Pair Inl 2 show ?thesis by (auto intro: attempts.retried)
      qed
    qed (use Pair in \<open>auto intro: attempts.returned\<close>)
  qed
qed simp

lemma temporal_prompt_contract: "temporal_prompt rt R estr drv \<Longrightarrow> temporal_contract rt R estr drv"
  by (simp add: temporal_prompt_def temporal_contract_def attempt_loop_attempts)

lemma attempts_keep:
  "attempts estr act n s res \<Longrightarrow> keeps P act \<Longrightarrow> reflp P \<Longrightarrow> transp P \<Longrightarrow> P s (snd res)"
proof (induction rule: attempts.induct)
  case (retried s e s' n res)
  then show ?case by (auto dest!: keepsD [of P act s] dest: transpD)
next
  case (lost s r s' n res)
  then show ?case by (auto dest!: keepsD [of P act s] dest: transpD)
qed (auto dest: keepsD simp: reflp_def)

section \<open>A relation every activity respects is respected by the saga\<close>

fun call_ok :: "activity_call \<Rightarrow> bool" where
  "call_ok (RecordInitiated d) = input_ok d"
| "call_ok (PostJournal d) = input_ok d"
| "call_ok _ = True"

definition on_world :: "('s \<Rightarrow> 's \<Rightarrow> bool) \<Rightarrow> 's workflow \<Rightarrow> 's workflow \<Rightarrow> bool" where
  "on_world P w w' \<longleftrightarrow> P (wf_world w) (wf_world w')"

lemma keeps_at_state: "(\<And>w0. keeps P (m w0)) \<Longrightarrow> keeps P (\<lambda>w. m w w)"
  by (simp add: keeps_def)

locale saga_relation =
  fixes P :: "'s \<Rightarrow> 's \<Rightarrow> bool" and drv :: "'s driver"
  assumes P_refl: "reflp P" and P_trans: "transp P"
    and drv_keeps: "0 < n \<Longrightarrow> call_ok call \<Longrightarrow> keeps P (drv n call)"
begin

lemma world_preorder: "reflp (on_world P)" "transp (on_world P)"
  using P_refl P_trans by (auto simp: reflp_def transp_def on_world_def)

lemmas keeps_world [intro] =
  keeps_pure [OF world_preorder(1)] keeps_bindM [OF world_preorder(2)] keeps_catchM [OF world_preorder(2)]

lemma keeps_execute [intro]:
  assumes "0 < n" and "call_ok call"
  shows "keeps (on_world P) (execute drv n call)"
  using drv_keeps [OF assms]
  by (auto simp: keeps_def on_world_def execute_def split: prod.splits sum.splits) (metis snd_conv)+

lemma keeps_assign [intro]:
  assumes "\<And>w. wf_world (f w) = wf_world w"
  shows "keeps (on_world P) (assign f)"
  using assms P_refl by (simp add: keeps_def on_world_def assign_def reflp_def)

lemma keeps_catch_activity [intro]:
  "keeps (on_world P) m \<Longrightarrow> (\<And>e. keeps (on_world P) (h e)) \<Longrightarrow> keeps (on_world P) (catch_activity m h)"
  unfolding catch_activity_def by (intro keeps_world) (simp_all add: keeps_world split: workflow_exn.splits)

lemma keeps_settled_result [intro]: "keeps (on_world P) (settled_result d entry detail)"
proof -
  have "keeps (on_world P) (uuid_of_value entry)"
    unfolding uuid_of_value_def
    by (cases entry) (simp_all only: activity_value.case keeps_world split: sum.splits, blast)
  then show ?thesis unfolding settled_result_def by (rule keeps_at_state [OF keeps_bindM [OF world_preorder(2)]]) (rule keeps_world)
qed

lemma retry_limits [simp]: "0 < DEFAULT_RETRY" "0 < CREDIT_RETRY"
  by (simp_all add: DEFAULT_RETRY_def CREDIT_RETRY_def)

lemma keeps_finish:
  "keeps (on_world P) (bindM (assign (\<lambda>w. w\<lparr>wf_status := st\<rparr>)) (\<lambda>_. settled_result d entry dt))"
  by (intro keeps_world keeps_assign keeps_settled_result) simp

lemma keeps_attempted:
  assumes "0 < n" and "call_ok call"
  shows "keeps (on_world P) (catch_activity (bindM (execute drv n call) (\<lambda>_. returnM True)) (\<lambda>_. returnM False))"
  by (intro keeps_catch_activity keeps_world keeps_execute assms)

lemma keeps_resolution_loop [intro]: "keeps (on_world P) (resolution_loop drv d entry ds)"
proof (induction ds)
  case Nil
  show ?case unfolding resolution_loop.simps by (rule keeps_world)
next
  case (Cons decision ds)
  have "keeps (on_world P) (if b then bindM (assign (\<lambda>w. w\<lparr>wf_status := st\<rparr>)) (\<lambda>_. settled_result d entry dt)
      else resolution_loop drv d entry ds)" for b st dt
    using Cons.IH keeps_finish by (cases b) simp_all
  moreover have "keeps (on_world P) (assign (\<lambda>w. w\<lparr>wf_resolution := None, wf_signals := ds\<rparr>))"
    by (intro keeps_assign) simp
  moreover note retry_limits call_ok.simps
  ultimately show ?case
    unfolding resolution_loop.simps
    by (cases "decision = RETRY_CREDIT")
      (simp_all only: if_True if_False simp_thms, (intro keeps_world keeps_attempted; simp)+)
qed

lemma keeps_await [intro]: "keeps (on_world P) (await_resolution drv d entry)"
  unfolding await_resolution_def
  by (rule keeps_bindM [OF world_preorder(2) keeps_assign keeps_at_state [OF keeps_resolution_loop]]) simp

lemma keeps_body:
  assumes "input_ok d"
  shows "keeps (on_world P) (saga_steps_body drv d)"
  unfolding saga_steps_body_def
proof (intro keeps_world keeps_execute keeps_assign keeps_catch_activity keeps_await)
  fix entry parked
  show "keeps (on_world P) (case parked of Some res \<Rightarrow> returnM res | None \<Rightarrow>
      bindM (assign (\<lambda>w. w\<lparr>wf_status := COMPLETED\<rparr>)) (\<lambda>_. settled_result d entry None))"
    using keeps_finish by (cases parked) (simp_all add: keeps_world)
qed (use assms in simp_all)

lemma keeps_compensate: "keeps (on_world P) (compensate drv d err)"
proof -
  have step: "keeps (on_world P) (if b then bindM (execute drv DEFAULT_RETRY call) (\<lambda>_. returnM ()) else returnM ())"
    if "call_ok call" for b call
  proof (cases b)
    case True
    with that show ?thesis unfolding if_P [OF True] by (intro keeps_world keeps_execute) simp_all
  next
    case False
    show ?thesis unfolding if_not_P [OF False] by (rule keeps_world)
  qed
  show ?thesis
    unfolding compensate_def Let_def case_prod_beta
    by (rule keeps_at_state) (intro keeps_world step keeps_execute keeps_assign; simp)
qed

lemma keeps_workflow:
  assumes "input_ok d"
  shows "keeps (on_world P) (workflow_run drv d)"
  unfolding workflow_run_def
  using assms by (intro keeps_world keeps_execute keeps_assign keeps_catch_activity keeps_body keeps_compensate) simp_all

end

context ledger_log
begin

lemma keeps_run_activity:
  assumes "set_order_ok rt" and "call_ok call"
  shows "keeps evolves (run_activity rt repos call)"
  using assms keeps_activities keeps_record_initiated keeps_post_journal keeps_reverse_journal
  by (cases call) (auto simp: unitV_def)

lemma saga_relation_evolves:
  assumes "set_order_ok rt" and "temporal_contract rt repos estr drv"
  shows "saga_relation evolves drv"
proof
  fix n :: nat and call
  assume "0 < n" "call_ok call"
  then have "attempts estr (run_activity rt repos call) n s (drv n call s)" for s
    using assms(2) by (simp add: temporal_contract_def)
  then show "keeps evolves (drv n call)"
    unfolding keeps_def
    using attempts_keep [OF _ keeps_run_activity [OF assms(1) \<open>call_ok call\<close>] evolves_refl evolves_trans] by blast
qed (rule evolves_refl evolves_trans)+

lemma workflow_evolves:
  assumes "set_order_ok rt" and "temporal_contract rt repos estr drv" and "input_ok d"
    and "ok (wf_world w)" and "workflow_run drv d w = (r, w')"
  shows "ok (wf_world w') \<and> ledger_steps rt (log (wf_world w)) (log (wf_world w'))"
  using keepsD [OF saga_relation.keeps_workflow [OF saga_relation_evolves [OF assms(1,2)] assms(3)] assms(5)]
    assms(4) by (simp add: on_world_def evolves_def)

end

text \<open>The retry loop as a driver, on the program's own activities.\<close>

definition temporal_execute :: "runtime \<Rightarrow> 's repositories \<Rightarrow> (exn \<Rightarrow> string) \<Rightarrow> 's driver" where
  "temporal_execute rt R estr n call = attempt_loop estr (run_activity rt R call) n"

lemma temporal_execute_prompt: "temporal_prompt rt R estr (temporal_execute rt R estr)"
  by (simp add: temporal_prompt_def temporal_execute_def)

interpretation plain_saga: saga_relation "plain_memory.evolves"
  "temporal_execute plain_runtime
     (build_repositories plain_runtime (memory_store plain_runtime ledger_registry) ledger_registry) exn_type_name"
  by (rule plain_memory.saga_relation_evolves [OF _ temporal_prompt_contract [OF temporal_execute_prompt]]) simp

section \<open>Properties\<close>

text \<open>
  C2. The saga keeps the ledger consistent, whatever fails: on a store whose other clients make only
  legal steps, with an execution service that may lose or repeat attempts, every run of the
  workflow moves a consistent log along legal steps only, to a consistent log. Every stream is then
  again a history its aggregate can record, whether the run returned, raised or still waits.
\<close>

theorem saga_keeps_ledger_consistent:
  assumes "ledger_log rt store log invar rely" and "set_order_ok rt" and "input_ok d"
    and "temporal_contract rt (build_repositories rt store ledger_registry) estr drv"
    and "invar s" and "ledger_ok rt (log s)"
  shows "case workflow_run drv d (workflow_init s signals) of (r, w') \<Rightarrow>
    invar (wf_world w') \<and> ledger_ok rt (log (wf_world w')) \<and> ledger_steps rt (log s) (log (wf_world w'))"
proof -
  obtain r w' where run: "workflow_run drv d (workflow_init s signals) = (r, w')" by fastforce
  from ledger_log.workflow_evolves [OF assms(1,2,4,3) _ run] assms(5,6) run show ?thesis
    by (simp add: ledger_log.ok_def [OF assms(1)] workflow_init_def)
qed

theorem saga_keeps_ledger_consistent_witness:
  "case workflow_run (temporal_execute plain_runtime (memory_repositories plain_runtime) exn_type_name)
     \<lparr>ti_transfer_id = 5, ti_source_account_id = 1, ti_destination_account_id = 2, ti_amount = usd 40,
      ti_reversal_of = None, ti_traceparent = None\<rparr> (workflow_init [] [RETRY_CREDIT]) of (r, w') \<Rightarrow>
   ledger_ok plain_runtime (wf_world w')"
  using saga_keeps_ledger_consistent [OF memory_ledger_log [of plain_runtime] _ _
      temporal_prompt_contract [OF temporal_execute_prompt], of "\<lparr>ti_transfer_id = 5, ti_source_account_id = 1,
      ti_destination_account_id = 2, ti_amount = usd 40, ti_reversal_of = None, ti_traceparent = None\<rparr>" "[]"
      exn_type_name "[RETRY_CREDIT]"]
  by (simp add: memory_invar_Nil input_ok_def money_ok_def usd_def split: prod.splits)

end
