(* ===== verification/Saga_Control.thy ===== *)
theory Saga_Control
  imports Workflow
begin

text \<open>
  The control flow of the saga, for an arbitrary service: \<open>traced\<close> logs every activity the
  workflow executes and whether it returned, and the lemmas say for each way a run can end which
  activities were executed and with what outcome. Nothing is assumed of the service here, so the
  statements hold for every pattern of failures. What the activities of a trace did to the ledger is
  the subject of \<open>Saga_Guarantees\<close>.
\<close>

section \<open>Traces\<close>

type_synonym saga_trace = "(activity_call \<times> bool) list"

definition traced :: "'s driver \<Rightarrow> ('s \<times> saga_trace) driver" where
  "traced drv n call = (\<lambda>(s, tr). case drv n call s of (r, s') \<Rightarrow> (r, s', tr @ [(call, \<not> isl r)]))"

definition trace_of :: "('s \<times> saga_trace) workflow \<Rightarrow> saga_trace" where
  "trace_of w = snd (wf_world w)"

definition returned :: "saga_trace \<Rightarrow> activity_call \<Rightarrow> bool" where
  "returned tr call \<longleftrightarrow> (call, True) \<in> set tr"

definition raised :: "saga_trace \<Rightarrow> activity_call \<Rightarrow> bool" where
  "raised tr call \<longleftrightarrow> (call, False) \<in> set tr"

definition executed :: "saga_trace \<Rightarrow> activity_call \<Rightarrow> bool" where
  "executed tr call \<longleftrightarrow> returned tr call \<or> raised tr call"

definition refund_of :: "transfer_input \<Rightarrow> activity_call" where
  "refund_of d = RefundSource
     \<lparr>ri_transfer_id = ti_transfer_id d, ri_source_account_id = ti_source_account_id d, ri_amount = ti_amount d\<rparr>"

lemma execute_traced:
  "execute (traced drv) n call w =
     (case drv n call (fst (wf_world w)) of (r, s') \<Rightarrow>
        (map_sum ActivityError id r, w\<lparr>wf_world := (s', trace_of w @ [(call, \<not> isl r)])\<rparr>))"
  by (auto simp: execute_def traced_def trace_of_def split: prod.splits sum.splits)

lemma trace_append [simp]:
  "returned (xs @ ys) c \<longleftrightarrow> returned xs c \<or> returned ys c" "raised (xs @ ys) c \<longleftrightarrow> raised xs c \<or> raised ys c"
  by (auto simp: returned_def raised_def)

lemma trace_simps [simp]:
  "\<not> returned [] c" "\<not> raised [] c"
  "returned ((c', b) # ys) c \<longleftrightarrow> c = c' \<and> b \<or> returned ys c"
  "raised ((c', b) # ys) c \<longleftrightarrow> c = c' \<and> \<not> b \<or> raised ys c"
  by (auto simp: returned_def raised_def)

text \<open>
  The park loop: it executes only credits and refunds, it ends with a result exactly when one of
  them returned, and otherwise it waits.
\<close>

lemma settled_result_cases:
  "settled_result d entry dt w = (r, w') \<Longrightarrow> w' = w \<and>
     (r = Inl UuidValueError \<or> (\<exists>eid. r = Inr \<lparr>res_transfer_id = ti_transfer_id d, res_status = wf_status w,
        res_journal_entry_id = Some eid, res_failure_reason = None, res_detail = dt\<rparr>))"
  by (auto simp: settled_result_def uuid_of_value_def bindM_def split: activity_value.splits sum.splits)

definition loop_outcome :: "transfer_input \<Rightarrow> transfer_status \<Rightarrow> transfer_status \<Rightarrow> saga_trace \<Rightarrow>
    workflow_exn + transfer_result \<Rightarrow> bool" where
  "loop_outcome d st st' ext r \<longleftrightarrow>
    (\<forall>c. c \<noteq> SettleCredit d \<and> c \<noteq> refund_of d \<longrightarrow> \<not> executed ext c) \<and>
    \<not> (returned ext (SettleCredit d) \<and> returned ext (refund_of d)) \<and>
    (case r of
       Inr res \<Rightarrow> res_status res = COMPLETED \<and> returned ext (SettleCredit d) \<or>
         res_status res = RECONCILED \<and> returned ext (refund_of d)
     | Inl e \<Rightarrow> e = AwaitingSignal \<and> st' = st \<and>
           \<not> returned ext (SettleCredit d) \<and> \<not> returned ext (refund_of d) \<or>
         e = UuidValueError \<and> (returned ext (SettleCredit d) \<or> returned ext (refund_of d)))"

lemma loop_outcome_failed_round:
  assumes "loop_outcome d st st' ext r" and "call = SettleCredit d \<or> call = refund_of d"
  shows "loop_outcome d st st' ((call, False) # ext) r"
  using assms unfolding loop_outcome_def executed_def by (auto split: sum.splits)

lemma resolution_loop_trace:
  assumes "resolution_loop (traced drv) d entry ds w = (r, w')"
  shows "\<exists>ext. trace_of w' = trace_of w @ ext \<and> loop_outcome d (wf_status w) (wf_status w') ext r"
  using assms
proof (induction ds arbitrary: w)
  case Nil
  then show ?case by (auto simp: loop_outcome_def executed_def)
next
  case (Cons decision ds)
  define call n where "call = (if decision = RETRY_CREDIT then SettleCredit d else refund_of d)"
    and "n = (if decision = RETRY_CREDIT then CREDIT_RETRY else DEFAULT_RETRY)"
  obtain q s' where drv: "drv n call (fst (wf_world w)) = (q, s')" by fastforce
  define w2 where "w2 = w\<lparr>wf_resolution := None, wf_signals := ds, wf_world := (s', trace_of w @ [(call, \<not> isl q)])\<rparr>"
  have w2: "trace_of w2 = trace_of w @ [(call, \<not> isl q)]" "wf_status w2 = wf_status w"
    by (simp_all add: w2_def trace_of_def)
  have ne: "SettleCredit d \<noteq> refund_of d" by (simp add: refund_of_def)
  note run = bindM_def catch_activity_def catchM_def execute_traced assign_def call_def n_def
    w2_def trace_of_def refund_of_def
  show ?case
  proof (cases q)
    case (Inl err)
    have "resolution_loop (traced drv) d entry (decision # ds) w = resolution_loop (traced drv) d entry ds w2"
      using drv Inl by (auto simp: run)
    then obtain ext where ext: "trace_of w' = trace_of w2 @ ext"
      and out: "loop_outcome d (wf_status w2) (wf_status w') ext r"
      using Cons.prems Cons.IH [of w2] by (metis (no_types))
    have "loop_outcome d (wf_status w) (wf_status w') ((call, False) # ext) r"
      using loop_outcome_failed_round [OF out] by (simp add: w2 call_def)
    with ext Inl show ?thesis by (intro exI [of _ "(call, False) # ext"]) (simp add: w2)
  next
    case (Inr x)
    define st dt where "st = (if decision = RETRY_CREDIT then COMPLETED else RECONCILED)"
      and "dt = (if decision = RETRY_CREDIT then None else Some ''refunded to source'')"
    have "resolution_loop (traced drv) d entry (decision # ds) w =
        settled_result d entry dt (w2\<lparr>wf_status := st\<rparr>)"
      using drv Inr by (auto simp: run st_def dt_def)
    with Cons.prems have "settled_result d entry dt (w2\<lparr>wf_status := st\<rparr>) = (r, w')" by metis
    from settled_result_cases [OF this]
    have end': "w' = w2\<lparr>wf_status := st\<rparr>" "r = Inl UuidValueError \<or> (\<exists>res. r = Inr res \<and> res_status res = st)"
      by auto
    have "loop_outcome d (wf_status w) (wf_status w') [(call, True)] r"
      using end'(2) ne by (auto simp: loop_outcome_def executed_def call_def st_def)
    moreover have "trace_of w' = trace_of w @ [(call, True)]"
      using end'(1) Inr by (simp add: w2_def trace_of_def)
    ultimately show ?thesis by blast
  qed
qed

lemma await_resolution_trace:
  assumes "await_resolution (traced drv) d entry w = (r, w')"
  shows "\<exists>ext. trace_of w' = trace_of w @ ext \<and> loop_outcome d NEEDS_RECONCILIATION (wf_status w') ext r"
proof -
  let ?w = "w\<lparr>wf_status := NEEDS_RECONCILIATION\<rparr>"
  have "resolution_loop (traced drv) d entry
      ((case wf_resolution w of Some decision \<Rightarrow> [decision] | None \<Rightarrow> []) @ wf_signals w) ?w = (r, w')"
    using assms by (simp add: await_resolution_def bindM_def assign_def)
  from resolution_loop_trace [OF this] show ?thesis by (simp add: trace_of_def)
qed

text \<open>The compensation: what it executes is decided by the two flags.\<close>

definition fail_call :: "transfer_input \<Rightarrow> activity_failure \<Rightarrow> activity_call" where
  "fail_call d err = FailTransfer \<lparr>fi_transfer_id = ti_transfer_id d, fi_reason = fst (reason_from err),
     fi_detail = Some (snd (reason_from err))\<rparr>"

definition compensation_outcome ::
  "transfer_input \<Rightarrow> activity_failure \<Rightarrow> bool \<Rightarrow> bool \<Rightarrow> saga_trace \<Rightarrow> workflow_exn + transfer_result \<Rightarrow> bool" where
  "compensation_outcome d err holding posted ext r \<longleftrightarrow>
    (\<forall>c. c \<noteq> ReleaseHold_act d \<and> c \<noteq> ReverseJournal d \<and> c \<noteq> fail_call d err \<longrightarrow> \<not> executed ext c) \<and>
    (executed ext (ReleaseHold_act d) \<longrightarrow> holding) \<and> (executed ext (ReverseJournal d) \<longrightarrow> posted) \<and>
    (case r of
       Inr res \<Rightarrow> res_status res = FAILED \<and> res_failure_reason res = Some (fst (reason_from err)) \<and>
         returned ext (fail_call d err) \<and> (holding \<longrightarrow> returned ext (ReleaseHold_act d)) \<and>
         (posted \<longrightarrow> returned ext (ReverseJournal d))
     | Inl e \<Rightarrow> (\<exists>f. e = ActivityError f) \<and>
         (raised ext (ReleaseHold_act d) \<or> raised ext (ReverseJournal d) \<or> raised ext (fail_call d err)))"

lemma execute_traced_cases:
  assumes "execute (traced drv) n call w = (q, w1)"
  shows "trace_of w1 = trace_of w @ [(call, \<not> isl q)]" and "wf_status w1 = wf_status w"
    and "wf_holding w1 = wf_holding w" and "wf_posted w1 = wf_posted w" and "isl q \<Longrightarrow> \<exists>f. q = Inl (ActivityError f)"
proof -
  obtain r s' where drv: "drv n call (fst (wf_world w)) = (r, s')" by fastforce
  have "q = map_sum ActivityError id r" "w1 = w\<lparr>wf_world := (s', trace_of w @ [(call, \<not> isl r)])\<rparr>"
    using assms by (simp_all add: execute_traced drv)
  then show "trace_of w1 = trace_of w @ [(call, \<not> isl q)]" and "wf_status w1 = wf_status w"
    and "wf_holding w1 = wf_holding w" and "wf_posted w1 = wf_posted w" and "isl q \<Longrightarrow> \<exists>f. q = Inl (ActivityError f)"
    by (cases r; simp add: trace_of_def)+
qed

text \<open>An activity that is executed if a flag is set.\<close>

lemma optional_call_cases:
  assumes "(if b then bindM (execute (traced drv) n call) (\<lambda>_. returnM ()) else returnM ()) w = (q, w1)"
  shows "trace_of w1 = trace_of w @ (if b then [(call, \<not> isl q)] else [])"
    and "wf_holding w1 = wf_holding w" and "wf_posted w1 = wf_posted w"
    and "isl q \<Longrightarrow> b \<and> (\<exists>f. q = Inl (ActivityError f))"
proof -
  obtain q0 w0 where ex: "execute (traced drv) n call w = (q0, w0)" by fastforce
  note c = execute_traced_cases [OF ex]
  have "if b then w1 = w0 \<and> isl q = isl q0 \<and> (\<forall>e. q0 = Inl e \<longrightarrow> q = Inl e) else w1 = w \<and> \<not> isl q"
    using assms ex by (cases b; cases q0) (auto simp: bindM_def)
  with c show "trace_of w1 = trace_of w @ (if b then [(call, \<not> isl q)] else [])"
    "wf_holding w1 = wf_holding w" "wf_posted w1 = wf_posted w" "isl q \<Longrightarrow> b \<and> (\<exists>f. q = Inl (ActivityError f))"
    by (auto split: if_splits)
qed

lemma compensate_trace:
  assumes "compensate (traced drv) d err w = (r, w')"
  shows "\<exists>ext. trace_of w' = trace_of w @ ext \<and>
    compensation_outcome d err (wf_holding w) (wf_posted w) ext r"
proof -
  let ?rel = "if wf_holding w then bindM (execute (traced drv) DEFAULT_RETRY (ReleaseHold_act d)) (\<lambda>_. returnM ()) else returnM ()"
  let ?rev = "if wf_posted w then bindM (execute (traced drv) DEFAULT_RETRY (ReverseJournal d)) (\<lambda>_. returnM ()) else returnM ()"
  have ne: "fail_call d err \<noteq> ReleaseHold_act d" "fail_call d err \<noteq> ReverseJournal d" by (simp_all add: fail_call_def)
  obtain q1 w1 where m1: "?rel w = (q1, w1)" by fastforce
  note c1 = optional_call_cases [OF m1]
  obtain q2 w2 where m2: "?rev w1 = (q2, w2)" by fastforce
  note c2 = optional_call_cases [OF m2]
  obtain q3 w3 where m3: "execute (traced drv) DEFAULT_RETRY (fail_call d err) w2 = (q3, w3)" by fastforce
  note c3 = execute_traced_cases [OF m3]
  have run: "compensate (traced drv) d err w = (case q1 of Inl e \<Rightarrow> (Inl e, w1) | Inr _ \<Rightarrow>
      (case q2 of Inl e \<Rightarrow> (Inl e, w2) | Inr _ \<Rightarrow> (case q3 of Inl e \<Rightarrow> (Inl e, w3) | Inr _ \<Rightarrow>
        (Inr \<lparr>res_transfer_id = ti_transfer_id d, res_status = FAILED, res_journal_entry_id = None,
           res_failure_reason = Some (fst (reason_from err)), res_detail = Some (snd (reason_from err))\<rparr>,
         w3\<lparr>wf_status := FAILED, wf_failure := Some (fst (reason_from err))\<rparr>))))"
    unfolding compensate_def Let_def case_prod_beta fail_call_def [symmetric]
      bindM_run [where m = ?rel, OF m1] bindM_run [where m = ?rev, OF m2]
      bindM_run [where m = "execute (traced drv) DEFAULT_RETRY (fail_call d err)", OF m3]
    by (simp add: bindM_def assign_def split: sum.splits)
  let ?t1 = "if wf_holding w then [(ReleaseHold_act d, \<not> isl q1)] else []"
  let ?t2 = "if wf_posted w then [(ReverseJournal d, \<not> isl q2)] else []"
  let ?ext = "if isl q1 then ?t1 else if isl q2 then ?t1 @ ?t2 else ?t1 @ ?t2 @ [(fail_call d err, \<not> isl q3)]"
  have "trace_of w' = trace_of w @ ?ext"
    using assms run c1(1) c2(1) c3(1) by (cases q1; cases q2; cases q3) (auto simp: trace_of_def)
  moreover have "compensation_outcome d err (wf_holding w) (wf_posted w) ?ext r"
    using assms run c1(4) c2(4) c3(5) ne
    by (cases q1; cases q2; cases q3) (auto simp: compensation_outcome_def executed_def)
  ultimately show ?thesis by blast
qed

definition park_call :: "transfer_input \<Rightarrow> activity_failure \<Rightarrow> activity_call" where
  "park_call d err = ParkTransfer \<lparr>pi_transfer_id = ti_transfer_id d,
     pi_detail = ''credit failed after debit: '' @ snd (reason_from err)\<rparr>"

text \<open>The ways the \<open>try\<close> body can end, with the flags its handler will see.\<close>

inductive body_outcome ::
  "transfer_input \<Rightarrow> transfer_status \<Rightarrow> bool \<Rightarrow> bool \<Rightarrow> saga_trace \<Rightarrow> workflow_exn + transfer_result \<Rightarrow> bool"
  for d where
  hold_failed: "body_outcome d st False False [(HoldFunds d, False)] (Inl (ActivityError f))"
| post_failed: "body_outcome d st True False [(HoldFunds d, True), (PostJournal d, False)] (Inl (ActivityError f))"
| debit_failed: "body_outcome d st True True
    [(HoldFunds d, True), (PostJournal d, True), (SettleDebit d, False)] (Inl (ActivityError f))"
| park_failed: "body_outcome d st False True
    [(HoldFunds d, True), (PostJournal d, True), (SettleDebit d, True), (SettleCredit d, False), (park_call d perr, False)]
    (Inl (ActivityError f))"
| credited: "r = Inl UuidValueError \<or> (\<exists>res. r = Inr res \<and> res_status res = COMPLETED) \<Longrightarrow>
    body_outcome d st hl po
      [(HoldFunds d, True), (PostJournal d, True), (SettleDebit d, True), (SettleCredit d, True)] r"
| parked: "loop_outcome d NEEDS_RECONCILIATION st ext r \<Longrightarrow>
    body_outcome d st hl po
      ([(HoldFunds d, True), (PostJournal d, True), (SettleDebit d, True), (SettleCredit d, False), (park_call d perr, True)] @ ext) r"

lemma loop_outcome_no_activity_error: "\<not> loop_outcome d st st' ext (Inl (ActivityError f))"
  by (simp add: loop_outcome_def)

text \<open>The settlement: credit, or park and wait.\<close>

definition settlement ::
  "'s driver \<Rightarrow> transfer_input \<Rightarrow> activity_value \<Rightarrow> ('s workflow, workflow_exn, transfer_result) action" where
  "settlement drv d entry_id =
     bindM (catch_activity
        (bindM (execute drv CREDIT_RETRY (SettleCredit d)) (\<lambda>_. returnM None))
        (\<lambda>credit_err.
           bindM (execute drv DEFAULT_RETRY (park_call d credit_err)) (\<lambda>_.
           bindM (await_resolution drv d entry_id) (\<lambda>res. returnM (Some res))))) (\<lambda>parked.
     case parked of
       Some res \<Rightarrow> returnM res
     | None \<Rightarrow>
         bindM (assign (\<lambda>w. w\<lparr>wf_status := COMPLETED\<rparr>)) (\<lambda>_. settled_result d entry_id None))"

lemma settlement_trace:
  assumes "settlement (traced drv) d entry w = (r, w')"
  shows "\<exists>perr ext. (trace_of w' = trace_of w @ [(SettleCredit d, True)] \<and>
      (r = Inl UuidValueError \<or> (\<exists>res. r = Inr res \<and> res_status res = COMPLETED))) \<or>
    (trace_of w' = trace_of w @ [(SettleCredit d, False), (park_call d perr, False)] \<and>
      wf_holding w' = wf_holding w \<and> wf_posted w' = wf_posted w \<and> (\<exists>f. r = Inl (ActivityError f))) \<or>
    (trace_of w' = trace_of w @ [(SettleCredit d, False), (park_call d perr, True)] @ ext \<and>
      loop_outcome d NEEDS_RECONCILIATION (wf_status w') ext r)"
proof -
  obtain q1 w1 where m1: "execute (traced drv) CREDIT_RETRY (SettleCredit d) w = (q1, w1)" by fastforce
  note c1 = execute_traced_cases [OF m1]
  show ?thesis
  proof (cases q1)
    case (Inr x)
    have "settlement (traced drv) d entry w = settled_result d entry None (w1\<lparr>wf_status := COMPLETED\<rparr>)"
      by (simp add: settlement_def catch_activity_def bindM_def catchM_def m1 Inr assign_def)
    with assms settled_result_cases [of d entry None "w1\<lparr>wf_status := COMPLETED\<rparr>" r w'] c1(1) Inr
    show ?thesis by (auto simp: trace_of_def)
  next
    case (Inl e)
    then obtain f where e: "e = ActivityError f" using c1(5) by auto
    obtain q2 w2 where m2: "execute (traced drv) DEFAULT_RETRY (park_call d f) w1 = (q2, w2)" by fastforce
    note c2 = execute_traced_cases [OF m2]
    obtain q3 w3 where m3: "await_resolution (traced drv) d entry w2 = (q3, w3)" by fastforce
    have run: "settlement (traced drv) d entry w = (case q2 of Inl e \<Rightarrow> (Inl e, w2) | Inr _ \<Rightarrow> (q3, w3))"
      unfolding settlement_def catch_activity_def
      by (cases q2; cases q3) (simp_all add: bindM_def catchM_def m1 Inl e m2 m3)
    show ?thesis
    proof (cases q2)
      case Inl2: (Inl e2)
      with assms run c1(1-4) c2 Inl show ?thesis
        by (intro exI [of _ f] exI [of _ "[]"] disjI2 disjI1) auto
    next
      case Inr2: (Inr x)
      from await_resolution_trace [OF m3] obtain ext where "trace_of w3 = trace_of w2 @ ext"
        and "loop_outcome d NEEDS_RECONCILIATION (wf_status w3) ext q3" by blast
      with assms run c1(1) c2(1) Inl Inr2 show ?thesis
        by (intro exI [of _ f] exI [of _ ext] disjI2) auto
    qed
  qed
qed

lemma saga_steps_body_eq:
  "saga_steps_body drv d =
     bindM (execute drv DEFAULT_RETRY (HoldFunds d)) (\<lambda>_.
     bindM (assign (\<lambda>w. w\<lparr>wf_status := HELD, wf_holding := True\<rparr>)) (\<lambda>_.
     bindM (execute drv DEFAULT_RETRY (PostJournal d)) (\<lambda>entry_id.
     bindM (assign (\<lambda>w. w\<lparr>wf_status := POSTED, wf_posted := True\<rparr>)) (\<lambda>_.
     bindM (execute drv DEFAULT_RETRY (SettleDebit d)) (\<lambda>_.
     bindM (assign (\<lambda>w. w\<lparr>wf_holding := False\<rparr>)) (\<lambda>_. settlement drv d entry_id))))))"
  by (simp add: saga_steps_body_def settlement_def park_call_def)

lemma body_trace:
  assumes "saga_steps_body (traced drv) d w = (r, w')" and flags: "\<not> wf_holding w" "\<not> wf_posted w"
  shows "\<exists>ext. trace_of w' = trace_of w @ ext \<and>
    body_outcome d (wf_status w') (wf_holding w') (wf_posted w') ext r"
proof -
  obtain q1 w1 where m1: "execute (traced drv) DEFAULT_RETRY (HoldFunds d) w = (q1, w1)" by fastforce
  note c1 = execute_traced_cases [OF m1]
  define v1 where "v1 = w1\<lparr>wf_status := HELD, wf_holding := True\<rparr>"
  obtain q2 w2 where m2: "execute (traced drv) DEFAULT_RETRY (PostJournal d) v1 = (q2, w2)" by fastforce
  note c2 = execute_traced_cases [OF m2]
  define v2 where "v2 = w2\<lparr>wf_status := POSTED, wf_posted := True\<rparr>"
  obtain q3 w3 where m3: "execute (traced drv) DEFAULT_RETRY (SettleDebit d) v2 = (q3, w3)" by fastforce
  note c3 = execute_traced_cases [OF m3]
  define v3 where "v3 = w3\<lparr>wf_holding := False\<rparr>"
  have v: "trace_of v1 = trace_of w1" "trace_of v2 = trace_of w2" "trace_of v3 = trace_of w3"
    "wf_holding v1" "wf_posted v2" "wf_posted v1 = wf_posted w1" "wf_holding v2 = wf_holding w2"
    "\<not> wf_holding v3" "wf_posted v3 = wf_posted w3"
    by (simp_all add: v1_def v2_def v3_def trace_of_def)
  show ?thesis
  proof (cases q1)
    case (Inl e)
    then have "r = Inl e" "w' = w1" using assms(1) by (auto simp: saga_steps_body_eq bindM_Inl m1)
    with c1 Inl flags show ?thesis by (auto intro!: hold_failed)
  next
    case q1: (Inr x1)
    show ?thesis
    proof (cases q2)
      case (Inl e)
      then have "r = Inl e" "w' = w2"
        using assms(1) q1 m2 by (auto simp: saga_steps_body_eq bindM_def m1 assign_def v1_def)
      with c1 c2 q1 Inl v flags show ?thesis by (auto intro!: post_failed)
    next
      case q2: (Inr x2)
      show ?thesis
      proof (cases q3)
        case (Inl e)
        then have "r = Inl e" "w' = w3"
          using assms(1) q1 q2 m2 m3 by (auto simp: saga_steps_body_eq bindM_def m1 assign_def v1_def v2_def)
        with c1 c2 c3 q1 q2 Inl v show ?thesis by (auto intro!: debit_failed)
      next
        case q3: (Inr x3)
        have "settlement (traced drv) d x2 v3 = (r, w')"
          using assms(1) q1 q2 q3 m2 m3 by (simp add: saga_steps_body_eq bindM_def m1 assign_def v1_def v2_def v3_def)
        from settlement_trace [OF this] c1(1) c2(1) c3 q1 q2 q3 v show ?thesis
          by (auto intro!: credited park_failed parked [simplified])
      qed
    qed
  qed
qed

section \<open>The whole run\<close>

text \<open>A call that returned after another one had.\<close>

definition returned_after :: "saga_trace \<Rightarrow> activity_call \<Rightarrow> activity_call \<Rightarrow> bool" where
  "returned_after tr c c' \<longleftrightarrow> (\<exists>xs ys. tr = xs @ (c', True) # ys \<and> returned xs c)"

lemma returned_afterI: "returned xs c \<Longrightarrow> returned ys c' \<Longrightarrow> returned_after (xs @ ys) c c'"
  unfolding returned_after_def returned_def
  by (metis (no_types, opaque_lifting) Un_iff append_assoc set_append split_list)

definition run_outcome :: "transfer_input \<Rightarrow> ('s \<times> saga_trace) workflow \<Rightarrow> workflow_exn + transfer_result \<Rightarrow> bool" where
  "run_outcome d w r \<longleftrightarrow>
    (let tr = trace_of w; settled = (returned tr (HoldFunds d) \<and> returned tr (PostJournal d) \<and> returned tr (SettleDebit d));
         compensated = (executed tr (ReleaseHold_act d) \<or> executed tr (ReverseJournal d))
     in case r of
       Inr res \<Rightarrow>
         res_status res = COMPLETED \<and> settled \<and> returned tr (SettleCredit d) \<and> \<not> returned tr (refund_of d) \<and> \<not> compensated \<or>
         res_status res = RECONCILED \<and> settled \<and> returned tr (refund_of d) \<and> \<not> returned tr (SettleCredit d) \<and> \<not> compensated \<or>
         res_status res = FAILED \<and> (\<exists>e. returned_after tr (RecordInitiated d) (fail_call d e)) \<and> \<not> executed tr (refund_of d) \<and>
           (\<not> executed tr (PostJournal d) \<and> \<not> executed tr (SettleDebit d) \<and> \<not> executed tr (SettleCredit d) \<and> \<not> compensated \<or>
            returned_after tr (HoldFunds d) (ReleaseHold_act d) \<and> raised tr (PostJournal d) \<and>
              \<not> executed tr (SettleDebit d) \<and> \<not> executed tr (SettleCredit d) \<and> \<not> executed tr (ReverseJournal d) \<or>
            returned_after tr (HoldFunds d) (ReleaseHold_act d) \<and> returned_after tr (PostJournal d) (ReverseJournal d) \<and>
              raised tr (SettleDebit d) \<and> \<not> executed tr (SettleCredit d) \<or>
            settled \<and> returned_after tr (PostJournal d) (ReverseJournal d) \<and> \<not> executed tr (ReleaseHold_act d) \<and>
              raised tr (SettleCredit d) \<and> (\<exists>e. raised tr (park_call d e)))
     | Inl AwaitingSignal \<Rightarrow>
         wf_status w = NEEDS_RECONCILIATION \<and> settled \<and> (\<exists>e. returned tr (park_call d e)) \<and>
         \<not> returned tr (SettleCredit d) \<and> \<not> returned tr (refund_of d) \<and> \<not> compensated
     | Inl UuidValueError \<Rightarrow> settled \<and> (returned tr (SettleCredit d) \<or> returned tr (refund_of d))
     | Inl (ActivityError f) \<Rightarrow>
         raised tr (RecordInitiated d) \<or> raised tr (ReleaseHold_act d) \<or> raised tr (ReverseJournal d) \<or>
         (\<exists>e. raised tr (fail_call d e)))"

lemma compensated_run_outcome:
  assumes "body_outcome d st hl po ext1 (Inl (ActivityError err))" and "compensation_outcome d err hl po ext2 r"
    and "trace_of w = (RecordInitiated d, True) # ext1 @ ext2"
  shows "run_outcome d w r"
proof -
  have ne: "SettleCredit d \<noteq> fail_call d err" "refund_of d \<noteq> fail_call d err" "HoldFunds d \<noteq> fail_call d err"
    "SettleDebit d \<noteq> fail_call d err" "PostJournal d \<noteq> fail_call d err" "RecordInitiated d \<noteq> fail_call d err"
    "ReleaseHold_act d \<noteq> fail_call d err" "ReverseJournal d \<noteq> fail_call d err"
    "refund_of d \<noteq> ReleaseHold_act d" "refund_of d \<noteq> ReverseJournal d" "refund_of d \<noteq> SettleCredit d"
    "refund_of d \<noteq> HoldFunds d" "refund_of d \<noteq> PostJournal d" "refund_of d \<noteq> SettleDebit d"
    "refund_of d \<noteq> RecordInitiated d" "refund_of d \<noteq> park_call d e" for e
    by (simp_all add: fail_call_def refund_of_def park_call_def)
  have pc: "c \<noteq> park_call d e" if "c \<in> {SettleCredit d, HoldFunds d, SettleDebit d, PostJournal d,
      ReleaseHold_act d, ReverseJournal d}" for c e
    using that by (auto simp: park_call_def)
  have none: "\<not> returned ext2 c \<and> \<not> raised ext2 c"
    if "c \<in> {SettleCredit d, refund_of d, HoldFunds d, SettleDebit d, PostJournal d, RecordInitiated d}" for c
    using assms(2) that ne unfolding compensation_outcome_def executed_def by auto
  have after: "returned_after (trace_of w) c c'" if "returned ((RecordInitiated d, True) # ext1) c" "returned ext2 c'" for c c'
    using returned_afterI [OF that] by (simp add: assms(3))
  show ?thesis
  proof (cases r)
    case (Inl e)
    then show ?thesis using assms(2,3) by (auto simp: run_outcome_def compensation_outcome_def Let_def)
  next
    case (Inr res)
    then have res: "res_status res = FAILED" "returned ext2 (fail_call d err)" "hl \<Longrightarrow> returned ext2 (ReleaseHold_act d)"
      "po \<Longrightarrow> returned ext2 (ReverseJournal d)" "executed ext2 (ReleaseHold_act d) \<Longrightarrow> hl" "executed ext2 (ReverseJournal d) \<Longrightarrow> po"
      using assms(2) by (auto simp: compensation_outcome_def)
    have failed: "\<exists>e. returned_after (trace_of w) (RecordInitiated d) (fail_call d e)"
      using after [OF _ res(2), of "RecordInitiated d"] by auto
    from assms(1) show ?thesis
    proof (cases rule: body_outcome.cases)
      case parked
      then show ?thesis by (simp add: loop_outcome_no_activity_error)
    qed (use Inr res failed after assms(3) none ne in \<open>auto simp: run_outcome_def executed_def pc pc [symmetric] Let_def\<close>)
  qed
qed

lemma finished_run_outcome:
  assumes "body_outcome d (wf_status w) hl po ext r" and "\<And>f. r \<noteq> Inl (ActivityError f)"
    and "trace_of w = (RecordInitiated d, True) # ext"
  shows "run_outcome d w r"
  using assms(1)
proof (cases rule: body_outcome.cases)
  case credited
  then show ?thesis
    using assms(3) by (auto simp: run_outcome_def executed_def refund_of_def)
next
  case (parked ext' perr)
  have ne: "park_call d perr \<noteq> ReleaseHold_act d" "park_call d perr \<noteq> ReverseJournal d" "park_call d perr \<noteq> SettleCredit d"
    "park_call d perr \<noteq> SettleDebit d" "refund_of d \<noteq> park_call d perr" "refund_of d \<noteq> ReleaseHold_act d"
    "refund_of d \<noteq> ReverseJournal d" "refund_of d \<noteq> SettleCredit d" "refund_of d \<noteq> SettleDebit d"
    "refund_of d \<noteq> HoldFunds d" "refund_of d \<noteq> PostJournal d" "refund_of d \<noteq> RecordInitiated d"
    by (simp_all add: park_call_def refund_of_def)
  show ?thesis
    using parked assms(2,3) ne ne [symmetric]
    by (auto simp: run_outcome_def executed_def loop_outcome_def Let_def split: sum.splits workflow_exn.splits)
qed (use assms(2) in auto)

lemma workflow_run_outcome:
  assumes "workflow_run (traced drv) d (workflow_init (s, []) signals) = (r, w')"
  shows "run_outcome d w' r"
proof -
  let ?w = "workflow_init (s, []) signals :: ('a \<times> saga_trace) workflow"
  obtain q1 w1 where m1: "execute (traced drv) DEFAULT_RETRY (RecordInitiated d) ?w = (q1, w1)" by fastforce
  note c1 = execute_traced_cases [OF m1]
  have t0: "trace_of ?w = []" by (simp add: trace_of_def workflow_init_def)
  show ?thesis
  proof (cases q1)
    case (Inl e)
    then have "r = Inl e" "w' = w1" using assms by (auto simp: workflow_run_def bindM_Inl m1)
    then show ?thesis using c1(1,5) Inl t0 by (auto simp: run_outcome_def)
  next
    case (Inr x)
    define v1 where "v1 = w1\<lparr>wf_holding := False, wf_posted := False\<rparr>"
    obtain q2 w2 where m2: "saga_steps_body (traced drv) d v1 = (q2, w2)" by fastforce
    have t1: "trace_of v1 = [(RecordInitiated d, True)]"
      using c1(1) Inr t0 by (simp add: v1_def trace_of_def)
    from body_trace [OF m2] obtain ext where ext: "trace_of w2 = (RecordInitiated d, True) # ext"
      and out: "body_outcome d (wf_status w2) (wf_holding w2) (wf_posted w2) ext q2"
      using t1 by (auto simp: v1_def)
    have run: "workflow_run (traced drv) d ?w = (case q2 of
        Inl (ActivityError f) \<Rightarrow> compensate (traced drv) d f w2 | _ \<Rightarrow> (q2, w2))"
      using m2 by (simp add: workflow_run_def bindM_def m1 Inr assign_def v1_def catch_activity_def catchM_def
          split: sum.splits workflow_exn.splits)
    show ?thesis
    proof (cases "\<exists>f. q2 = Inl (ActivityError f)")
      case True
      then obtain f where f: "q2 = Inl (ActivityError f)" ..
      then have "compensate (traced drv) d f w2 = (r, w')" using assms run by simp
      from compensate_trace [OF this] obtain ext2 where "trace_of w' = trace_of w2 @ ext2"
        and "compensation_outcome d f (wf_holding w2) (wf_posted w2) ext2 r" by blast
      with out f ext show ?thesis by (auto intro: compensated_run_outcome)
    next
      case False
      then have "r = q2 \<and> w' = w2" using assms run by (auto split: sum.splits workflow_exn.splits)
      with out ext False show ?thesis by (auto intro: finished_run_outcome)
    qed
  qed
qed

section \<open>Tracing observes and does not interfere\<close>

definition untraced :: "('s \<times> saga_trace) workflow \<Rightarrow> 's workflow" where
  "untraced w = \<lparr>wf_world = fst (wf_world w), wf_status = wf_status w, wf_failure = wf_failure w,
     wf_resolution = wf_resolution w, wf_holding = wf_holding w, wf_posted = wf_posted w, wf_signals = wf_signals w\<rparr>"

definition same_run ::
  "(('s \<times> saga_trace) workflow, 'e, 'a) action \<Rightarrow> ('s workflow, 'e, 'a) action \<Rightarrow> bool" where
  "same_run m m' \<longleftrightarrow> (\<forall>w r w1. m w = (r, w1) \<longrightarrow> m' (untraced w) = (r, untraced w1))"

lemma untraced_sel [simp]:
  "wf_status (untraced w) = wf_status w" "wf_failure (untraced w) = wf_failure w"
  "wf_resolution (untraced w) = wf_resolution w" "wf_holding (untraced w) = wf_holding w"
  "wf_posted (untraced w) = wf_posted w" "wf_signals (untraced w) = wf_signals w"
  by (simp_all add: untraced_def)

lemma same_run_pure [intro]: "same_run (returnM x) (returnM x)" "same_run (raiseM e) (raiseM e)"
  by (simp_all add: same_run_def)

lemma same_run_bindM [intro]:
  assumes "same_run m m'" and "\<And>x. same_run (f x) (f' x)"
  shows "same_run (bindM m f) (bindM m' f')"
  unfolding same_run_def
proof (intro allI impI)
  fix w r w1
  assume run: "bindM m f w = (r, w1)"
  obtain q w0 where m: "m w = (q, w0)" by fastforce
  then have m': "m' (untraced w) = (q, untraced w0)" using assms(1) by (simp add: same_run_def)
  show "bindM m' f' (untraced w) = (r, untraced w1)"
    using run m m' assms(2) by (cases q) (auto simp: bindM_def same_run_def)
qed

lemma same_run_catch [intro]:
  assumes "same_run m m'" and "\<And>e. same_run (h e) (h' e)"
  shows "same_run (catch_activity m h) (catch_activity m' h')"
  unfolding same_run_def
proof (intro allI impI)
  fix w r w1
  assume run: "catch_activity m h w = (r, w1)"
  obtain q w0 where m: "m w = (q, w0)" by fastforce
  then have m': "m' (untraced w) = (q, untraced w0)" using assms(1) by (simp add: same_run_def)
  show "catch_activity m' h' (untraced w) = (r, untraced w1)"
    using run m m' assms(2)
    by (cases q) (auto simp: catch_activity_def catchM_def same_run_def split: workflow_exn.splits)
qed

lemma same_run_execute [intro]: "same_run (execute (traced drv) n call) (execute drv n call)"
  unfolding same_run_def
  by (auto simp: execute_def traced_def untraced_def split: prod.splits sum.splits)

lemma same_run_assign [intro]:
  "(\<And>w. untraced (f w) = g (untraced w)) \<Longrightarrow> same_run (assign f) (assign g)"
  by (simp add: same_run_def assign_def)

lemma same_run_at_state: "(\<And>w. same_run (m w) (m' (untraced w))) \<Longrightarrow> same_run (\<lambda>w. m w w) (\<lambda>w. m' w w)"
  by (simp add: same_run_def)

lemma same_run_settled [intro]: "same_run (settled_result d entry dt) (settled_result d entry dt)"
  by (auto simp: same_run_def settled_result_def uuid_of_value_def bindM_def
      split: activity_value.splits sum.splits)

lemma same_run_finish:
  "same_run (bindM (assign (\<lambda>w. w\<lparr>wf_status := st\<rparr>)) (\<lambda>_. settled_result d entry dt))
     (bindM (assign (\<lambda>w. w\<lparr>wf_status := st\<rparr>)) (\<lambda>_. settled_result d entry dt))"
  by (intro same_run_bindM same_run_assign same_run_settled) (simp add: untraced_def)

lemma same_run_if:
  "same_run m m' \<Longrightarrow> same_run k k' \<Longrightarrow> same_run (if b then m else k) (if b then m' else k')"
  by simp

lemma same_run_loop: "same_run (resolution_loop (traced drv) d entry ds) (resolution_loop drv d entry ds)"
proof (induction ds)
  case Nil
  show ?case unfolding resolution_loop.simps by (rule same_run_pure)
next
  case (Cons decision ds)
  then show ?case
    unfolding resolution_loop.simps
    by (intro same_run_bindM same_run_assign same_run_if same_run_catch same_run_execute same_run_pure same_run_finish)
      (simp_all add: untraced_def)
qed

lemma same_run_await: "same_run (await_resolution (traced drv) d entry) (await_resolution drv d entry)"
  unfolding await_resolution_def
proof (rule same_run_bindM)
  show "same_run (assign (\<lambda>w. w\<lparr>wf_status := NEEDS_RECONCILIATION\<rparr>)) (assign (\<lambda>w. w\<lparr>wf_status := NEEDS_RECONCILIATION\<rparr>))"
    by (rule same_run_assign) (simp add: untraced_def)
  show "same_run (\<lambda>w. resolution_loop (traced drv) d entry
      ((case wf_resolution w of Some decision \<Rightarrow> [decision] | None \<Rightarrow> []) @ wf_signals w) w)
    (\<lambda>w. resolution_loop drv d entry
      ((case wf_resolution w of Some decision \<Rightarrow> [decision] | None \<Rightarrow> []) @ wf_signals w) w)"
    unfolding same_run_def untraced_sel using same_run_loop [unfolded same_run_def] by blast
qed

lemma same_run_parked:
  "same_run (case parked of Some res \<Rightarrow> returnM res
      | None \<Rightarrow> bindM (assign (\<lambda>w. w\<lparr>wf_status := COMPLETED\<rparr>)) (\<lambda>_. settled_result d entry None))
    (case parked of Some res \<Rightarrow> returnM res
      | None \<Rightarrow> bindM (assign (\<lambda>w. w\<lparr>wf_status := COMPLETED\<rparr>)) (\<lambda>_. settled_result d entry None))"
  using same_run_finish by (cases parked) (simp_all add: same_run_pure)

lemma same_run_compensate: "same_run (compensate (traced drv) d err) (compensate drv d err)"
  unfolding compensate_def Let_def case_prod_beta
  by (rule same_run_at_state, unfold untraced_sel)
    (intro same_run_bindM same_run_if same_run_execute same_run_pure same_run_assign; simp add: untraced_def)

lemma same_run_workflow: "same_run (workflow_run (traced drv) d) (workflow_run drv d)"
  unfolding workflow_run_def saga_steps_body_def
  by (intro same_run_bindM same_run_execute same_run_assign same_run_catch same_run_compensate same_run_parked
      same_run_await same_run_pure)
    (simp_all add: untraced_def)

text \<open>The run of the workflow and the trace of what it executed.\<close>

lemma traced_workflow_run:
  assumes "workflow_run (traced drv) d (workflow_init (s, []) signals) = (r, w')"
  shows "workflow_run drv d (workflow_init s signals) = (r, untraced w')"
proof -
  have "untraced (workflow_init (s, []) signals) = workflow_init s signals"
    by (simp add: untraced_def workflow_init_def)
  then show ?thesis using same_run_workflow [of drv d] assms by (metis same_run_def)
qed

end
