(* ===== verification/Saga_Guarantees.thy ===== *)
theory Saga_Guarantees
  imports Saga_Control
begin

text \<open>
  What the result of a saga says about the ledger, under an execution service that may lose or
  repeat attempts and with other legal clients. An activity that returned has left its record in the
  log (\<open>call_recorded\<close>): the operation on the account, the entry, or the event that takes the
  transfer out of its open states. Records stay, because the log only grows; so at the end of a run the records of all
  activities that returned are there, and \<open>Saga_Control\<close> says which those are. An activity that raised
  may have left its record too, so the statements say of such a call only that it was tried.
\<close>

section \<open>Records in the log\<close>

definition op_recorded :: "runtime \<Rightarrow> event_list \<Rightarrow> uuid \<Rightarrow> uuid \<Rightarrow> bool" where
  "op_recorded rt log aid op \<longleftrightarrow> op \<in> set (operation_ids (stream_events rt ACCOUNT_STREAM aid log))"

definition entry_recorded :: "runtime \<Rightarrow> event_list \<Rightarrow> uuid \<Rightarrow> bool" where
  "entry_recorded rt log eid \<longleftrightarrow> stream_events rt JOURNAL_STREAM eid log \<noteq> []"

text \<open>The events after which a transfer can no longer be failed: it ended, or it waits for an operator.\<close>

fun leaving_event :: "domain_event \<Rightarrow> bool" where
  "leaving_event (TransferE TransferCompleted) = True"
| "leaving_event (TransferE (TransferFailed _ _)) = True"
| "leaving_event (TransferE (TransferReconciled _ _)) = True"
| "leaving_event (TransferE (TransferParkedForReconciliation _)) = True"
| "leaving_event _ = False"

definition transfer_left :: "runtime \<Rightarrow> event_list \<Rightarrow> uuid \<Rightarrow> bool" where
  "transfer_left rt log tid \<longleftrightarrow> (\<exists>e \<in> set (stream_events rt TRANSFER_STREAM tid log). leaving_event e)"

fun call_recorded :: "runtime \<Rightarrow> saga_trace \<Rightarrow> event_list \<Rightarrow> activity_call \<Rightarrow> bool" where
  "call_recorded rt tr log (RecordInitiated d) \<longleftrightarrow> stream_events rt TRANSFER_STREAM (ti_transfer_id d) log \<noteq> []"
| "call_recorded rt tr log (HoldFunds d) \<longleftrightarrow>
     op_recorded rt log (ti_source_account_id d) (operation_id rt (ti_transfer_id d) ''hold'')"
| "call_recorded rt tr log (PostJournal d) \<longleftrightarrow> entry_recorded rt log (journal_entry_id_for rt (ti_transfer_id d))"
| "call_recorded rt tr log (ReverseJournal d) \<longleftrightarrow>
     (returned tr (PostJournal d) \<longrightarrow> entry_recorded rt log (journal_reversal_id_for rt (ti_transfer_id d)))"
| "call_recorded rt tr log (SettleDebit d) \<longleftrightarrow>
     op_recorded rt log (ti_source_account_id d) (operation_id rt (ti_transfer_id d) ''debit'')"
| "call_recorded rt tr log (SettleCredit d) \<longleftrightarrow>
     op_recorded rt log (ti_destination_account_id d) (operation_id rt (ti_transfer_id d) ''credit'')"
| "call_recorded rt tr log (RefundSource d) \<longleftrightarrow>
     op_recorded rt log (ri_source_account_id d) (operation_id rt (ri_transfer_id d) ''refund'')"
| "call_recorded rt tr log (ReleaseHold_act d) \<longleftrightarrow>
     (returned tr (HoldFunds d) \<longrightarrow>
        op_recorded rt log (ti_source_account_id d) (operation_id rt (ti_transfer_id d) ''release''))"
| "call_recorded rt tr log (FailTransfer d) \<longleftrightarrow>
     ((\<exists>i. returned tr (RecordInitiated i) \<and> ti_transfer_id i = fi_transfer_id d) \<longrightarrow>
        transfer_left rt log (fi_transfer_id d))"
| "call_recorded rt tr log (ParkTransfer d) \<longleftrightarrow> True"

definition trace_recorded :: "runtime \<Rightarrow> saga_trace \<Rightarrow> event_list \<Rightarrow> bool" where
  "trace_recorded rt tr log \<longleftrightarrow> (\<forall>xs c ys. tr = xs @ (c, True) # ys \<longrightarrow> call_recorded rt xs log c)"

lemma recorded_grows:
  "op_recorded rt log aid op \<Longrightarrow> op_recorded rt (log @ ss) aid op"
  "entry_recorded rt log eid \<Longrightarrow> entry_recorded rt (log @ ss) eid"
  "transfer_left rt log tid \<Longrightarrow> transfer_left rt (log @ ss) tid"
  by (auto simp: op_recorded_def entry_recorded_def transfer_left_def stream_events_append)

lemma call_recorded_grows: "call_recorded rt tr log c \<Longrightarrow> call_recorded rt tr (log @ ss) c"
  by (cases c) (auto simp: stream_events_append intro: recorded_grows)

lemma trace_recorded_grows: "trace_recorded rt tr log \<Longrightarrow> trace_recorded rt tr (log @ ss)"
  by (auto simp: trace_recorded_def intro: call_recorded_grows)

lemma trace_recorded_Nil [simp]: "trace_recorded rt [] log"
  by (simp add: trace_recorded_def)

lemma trace_recorded_snoc:
  "trace_recorded rt (tr @ [(c, b)]) log \<longleftrightarrow> trace_recorded rt tr log \<and> (b \<longrightarrow> call_recorded rt tr log c)"
  unfolding trace_recorded_def
proof (intro iffI conjI allI impI)
  assume all: "\<forall>xs c' ys. tr @ [(c, b)] = xs @ (c', True) # ys \<longrightarrow> call_recorded rt xs log c'"
  show "call_recorded rt xs log c'" if "tr = xs @ (c', True) # ys" for xs c' ys
    using all [rule_format, of xs c' "ys @ [(c, b)]"] that by simp
  show "call_recorded rt tr log c" if b using all [rule_format, of tr c "[]"] that by simp
next
  fix xs c' ys
  assume old: "(\<forall>xs c ys. tr = xs @ (c, True) # ys \<longrightarrow> call_recorded rt xs log c) \<and> (b \<longrightarrow> call_recorded rt tr log c)"
    and eq: "tr @ [(c, b)] = xs @ (c', True) # ys"
  show "call_recorded rt xs log c'"
    using old eq by (cases ys rule: rev_cases) auto
qed

text \<open>The record of a call that returned, at the end of a trace or after another call.\<close>

lemma trace_recordedD:
  assumes "trace_recorded rt tr log"
  shows "returned tr c \<Longrightarrow> \<exists>xs. call_recorded rt xs log c"
    and "returned_after tr c c' \<Longrightarrow> \<exists>xs. returned xs c \<and> call_recorded rt xs log c'"
proof -
  show "\<exists>xs. call_recorded rt xs log c" if "returned tr c"
    using assms that by (auto simp: trace_recorded_def returned_def dest!: split_list)
  show "\<exists>xs. returned xs c \<and> call_recorded rt xs log c'" if "returned_after tr c c'"
    using assms that by (auto simp: trace_recorded_def returned_after_def)
qed

lemma left_history:
  assumes "transfer_lived es t" and "tr_status t \<notin> NON_TERMINAL"
  shows "\<exists>e \<in> set es. leaving_event e"
proof -
  have step: "\<exists>e \<in> set fs. leaving_event e" if "transfer_path st fs st'" "st \<in> NON_TERMINAL" "st' \<notin> NON_TERMINAL" for st fs st'
    using that
  proof (induction st fs st' rule: transfer_path.induct)
    case (2 st e es st')
    then obtain st1 where st1: "transfer_arrow st e st1" "transfer_path st1 es st'" by auto
    show ?case
    proof (cases "st1 \<in> NON_TERMINAL")
      case True
      with 2 st1 show ?thesis by auto
    next
      case False
      with st1(1) have "leaving_event (TransferE e)" by (cases rule: transfer_arrow.cases) (auto simp: NON_TERMINAL_def)
      then show ?thesis by simp
    qed
  qed auto
  from transfer_lived_path [OF assms(1)] obtain src dst m rvs fs where
    "es = TransferE (TransferInitiated src dst m rvs) # fs" "transfer_path INITIATED fs (tr_status t)" by blast
  with step [OF this(2)] assms(2) show ?thesis by (auto simp: NON_TERMINAL_def)
qed

section \<open>Activities that return have left their record\<close>

context ledger_repository
begin

lemma evolves_history: "evolves s s' \<Longrightarrow> ok s \<Longrightarrow> \<exists>more. history aid (log s') = history aid (log s) @ more"
  by (auto simp: evolves_def history_def stream_events_append dest!: ledger_steps_grow)

text \<open>A save that returns has written the buffer, behind what was there.\<close>

lemma save_writes:
  assumes "ok s" and "list_all event_ok (agg_pending a)" and "repo_save repo aid a md s = (Inr x, s')"
  shows "\<exists>more. history aid (log s') = history aid (log s) @ more @ agg_pending a" and
    "expected_version a = int (length (history aid (log s))) \<Longrightarrow>
      \<exists>more. history aid (log s') = history aid (log s) @ agg_pending a @ more"
proof -
  have inv: "invar s" using assms(1) by (simp add: ok_def)
  from save_cases(2) [OF inv assms(3)] obtain l where l: "rely (log s) l"
    and c: "log s' = l \<and> agg_pending a = [] \<or>
      expected_version a = int (length (history aid l)) \<and> (\<exists>ss m. log s' = l @ ss \<and>
        extends_log rt stream_type aid (current_version stream_type aid l) m l (agg_pending a) ss)" by auto
  obtain ts where ts: "l = log s @ ts" using rely_grows [OF l] ..
  have hl: "history aid l = history aid (log s) @ stream_events rt stream_type aid ts"
    by (simp add: ts history_def stream_events_append)
  have written: "history aid (log s') = history aid l @ agg_pending a"
    using c decode_extension(2) [OF _ assms(2)] by (auto simp: history_def stream_events_append)
  with hl show "\<exists>more. history aid (log s') = history aid (log s) @ more @ agg_pending a" by simp
  assume v: "expected_version a = int (length (history aid (log s)))"
  from c show "\<exists>more. history aid (log s') = history aid (log s) @ agg_pending a @ more"
  proof
    assume "log s' = l \<and> agg_pending a = []"
    with hl show ?thesis by simp
  next
    assume "expected_version a = int (length (history aid l)) \<and> (\<exists>ss m. log s' = l @ ss \<and>
        extends_log rt stream_type aid (current_version stream_type aid l) m l (agg_pending a) ss)"
    with v hl have "stream_events rt stream_type aid ts = []" by simp
    with hl written show ?thesis by simp
  qed
qed

text \<open>Load, change, save: if it returns, the change of the loaded history is in the log.\<close>

lemma update_writes:
  assumes "ok s" and change: "legal_change cmd"
    and run: "bindM (repo_load repo aid) (\<lambda>found. case found of None \<Rightarrow> miss
      | Some a \<Rightarrow> if guard a then bindM (liftE (cmd a)) (\<lambda>a'. bindM (repo_save repo aid a' md) (\<lambda>_. returnM ())) else skip) s = (Inr x, s')"
  obtains (missing) s1 where "evolves s s1" and "history aid (log s1) = []" and "miss s1 = (Inr x, s')"
  | (skipped) s1 a where "evolves s s1" and "history aid (log s1) \<noteq> []" and "replay (history aid (log s1)) = Inr a"
      and "\<not> guard a" and "skip s1 = (Inr x, s')"
  | (written) es a a' more where "es \<noteq> []" and "legal_history stream_type es" and "replay es = Inr a" and "guard a"
      and "cmd a = Inr a'" and "history aid (log s') = es @ agg_pending a' @ more"
proof -
  obtain r s1 where load: "repo_load repo aid s = (r, s1)" by fastforce
  then obtain found where found: "r = Inr found" using run by (cases r) (auto simp: bindM_def)
  have e1: "evolves s s1" using keepsD [OF keeps_load load] .
  then have ok1: "ok s1" using assms(1) by (simp add: evolves_def)
  have inv: "invar s" using assms(1) by (simp add: ok_def)
  have dec: "log_decodes rt (log s1)" using ok1 by (simp add: ok_def ledger_ok_def)
  let ?es = "history aid (log s1)"
  have loaded: "case found of None \<Rightarrow> ?es = [] | Some a \<Rightarrow> ?es \<noteq> [] \<and> replay ?es = Inr a"
    using load_cases(3) [OF inv load dec] found by (auto split: option.splits if_splits sum.splits simp: map_sum_def)
  show thesis
  proof (cases found)
    case None
    with run load found loaded e1 show ?thesis by (intro missing [of s1]) (auto simp: bindM_Inr)
  next
    case (Some a)
    then have es: "?es \<noteq> []" "replay ?es = Inr a" using loaded by simp_all
    show ?thesis
    proof (cases "guard a")
      case False
      with run load found Some es e1 show ?thesis by (intro skipped [of s1 a]) (auto simp: bindM_Inr)
    next
      case True
      then obtain a' y where a': "cmd a = Inr a'" and save: "repo_save repo aid a' md s1 = (Inr y, s')"
        using run load found Some by (cases "cmd a") (auto simp: bindM_def split: prod.splits sum.splits)
      have legal: "legal_history stream_type ?es" using ok1 by (simp add: ok_def ledger_ok_def history_def)
      with change es a' have ch: "expected_version a' = expected_version a" "list_all event_ok (agg_pending a')"
        by (auto simp: legal_change_def)
      have "expected_version a' = int (length ?es)" using ch(1) replay_frame(3) [OF es(2)] by simp
      from save_writes(2) [OF ok1 ch(2) save this] obtain more where "history aid (log s') = ?es @ agg_pending a' @ more" ..
      with es legal True a' show ?thesis by (intro written [of ?es a a' more])
    qed
  qed
qed

end

context ledger_log
begin

lemma evolves_grows: "evolves s s' \<Longrightarrow> ok s \<Longrightarrow> \<exists>ss. log s' = log s @ ss"
  by (auto simp: evolves_def dest: ledger_steps_grow)

lemma recorded_evolves:
  assumes "evolves s s'" and "ok s"
  shows "op_recorded rt (log s) aid op \<Longrightarrow> op_recorded rt (log s') aid op"
    and "entry_recorded rt (log s) eid \<Longrightarrow> entry_recorded rt (log s') eid"
  using evolves_grows [OF assms] by (auto intro: recorded_grows)

lemma catch_terminal_returns: "catch_terminal cs m s = (Inr x, s') \<Longrightarrow> m s = (Inr x, s')"
  by (auto simp: catch_terminal_def catchM_def split: prod.splits sum.splits option.splits if_splits)

lemma bindM_returns: "bindM m f s = (Inr x, s') \<Longrightarrow> \<exists>y s1. m s = (Inr y, s1) \<and> f y s1 = (Inr x, s')"
  by (auto simp: bindM_def split: prod.splits sum.splits)

text \<open>Moving an account that exists, or that must exist.\<close>

lemma move_account_records:
  assumes ok: "ok s" and run: "move_account repos aid md miss cmd s = (Inr x, s')"
    and cmd: "\<And>a a'. cmd a = Inr a' \<Longrightarrow> \<exists>c. run_account_command c a = Inr a' \<and> event_op (command_event c) = Some op"
    and miss: "(\<forall>t. isl (fst (miss t))) \<or> stream_events rt ACCOUNT_STREAM aid (log s) \<noteq> []"
  shows "op_recorded rt (log s') aid op"
proof -
  have legal: "acc.legal_change cmd" by (rule account_legal_change) (use cmd in blast)
  from run have run': "bindM (repo_load acc.repo aid) (\<lambda>found. case found of None \<Rightarrow> miss
      | Some a \<Rightarrow> if True then bindM (liftE (cmd a)) (\<lambda>a'. bindM (repo_save acc.repo aid a' (Some md)) (\<lambda>_. returnM ())) else raiseM KeyError) s = (Inr x, s')"
    unfolding move_account_def repositories if_True .
  from ok legal run' show ?thesis
  proof (cases rule: acc.update_writes)
    case (missing s1)
    with acc.evolves_history [OF missing(1) ok, of aid] miss show ?thesis
      by (auto simp: acc.history_def) (metis fst_conv sum.disc(2))
  next
    case (written es a a' more)
    then obtain b where b: "account_lived es b" by auto
    obtain c where c: "run_account_command c a = Inr a'" "event_op (command_event c) = Some op" using cmd [OF written(5)] by blast
    have load: "load_from_history account_apply account_init es = Inr a" using written(3) by (simp add: acc.replay_def)
    have "set (operation_ids (es @ agg_pending a')) = acc_applied_ops a'"
      using account_lived_ops [OF account_change_legal(3) [OF b load c(1)]] by blast
    moreover have "op \<in> acc_applied_ops a'" using run_account_command_ops_mono [OF c(1)] c(2) by auto
    ultimately show ?thesis using written(6) by (auto simp: op_recorded_def acc.history_def)
  qed simp
qed

lemma account_commands_have_ops:
  "account_hold m op a = Inr a' \<Longrightarrow> \<exists>c. run_account_command c a = Inr a' \<and> event_op (command_event c) = Some op"
  "account_debit m op a = Inr a' \<Longrightarrow> \<exists>c. run_account_command c a = Inr a' \<and> event_op (command_event c) = Some op"
  "account_credit m op a = Inr a' \<Longrightarrow> \<exists>c. run_account_command c a = Inr a' \<and> event_op (command_event c) = Some op"
  "account_release_hold m op a = Inr a' \<Longrightarrow> \<exists>c. run_account_command c a = Inr a' \<and> event_op (command_event c) = Some op"
  by (metis run_account_command.simps command_event.simps event_op.simps)+

text \<open>A movement that must find its account, followed by a step of the transfer.\<close>

lemma move_then_advance_records:
  assumes ok: "ok s"
    and run: "bindM (catch_terminal cs (move_account repos aid md (raiseM e) cmd)) (\<lambda>_. advance_transfer repos tid md' sts step) s = (Inr x, s')"
    and cmd: "\<And>a a'. cmd a = Inr a' \<Longrightarrow> \<exists>c. run_account_command c a = Inr a' \<and> event_op (command_event c) = Some op"
    and adv: "keeps evolves (advance_transfer repos tid md' sts step)"
  shows "op_recorded rt (log s') aid op"
proof -
  from bindM_returns [OF run] obtain y s1 where
    1: "catch_terminal cs (move_account repos aid md (raiseM e) cmd) s = (Inr y, s1)"
      "advance_transfer repos tid md' sts step s1 = (Inr x, s')" by blast
  note m = catch_terminal_returns [OF 1(1)]
  have "evolves s s1" using keepsD [OF keeps_move_account m] cmd by blast
  then have "ok s1" using ok by (simp add: evolves_def)
  with move_account_records [OF ok m cmd] recorded_evolves(1) [OF keepsD [OF adv 1(2)]] show ?thesis by auto
qed

lemma account_activities_record:
  assumes "ok s"
  shows "hold_funds rt repos d s = (Inr x, s') \<Longrightarrow>
      op_recorded rt (log s') (ti_source_account_id d) (operation_id rt (ti_transfer_id d) ''hold'')"
    and "settle_debit rt repos d s = (Inr x, s') \<Longrightarrow>
      op_recorded rt (log s') (ti_source_account_id d) (operation_id rt (ti_transfer_id d) ''debit'')"
    and "settle_credit rt repos d s = (Inr x, s') \<Longrightarrow>
      op_recorded rt (log s') (ti_destination_account_id d) (operation_id rt (ti_transfer_id d) ''credit'')"
    and "refund_source rt repos rd s = (Inr x, s') \<Longrightarrow>
      op_recorded rt (log s') (ri_source_account_id rd) (operation_id rt (ri_transfer_id rd) ''refund'')"
    and "release_hold rt repos d s = (Inr x, s') \<Longrightarrow> stream_events rt ACCOUNT_STREAM (ti_source_account_id d) (log s) \<noteq> [] \<Longrightarrow>
      op_recorded rt (log s') (ti_source_account_id d) (operation_id rt (ti_transfer_id d) ''release'')"
proof -
  note ops = account_commands_have_ops and then_advance = move_then_advance_records [OF assms]
  show "hold_funds rt repos d s = (Inr x, s') \<Longrightarrow>
      op_recorded rt (log s') (ti_source_account_id d) (operation_id rt (ti_transfer_id d) ''hold'')"
    unfolding hold_funds_def Let_def by (rule then_advance [OF _ ops(1)]) auto
  show "settle_credit rt repos d s = (Inr x, s') \<Longrightarrow>
      op_recorded rt (log s') (ti_destination_account_id d) (operation_id rt (ti_transfer_id d) ''credit'')"
    unfolding settle_credit_def Let_def by (rule then_advance [OF _ ops(3)]) auto
  show "refund_source rt repos rd s = (Inr x, s') \<Longrightarrow>
      op_recorded rt (log s') (ri_source_account_id rd) (operation_id rt (ri_transfer_id rd) ''refund'')"
    unfolding refund_source_def Let_def by (rule then_advance [OF _ ops(3)]) auto
  show "settle_debit rt repos d s = (Inr x, s') \<Longrightarrow>
      op_recorded rt (log s') (ti_source_account_id d) (operation_id rt (ti_transfer_id d) ''debit'')"
    unfolding settle_debit_def Let_def
    by (rule move_account_records [OF assms _ ops(2)]) (auto dest: catch_terminal_returns)
  show "release_hold rt repos d s = (Inr x, s') \<Longrightarrow> stream_events rt ACCOUNT_STREAM (ti_source_account_id d) (log s) \<noteq> [] \<Longrightarrow>
      op_recorded rt (log s') (ti_source_account_id d) (operation_id rt (ti_transfer_id d) ''release'')"
    unfolding release_hold_def Let_def by (rule move_account_records [OF assms _ ops(4)]) auto
qed

end

context ledger_log
begin

text \<open>Saving a new entry, and the two activities that do.\<close>

lemma post_and_save_records:
  assumes ok: "ok s" and ord: "set_order_ok rt" and m: "list_all (\<lambda>l. money_ok (leg_amount l)) legs"
    and "keeps evolves m" and "yields (\<lambda>j. journal_post rt eid legs ref = Inr j) m"
    and run: "bindM m (\<lambda>entry. bindM (repo_save jrn.repo eid entry md) (\<lambda>_. returnM ())) s = (Inr x, s')"
  shows "entry_recorded rt (log s') eid"
proof -
  from bindM_returns [OF run] obtain j s1 where j: "m s = (Inr j, s1)"
    "bindM (repo_save jrn.repo eid j md) (\<lambda>_. returnM ()) s1 = (Inr x, s')" by blast
  from bindM_returns [OF j(2)] obtain y where save: "repo_save jrn.repo eid j md s1 = (Inr y, s')" by auto
  have "ok s1" using keepsD [OF assms(4) j(1)] ok by (simp add: evolves_def)
  moreover have "journal_post rt eid legs ref = Inr j" using assms(5) j(1) unfolding yields_def by blast
  then have "agg_pending j = [JournalE (JournalEntryPosted legs ref)]" by (simp add: journal_post_eq_Inr [OF ord])
  ultimately show ?thesis
    using jrn.save_writes(1) [of s1 j eid md y s'] save m by (auto simp: entry_recorded_def jrn.history_def)
qed

lemma load_presence:
  assumes "ok s"
  shows "repo_load jrn.repo eid s = (Inr found, s1) \<Longrightarrow> found \<noteq> None \<longleftrightarrow> entry_recorded rt (log s1) eid"
    and "repo_load trf.repo tid s = (Inr found', s1) \<Longrightarrow> found' \<noteq> None \<longleftrightarrow> stream_events rt TRANSFER_STREAM tid (log s1) \<noteq> []"
proof -
  have inv: "invar s" using assms by (simp add: ok_def)
  have dec: "log_decodes rt (log s1)" if "evolves s s1" for s1
    using that assms by (simp add: evolves_def ok_def ledger_ok_def)
  show "found \<noteq> None \<longleftrightarrow> entry_recorded rt (log s1) eid" if l: "repo_load jrn.repo eid s = (Inr found, s1)"
    using jrn.load_cases(3) [OF inv l dec [OF keepsD [OF jrn.keeps_load l]]]
    by (auto simp: entry_recorded_def jrn.history_def map_sum_def split: if_splits sum.splits)
  show "found' \<noteq> None \<longleftrightarrow> stream_events rt TRANSFER_STREAM tid (log s1) \<noteq> []" if l: "repo_load trf.repo tid s = (Inr found', s1)"
    using trf.load_cases(3) [OF inv l dec [OF keepsD [OF trf.keeps_load l]]]
    by (auto simp: trf.history_def map_sum_def split: if_splits sum.splits)
qed

lemma post_journal_records:
  assumes ok: "ok s" and ord: "set_order_ok rt" and inp: "input_ok d" and run: "post_journal rt repos d s = (Inr x, s')"
  shows "entry_recorded rt (log s') (journal_entry_id_for rt (ti_transfer_id d))"
proof -
  let ?eid = "journal_entry_id_for rt (ti_transfer_id d)"
  let ?legs = "[leg_debit (ti_source_account_id d) (ti_amount d), leg_credit (ti_destination_account_id d) (ti_amount d)]"
  let ?md = "transfer_meta (ti_transfer_id d) (ti_traceparent d)"
  let ?post = "catch_terminal [UnknownAccount, AccountNotActive, CurrencyMismatch, UnbalancedEntry]
      (post_entry rt (repository_snapshot acc.repo) ?eid ?legs (Some (str_uuid (ti_transfer_id d))))"
  let ?new = "bindM ?post (\<lambda>entry. bindM (repo_save jrn.repo ?eid entry (Some ?md)) (\<lambda>_. returnM ()))"
  have legs: "list_all (\<lambda>l. money_ok (leg_amount l)) ?legs" using inp by (simp add: leg_debit_def leg_credit_def input_ok_def)
  note keep = keeps_post_and_save [OF ord legs keeps_catch_terminal [OF keeps_post_entry] yields_post_entry]
  from bindM_returns [OF run [unfolded post_journal_def repositories Let_def]] obtain found s1 where
    load: "repo_load jrn.repo ?eid s = (Inr found, s1)"
    and rest: "bindM (if found = None then ?new else returnM ()) (\<lambda>_. bindM (advance_transfer repos (ti_transfer_id d) ?md {HELD}
      (mark_posted ?eid)) (\<lambda>_. returnM (str_uuid ?eid))) s1 = (Inr x, s')" by blast
  have ok1: "ok s1" using keepsD [OF jrn.keeps_load load] ok by (simp add: evolves_def)
  from bindM_returns [OF rest] obtain y s2 where
    2: "(if found = None then ?new else returnM ()) s1 = (Inr y, s2)"
      "bindM (advance_transfer repos (ti_transfer_id d) ?md {HELD} (mark_posted ?eid)) (\<lambda>_. returnM (str_uuid ?eid)) s2 = (Inr x, s')" by blast
  have "evolves s1 s2 \<and> entry_recorded rt (log s2) ?eid"
  proof (cases found)
    case None
    then have new: "?new s1 = (Inr y, s2)" using 2(1) by simp
    from keepsD [OF keep new] post_and_save_records [OF ok1 ord legs keeps_catch_terminal [OF keeps_post_entry] yields_post_entry new]
    show ?thesis by simp
  next
    case (Some j)
    then have "s2 = s1" using 2(1) by simp
    then show ?thesis using load_presence(1) [OF ok load] Some evolves_refl by (simp add: reflp_def)
  qed
  then have rec2: "entry_recorded rt (log s2) ?eid" and "ok s2" using ok1 by (simp_all add: evolves_def)
  moreover have "keeps evolves (bindM (advance_transfer repos (ti_transfer_id d) ?md {HELD} (mark_posted ?eid)) (\<lambda>_. returnM (str_uuid ?eid)))"
    by (intro keeps_evolves keeps_transfer_commands)
  then have "evolves s2 s'" using 2(2) by (rule keepsD)
  ultimately show ?thesis using recorded_evolves(2) by blast
qed

lemma reverse_journal_records:
  assumes ok: "ok s" and ord: "set_order_ok rt" and run: "reverse_journal rt repos d s = (Inr x, s')"
    and posted: "entry_recorded rt (log s) (journal_entry_id_for rt (ti_transfer_id d))"
  shows "entry_recorded rt (log s') (journal_reversal_id_for rt (ti_transfer_id d))"
proof -
  let ?eid = "journal_entry_id_for rt (ti_transfer_id d)" and ?rid = "journal_reversal_id_for rt (ti_transfer_id d)"
  from bindM_returns [OF run [unfolded reverse_journal_def repositories Let_def]] obtain found s1 where
    load: "repo_load jrn.repo ?rid s = (Inr found, s1)" and rest: "(if found \<noteq> None then returnM ()
      else bindM (repo_load jrn.repo ?eid) (\<lambda>original. case original of None \<Rightarrow> returnM ()
        | Some j \<Rightarrow> bindM (liftE (journal_post rt ?rid (reversed_legs (je_legs j)) (Some (''reversal of '' @ str_uuid (ti_transfer_id d)))))
            (\<lambda>entry. bindM (repo_save jrn.repo ?rid entry (Some (transfer_meta (ti_transfer_id d) (ti_traceparent d)))) (\<lambda>_. returnM ())))) s1
      = (Inr x, s')" by blast
  have e1: "evolves s s1" using keepsD [OF jrn.keeps_load load] .
  then have ok1: "ok s1" using ok by (simp add: evolves_def)
  show ?thesis
  proof (cases found)
    case (Some j)
    then show ?thesis using rest load_presence(1) [OF ok load] by simp
  next
    case None
    note rest1 = rest [unfolded None simp_thms if_False]
    from bindM_returns [OF rest1] obtain original s2 where l2: "repo_load jrn.repo ?eid s1 = (Inr original, s2)"
      and rest2: "(case original of None \<Rightarrow> returnM ()
        | Some j \<Rightarrow> bindM (liftE (journal_post rt ?rid (reversed_legs (je_legs j)) (Some (''reversal of '' @ str_uuid (ti_transfer_id d)))))
            (\<lambda>entry. bindM (repo_save jrn.repo ?rid entry (Some (transfer_meta (ti_transfer_id d) (ti_traceparent d)))) (\<lambda>_. returnM ()))) s2
      = (Inr x, s')" by blast
    have e2: "evolves s1 s2" using keepsD [OF jrn.keeps_load l2] .
    then have ok2: "ok s2" using ok1 by (simp add: evolves_def)
    have "entry_recorded rt (log s2) ?eid" using recorded_evolves(2) [OF e1 ok posted] recorded_evolves(2) [OF e2 ok1] by blast
    then obtain j where j: "original = Some j" using load_presence(1) [OF ok1 l2] by auto
    have "list_all (\<lambda>l. money_ok (leg_amount l)) (je_legs j)"
      by (rule loaded_entry_ok [OF ok1 l2 [unfolded j]])
    then show ?thesis
      using rest2 by (intro post_and_save_records [OF ok2 ord, of "reversed_legs (je_legs j)"]) (auto simp: j reversed_legs_money_ok intro: yields_liftE)
  qed
qed

end

context ledger_log
begin

text \<open>The transfer's own record: opened, and taken out of its open states.\<close>

lemma record_initiated_records:
  assumes ok: "ok s" and inp: "input_ok d" and run: "record_initiated rt repos d s = (Inr x, s')"
  shows "stream_events rt TRANSFER_STREAM (ti_transfer_id d) (log s') \<noteq> []"
proof -
  let ?tid = "ti_transfer_id d"
  let ?init = "transfer_initiate ?tid (ti_source_account_id d) (ti_destination_account_id d) (ti_amount d) (ti_reversal_of d)"
  from bindM_returns [OF run [unfolded record_initiated_def repositories]] obtain found s1 where
    load: "repo_load trf.repo ?tid s = (Inr found, s1)" and rest: "(if found \<noteq> None then returnM ()
      else bindM (catch_terminal [SameAccountTransfer, InvalidAmount] (liftE ?init)) (\<lambda>t.
        bindM (repo_save trf.repo ?tid t (Some (transfer_meta ?tid (ti_traceparent d)))) (\<lambda>_. returnM ()))) s1 = (Inr x, s')" by blast
  have ok1: "ok s1" using keepsD [OF trf.keeps_load load] ok by (simp add: evolves_def)
  show ?thesis
  proof (cases found)
    case (Some t)
    then show ?thesis using rest load_presence(2) [OF ok load] by simp
  next
    case None
    note rest1 = rest [unfolded None simp_thms if_False]
    from bindM_returns [OF rest1] obtain t s2 where
      "catch_terminal [SameAccountTransfer, InvalidAmount] (liftE ?init) s1 = (Inr t, s2)"
      and save: "bindM (repo_save trf.repo ?tid t (Some (transfer_meta ?tid (ti_traceparent d)))) (\<lambda>_. returnM ()) s2 = (Inr x, s')" by blast
    from catch_terminal_returns [OF this(1)] have t: "?init = Inr t" "s2 = s1" by (cases ?init; auto)+
    then have "agg_pending t \<noteq> []" "list_all event_ok (agg_pending t)"
      using inp by (auto simp: transfer_initiate_eq_Inr input_ok_def)
    moreover obtain y where "repo_save trf.repo ?tid t (Some (transfer_meta ?tid (ti_traceparent d))) s1 = (Inr y, s')"
      using bindM_returns [OF save] t(2) by auto
    ultimately show ?thesis using trf.save_writes(1) [OF ok1, of t ?tid] by (fastforce simp: trf.history_def)
  qed
qed

lemma fail_transfer_records:
  assumes ok: "ok s" and run: "fail_transfer repos fd s = (Inr x, s')"
    and opened: "stream_events rt TRANSFER_STREAM (fi_transfer_id fd) (log s) \<noteq> []"
  shows "transfer_left rt (log s') (fi_transfer_id fd)"
proof -
  have cmd: "\<And>t t'. fail (fi_reason fd) (fi_detail fd) t = Inr t' \<Longrightarrow> run_transfer_command (Fail (fi_reason fd) (fi_detail fd)) t = Inr t'"
    by simp
  then have legal: "trf.legal_change (fail (fi_reason fd) (fi_detail fd))" by (intro transfer_legal_change) blast
  from ok legal run [unfolded fail_transfer_def advance_transfer_def repositories] show ?thesis
  proof (cases rule: trf.update_writes)
    case (missing s1)
    with trf.evolves_history [OF missing(1) ok, of "fi_transfer_id fd"] opened show ?thesis by (auto simp: trf.history_def)
  next
    case (skipped s1 t)
    have "legal_history TRANSFER_STREAM (trf.history (fi_transfer_id fd) (log s1))"
      using skipped(1) ok by (simp add: evolves_def ok_def ledger_ok_def trf.history_def)
    then obtain u where u: "transfer_lived (trf.history (fi_transfer_id fd) (log s1)) u" using skipped(2) by auto
    have "transfer_lived (trf.history (fi_transfer_id fd) (log s1)) t"
      by (rule transfer_lived.loaded [OF u skipped(3) [unfolded trf.replay_def]])
    from left_history [OF this] skipped show ?thesis by (auto simp: transfer_left_def trf.history_def)
  next
    case (written es t t' more)
    then obtain u where u: "transfer_lived es u" by auto
    have load: "load_from_history transfer_apply transfer_init es = Inr t" using written(3) by (simp add: trf.replay_def)
    have "transfer_lived (es @ agg_pending t') t'" by (rule transfer_change_legal(3) [OF u load cmd [OF written(5)]])
    moreover have "transfer_arrow (tr_status t) (TransferFailed (fi_reason fd) (fi_detail fd)) (tr_status t')"
      using iffD1 [OF run_transfer_command_eq_Inr cmd [OF written(5)]] by simp
    then have "tr_status t' = FAILED" by (cases rule: transfer_arrow.cases)
    ultimately have "\<exists>e \<in> set (es @ agg_pending t'). leaving_event e"
      by (intro left_history [of _ t']) (simp_all add: NON_TERMINAL_def)
    with written(6) show ?thesis by (auto simp: transfer_left_def trf.history_def)
  qed
qed

end

context ledger_log
begin

lemma unitV_returns: "unitV m s = (Inr x, s') \<Longrightarrow> \<exists>y. m s = (Inr y, s')"
  by (auto simp: unitV_def dest!: bindM_returns)

text \<open>What a returned call relies on: the records of the calls before it.\<close>

lemma run_activity_records:
  assumes ok: "ok s" and ord: "set_order_ok rt" and "call_ok call"
    and tr: "trace_recorded rt tr (log s)" and run: "run_activity rt repos call s = (Inr x, s')"
  shows "call_recorded rt tr (log s') call"
proof (cases call)
  case (ReverseJournal d)
  have "entry_recorded rt (log s) (journal_entry_id_for rt (ti_transfer_id d))" if "returned tr (PostJournal d)"
    using trace_recordedD(1) [OF tr that] by simp
  with run ReverseJournal show ?thesis by (auto dest!: unitV_returns intro: reverse_journal_records [OF ok ord])
next
  case (ReleaseHold_act d)
  have "stream_events rt ACCOUNT_STREAM (ti_source_account_id d) (log s) \<noteq> []" if "returned tr (HoldFunds d)"
    using trace_recordedD(1) [OF tr that] by (auto simp: op_recorded_def operation_ids_def)
  with run ReleaseHold_act show ?thesis by (auto dest!: unitV_returns intro: account_activities_record(5) [OF ok])
next
  case (FailTransfer fd)
  have "stream_events rt TRANSFER_STREAM (fi_transfer_id fd) (log s) \<noteq> []"
    if "returned tr (RecordInitiated i)" "ti_transfer_id i = fi_transfer_id fd" for i
    using trace_recordedD(1) [OF tr that(1)] that(2) by simp
  with run FailTransfer show ?thesis by (auto dest!: unitV_returns intro: fail_transfer_records [OF ok])
next
  case (RecordInitiated d)
  with run assms(3) show ?thesis by (auto dest!: unitV_returns dest: record_initiated_records [OF ok])
next
  case (PostJournal d)
  with run assms(3) show ?thesis by (auto dest!: bindM_returns dest: post_journal_records [OF ok ord])
qed (use run in \<open>auto dest!: unitV_returns intro: account_activities_record [OF ok]\<close>)

text \<open>
  However often the service tried, a call that returned had an attempt that returned; and whatever
  the service did, the log moved on by legal steps.
\<close>

lemma attempts_return:
  assumes "attempts estr act n s res" and "keeps evolves act" and "res = (Inr x, s')"
  shows "\<exists>s1. evolves s s1 \<and> act s1 = (Inr x, s')"
  using assms
proof (induction rule: attempts.induct)
  case (returned s y s'' n)
  then show ?case using evolves_refl by (auto simp: reflp_def)
next
  case (retried s e s'' n res)
  then show ?case using evolves_trans by (meson keepsD transpD)
next
  case (lost s r s'' n res)
  then show ?case using evolves_trans by (meson keepsD transpD)
qed auto

definition traced_step :: "'s \<times> saga_trace \<Rightarrow> 's \<times> saga_trace \<Rightarrow> bool" where
  "traced_step p q \<longleftrightarrow> evolves (fst p) (fst q) \<and>
     (ok (fst p) \<and> trace_recorded rt (snd p) (log (fst p)) \<longrightarrow> trace_recorded rt (snd q) (log (fst q)))"

lemma saga_relation_traced:
  assumes ord: "set_order_ok rt" and drv: "temporal_contract rt repos estr drv"
  shows "saga_relation traced_step (traced drv)"
proof
  show "reflp traced_step" using evolves_refl by (simp add: reflp_def traced_step_def)
  show "transp traced_step"
    using evolves_trans by (auto simp: transp_def traced_step_def evolves_def)
  fix n :: nat and call
  assume n: "0 < n" and call: "call_ok call"
  have "traced_step (s, tr) (s', tr @ [(call, \<not> isl r)])" if run: "drv n call s = (r, s')" for s tr r s'
  proof -
    have att: "attempts estr (run_activity rt repos call) n s (r, s')"
      using drv n run by (metis temporal_contract_def)
    note keep = keeps_run_activity [OF ord call]
    have e: "evolves s s'" using attempts_keep [OF att keep evolves_refl evolves_trans] by simp
    moreover have "trace_recorded rt (tr @ [(call, \<not> isl r)]) (log s')" if ok: "ok s" and tr: "trace_recorded rt tr (log s)"
    proof -
      have old: "trace_recorded rt tr (log s')" using evolves_grows [OF e ok] tr by (auto intro: trace_recorded_grows)
      have "call_recorded rt tr (log s') call" if "r = Inr x" for x
      proof -
        from attempts_return [OF att keep] that obtain s1 where s1: "evolves s s1" "run_activity rt repos call s1 = (Inr x, s')" by blast
        then have "ok s1" using ok by (simp add: evolves_def)
        moreover have "trace_recorded rt tr (log s1)" using evolves_grows [OF s1(1) ok] tr by (auto intro: trace_recorded_grows)
        ultimately show ?thesis using run_activity_records [OF _ ord call _ s1(2)] by blast
      qed
      with old show ?thesis by (cases r) (simp_all add: trace_recorded_snoc)
    qed
    ultimately show ?thesis by (simp add: traced_step_def)
  qed
  then show "keeps traced_step (traced drv n call)" by (auto simp: keeps_def traced_def split: prod.splits)
qed

lemma workflow_trace_recorded:
  assumes "set_order_ok rt" and "temporal_contract rt repos estr drv" and "input_ok d" and "ok s"
    and "workflow_run (traced drv) d (workflow_init (s, []) signals) = (r, w')"
  shows "trace_recorded rt (trace_of w') (log (fst (wf_world w')))"
  using keepsD [OF saga_relation.keeps_workflow [OF saga_relation_traced [OF assms(1,2)] assms(3)] assms(5)] assms(4)
  by (simp add: on_world_def traced_step_def trace_of_def workflow_init_def)

end

section \<open>What a result guarantees\<close>

text \<open>
  The result of a run, its trace and the log at its end. \<open>tried\<close> is a call the workflow executed at
  all, whatever came of it; the operations and entries are those in the log.
\<close>

definition saga_outcome ::
  "runtime \<Rightarrow> transfer_input \<Rightarrow> saga_trace \<Rightarrow> event_list \<Rightarrow> transfer_status \<Rightarrow> workflow_exn + transfer_result \<Rightarrow> bool" where
  "saga_outcome rt d tr log status r \<longleftrightarrow>
    (let tid = ti_transfer_id d; source = ti_source_account_id d; destination = ti_destination_account_id d;
         held = op_recorded rt log source (operation_id rt tid ''hold'');
         debited = op_recorded rt log source (operation_id rt tid ''debit'');
         credited = op_recorded rt log destination (operation_id rt tid ''credit'');
         refunded = op_recorded rt log source (operation_id rt tid ''refund'');
         released = op_recorded rt log source (operation_id rt tid ''release'');
         posted = entry_recorded rt log (journal_entry_id_for rt tid);
         reversed = entry_recorded rt log (journal_reversal_id_for rt tid);
         tried = executed tr
     in case r of
       Inr res \<Rightarrow>
         res_status res = COMPLETED \<and> held \<and> posted \<and> debited \<and> credited \<and>
           \<not> tried (ReleaseHold_act d) \<and> \<not> tried (ReverseJournal d) \<and> \<not> returned tr (refund_of d) \<or>
         res_status res = RECONCILED \<and> held \<and> posted \<and> debited \<and> refunded \<and>
           \<not> tried (ReleaseHold_act d) \<and> \<not> tried (ReverseJournal d) \<and> \<not> returned tr (SettleCredit d) \<or>
         res_status res = FAILED \<and> transfer_left rt log tid \<and> \<not> tried (refund_of d) \<and>
           (\<not> tried (PostJournal d) \<and> \<not> tried (SettleDebit d) \<and> \<not> tried (SettleCredit d) \<and>
              \<not> tried (ReleaseHold_act d) \<and> \<not> tried (ReverseJournal d) \<or>
            held \<and> released \<and> raised tr (PostJournal d) \<and> \<not> tried (SettleDebit d) \<and> \<not> tried (SettleCredit d) \<and>
              \<not> tried (ReverseJournal d) \<or>
            held \<and> released \<and> posted \<and> reversed \<and> raised tr (SettleDebit d) \<and> \<not> tried (SettleCredit d) \<or>
            held \<and> posted \<and> reversed \<and> debited \<and> \<not> tried (ReleaseHold_act d) \<and> raised tr (SettleCredit d) \<and>
              (\<exists>e. raised tr (park_call d e)))
     | Inl AwaitingSignal \<Rightarrow>
         status = NEEDS_RECONCILIATION \<and> held \<and> posted \<and> debited \<and> (\<exists>e. returned tr (park_call d e)) \<and>
         \<not> returned tr (SettleCredit d) \<and> \<not> returned tr (refund_of d) \<and>
         \<not> tried (ReleaseHold_act d) \<and> \<not> tried (ReverseJournal d)
     | Inl UuidValueError \<Rightarrow> held \<and> posted \<and> debited \<and> (credited \<or> refunded)
     | Inl (ActivityError f) \<Rightarrow>
         raised tr (RecordInitiated d) \<or> raised tr (ReleaseHold_act d) \<or> raised tr (ReverseJournal d) \<or>
         (\<exists>e. raised tr (fail_call d e)))"

lemma returned_records:
  assumes "trace_recorded rt tr log"
  shows "returned tr (HoldFunds d) \<Longrightarrow> op_recorded rt log (ti_source_account_id d) (operation_id rt (ti_transfer_id d) ''hold'')"
    and "returned tr (PostJournal d) \<Longrightarrow> entry_recorded rt log (journal_entry_id_for rt (ti_transfer_id d))"
    and "returned tr (SettleDebit d) \<Longrightarrow> op_recorded rt log (ti_source_account_id d) (operation_id rt (ti_transfer_id d) ''debit'')"
    and "returned tr (SettleCredit d) \<Longrightarrow>
      op_recorded rt log (ti_destination_account_id d) (operation_id rt (ti_transfer_id d) ''credit'')"
    and "returned tr (refund_of d) \<Longrightarrow> op_recorded rt log (ti_source_account_id d) (operation_id rt (ti_transfer_id d) ''refund'')"
    and "returned_after tr (HoldFunds d) (ReleaseHold_act d) \<Longrightarrow>
      op_recorded rt log (ti_source_account_id d) (operation_id rt (ti_transfer_id d) ''release'')"
    and "returned_after tr (PostJournal d) (ReverseJournal d) \<Longrightarrow>
      entry_recorded rt log (journal_reversal_id_for rt (ti_transfer_id d))"
    and "returned_after tr (RecordInitiated d) (fail_call d e) \<Longrightarrow> transfer_left rt log (ti_transfer_id d)"
  using trace_recordedD [OF assms] by (fastforce simp: refund_of_def fail_call_def)+

lemma returned_after_returned: "returned_after tr c c' \<Longrightarrow> returned tr c"
  by (auto simp: returned_after_def)

lemma run_outcome_recorded:
  assumes "run_outcome d w r" and "trace_recorded rt (trace_of w) log"
  shows "saga_outcome rt d (trace_of w) log (wf_status w) r"
proof (cases r)
  case (Inl e)
  then show ?thesis
    using assms(1) returned_records [OF assms(2), of d]
    by (cases e) (auto simp: run_outcome_def saga_outcome_def Let_def)
next
  case (Inr res)
  let ?tr = "trace_of w"
  note rec = returned_records [OF assms(2), of d]
  have undone: "\<exists>e. returned_after ?tr (RecordInitiated d) (fail_call d e) \<Longrightarrow> transfer_left rt log (ti_transfer_id d)"
    "returned_after ?tr (HoldFunds d) (ReleaseHold_act d) \<Longrightarrow> returned ?tr (HoldFunds d)"
    "returned_after ?tr (PostJournal d) (ReverseJournal d) \<Longrightarrow> returned ?tr (PostJournal d)"
    using rec(8) by (blast intro: returned_after_returned)+
  show ?thesis
    using assms(1) unfolding run_outcome_def saga_outcome_def Let_def Inr sum.case
    by (elim disjE conjE; simp add: rec undone)
qed

text \<open>
  C1. What the result of a saga says about the ledger, on a store with other legal clients and an
  execution service that may lose or repeat attempts. COMPLETED: the hold, the entry, the debit and
  the destination's credit are in the log and no compensation was tried. RECONCILED: the hold, the
  entry, the debit and the refund are in the log, and no credit was reported. FAILED: the transfer
  has left its open states, no refund was tried, and what was reported as done is undone: nothing
  after the hold was tried; or the hold is in the log with its release, and an entry that was posted
  with its reversal; except that after a failed credit whose parking failed too, the debit stays
  and no release is tried. A run that waits has parked the transfer with the debit in the log, and
  it raises only if the opening or a compensation raised. Every record is one the activity left; a call
  that raised is said to be tried only, since its effect may have happened.
\<close>

theorem saga_result_holds_in_ledger:
  assumes "ledger_log rt store log invar rely" and "set_order_ok rt" and "input_ok d"
    and "temporal_contract rt (build_repositories rt store ledger_registry) estr drv"
    and "invar s" and "ledger_ok rt (log s)"
  shows "case workflow_run (traced drv) d (workflow_init (s, []) signals) of (r, w') \<Rightarrow>
    workflow_run drv d (workflow_init s signals) = (r, untraced w') \<and>
    saga_outcome rt d (trace_of w') (log (wf_world (untraced w'))) (wf_status w') r"
proof -
  obtain r w' where run: "workflow_run (traced drv) d (workflow_init (s, []) signals) = (r, w')" by fastforce
  have "ledger_log.ok rt log invar s" using assms(5,6) by (simp add: ledger_log.ok_def [OF assms(1)])
  from run_outcome_recorded [OF workflow_run_outcome [OF run] ledger_log.workflow_trace_recorded [OF assms(1,2,4,3) this run]]
    traced_workflow_run [OF run] run show ?thesis by (simp add: untraced_def)
qed

theorem saga_result_holds_in_ledger_witness:
  "\<exists>log. account_at plain_runtime log 1 \<noteq> None \<and> account_at plain_runtime log 2 \<noteq> None \<and>
    (let d = \<lparr>ti_transfer_id = 5, ti_source_account_id = 1, ti_destination_account_id = 2, ti_amount = usd 40,
          ti_reversal_of = None, ti_traceparent = None\<rparr>;
         drv = temporal_execute plain_runtime (memory_repositories plain_runtime) exn_type_name
     in case workflow_run (traced drv) d (workflow_init (log, []) [REFUND_SOURCE]) of (r, w') \<Rightarrow>
       saga_outcome plain_runtime d (trace_of w') (wf_world (untraced w')) (wf_status w') r)"
proof -
  obtain log a b where log: "memory_invar log" "ledger_ok plain_runtime log"
    "account_at plain_runtime log = [1 \<mapsto> a, 2 \<mapsto> b]" by (rule sample_ledger)
  let ?d = "\<lparr>ti_transfer_id = 5, ti_source_account_id = 1, ti_destination_account_id = 2, ti_amount = usd 40,
    ti_reversal_of = None, ti_traceparent = None\<rparr>"
  have "input_ok ?d" by (simp add: input_ok_def money_ok_def usd_def)
  note run = saga_result_holds_in_ledger [OF memory_ledger_log [of plain_runtime] _ this
      temporal_prompt_contract [OF temporal_execute_prompt], of log exn_type_name "[REFUND_SOURCE]"]
  show ?thesis using run log by (intro exI [of _ log]) (auto simp: Let_def split: prod.splits)
qed

end
