(* ===== verification/Saga_Effects.thy ===== *)
theory Saga_Effects
  imports Saga_Guarantees
begin

text \<open>
  What the activities do to a ledger, and with them the saga: on a store without faults and other
  clients each activity is a function of the ledger view, and the runs of the workflow through its
  branches follow by composing them.
\<close>

section \<open>Effects of the shared passages\<close>

context sequential_ledger
begin

lemma runs_to_catch_terminal:
  "runs_to m v (Inr x) v' \<Longrightarrow> runs_to (catch_terminal cs m) v (Inr x) v'"
  "runs_to m v (Inl e) v' \<Longrightarrow> exn_class e = Some c \<Longrightarrow> c \<in> set cs \<Longrightarrow>
     runs_to (catch_terminal cs m) v (Inl (terminal e)) v'"
proof -
  show "runs_to m v (Inr x) v' \<Longrightarrow> runs_to (catch_terminal cs m) v (Inr x) v'"
    unfolding catch_terminal_def by (rule runs_to_catch(1))
  assume "runs_to m v (Inl e) v'" "exn_class e = Some c" "c \<in> set cs"
  then show "runs_to (catch_terminal cs m) v (Inl (terminal e)) v'"
    unfolding catch_terminal_def by (intro runs_to_catch(2)) (auto intro: runs_to_pure)
qed

lemma runs_to_move_account:
  assumes "lv_accounts v aid = Some a"
  shows "run_account_command c a = Inr a' \<Longrightarrow> cmd a = Inr a' \<Longrightarrow>
      runs_to (move_account repos aid md miss cmd) v (Inr ()) (put_account aid a' v)"
    and "cmd a = Inl e \<Longrightarrow> runs_to (move_account repos aid md miss cmd) v (Inl e) v"
proof -
  assume "run_account_command c a = Inr a'" "cmd a = Inr a'"
  then show "runs_to (move_account repos aid md miss cmd) v (Inr ()) (put_account aid a' v)"
    unfolding move_account_def repositories
    by (intro runs_to_bind [OF runs_to_load(1)])
      (auto simp: assms intro!: runs_to_bind [OF runs_to_pure(3)] runs_to_save_account [OF assms] runs_to_pure(1))
next
  assume "cmd a = Inl e"
  then show "runs_to (move_account repos aid md miss cmd) v (Inl e) v"
    unfolding move_account_def repositories
    by (intro runs_to_bind [OF runs_to_load(1)])
      (auto simp: assms intro!: runs_to_bind_raise runs_to_pure)
qed

lemma runs_to_move_account_miss:
  assumes "lv_accounts v aid = None" and "runs_to miss v r v'"
  shows "runs_to (move_account repos aid md miss cmd) v r v'"
  unfolding move_account_def repositories
  by (intro runs_to_bind [OF runs_to_load(1)]) (simp add: assms)

lemma runs_to_advance_transfer:
  assumes "lv_transfers v tid = Some t"
  shows "tr_status t \<in> sts \<Longrightarrow> run_transfer_command c t = Inr t' \<Longrightarrow> cmd t = Inr t' \<Longrightarrow>
      runs_to (advance_transfer repos tid md sts cmd) v (Inr ()) (put_transfer tid t' v)"
    and "tr_status t \<notin> sts \<Longrightarrow> runs_to (advance_transfer repos tid md sts cmd) v (Inr ()) v"
proof -
  assume "tr_status t \<in> sts" "run_transfer_command c t = Inr t'" "cmd t = Inr t'"
  then show "runs_to (advance_transfer repos tid md sts cmd) v (Inr ()) (put_transfer tid t' v)"
    unfolding advance_transfer_def repositories
    by (intro runs_to_bind [OF runs_to_load(3)])
      (auto simp: assms intro!: runs_to_bind [OF runs_to_pure(3)] runs_to_save_transfer [OF assms] runs_to_pure(1))
next
  assume "tr_status t \<notin> sts"
  then show "runs_to (advance_transfer repos tid md sts cmd) v (Inr ()) v"
    unfolding advance_transfer_def repositories
    by (intro runs_to_bind [OF runs_to_load(3)]) (auto simp: assms intro!: runs_to_pure)
qed

end

section \<open>The posting service on live accounts\<close>

definition snapshot_of :: "(uuid \<Rightarrow> account option) \<Rightarrow> uuid \<Rightarrow> account_snapshot option" where
  "snapshot_of accs aid = map_option
     (\<lambda>a. \<lparr>snap_account_id = aid, snap_currency = acc_currency a, snap_status = acc_status a\<rparr>) (accs aid)"

sublocale sequential_ledger \<subseteq> reader: status_reader "repository_snapshot acc.repo"
  "\<lambda>s. snapshot_of (account_at rt (log s))" ok
  by unfold_locales
    (auto simp: repository_snapshot_def bindM_def load_at snapshot_of_def split: option.splits)

text \<open>
  An account that can take part in an entry in currency \<open>c\<close>, and the class of the refusal of one that
  cannot.
\<close>

definition can_post :: "(uuid \<Rightarrow> account option) \<Rightarrow> string \<Rightarrow> uuid \<Rightarrow> bool" where
  "can_post accs c aid \<longleftrightarrow> (\<exists>a. accs aid = Some a \<and> acc_status a = OPEN \<and> acc_currency a = c)"

definition post_refusal :: "account option \<Rightarrow> string \<Rightarrow> domain_class option" where
  "post_refusal acc c =
     (case acc of
        None \<Rightarrow> Some UnknownAccount
      | Some a \<Rightarrow> if acc_status a \<noteq> OPEN then Some AccountNotActive
          else if acc_currency a \<noteq> c then Some CurrencyMismatch else None)"

lemma post_refusal_None: "post_refusal (accs aid) c = None \<longleftrightarrow> can_post accs c aid"
  by (auto simp: post_refusal_def can_post_def split: option.splits)

text \<open>The legs of a transfer: with a source that can post, the destination decides, in whatever order the set of accounts is read.\<close>

lemma transfer_posting_refusal:
  assumes "can_post accs (currency m) src" and "set order = {src, dst}" and "0 < amount m"
  shows "posting_refusal (snapshot_of accs) order [leg_debit src m, leg_credit dst m] = post_refusal (accs dst) (currency m)"
proof -
  let ?P = "\<lambda>aid. account_refusal (snapshot_of accs aid) \<noteq> None"
  have src: "\<not> ?P src" using assms(1) by (auto simp: can_post_def account_refusal_def snapshot_of_def)
  have find: "find ?P order = (if ?P dst then Some dst else None)"
  proof (cases "find ?P order")
    case None
    then have "\<not> ?P dst" using assms(2) unfolding find_None_iff by blast
    with None show ?thesis by simp
  next
    case (Some aid)
    then obtain i where "i < length order" "?P (order ! i)" "aid = order ! i" unfolding find_Some_iff by blast
    then have "?P aid" "aid \<in> {src, dst}" using assms(2) nth_mem by blast+
    then have "aid = dst" "?P dst" using src by blast+
    with Some show ?thesis by simp
  qed
  have "legs_balanced [leg_debit src m, leg_credit dst m]" by (rule transfer_legs_balanced [OF assms(3)])
  with find assms(1) show ?thesis
    by (auto simp: posting_refusal_def post_refusal_def account_refusal_def snapshot_of_def can_post_def leg_debit_def
        leg_credit_def split: option.splits)
qed

context sequential_ledger
begin

text \<open>The posting service over the accounts of the log, with the class of a refusal.\<close>

lemma posting_decides:
  assumes "set_order_ok rt" and "ok s"
  shows "case posting_refusal (snapshot_of (account_at rt (log s))) (rt_set_uuid rt (remdups (map leg_account_id legs))) legs of
      None \<Rightarrow> post_entry rt (repository_snapshot (accounts repos)) eid legs ref s =
        (Inr \<lparr>agg_version = 1, agg_pending = [JournalE (JournalEntryPosted legs ref)],
             je_entry_id = Some eid, je_legs = legs, je_posted = True\<rparr>, s)
    | Some c \<Rightarrow> \<exists>msg. post_entry rt (repository_snapshot (accounts repos)) eid legs ref s = (Inl (DomainError c msg), s)"
  unfolding repositories by (rule reader.post_entry_cases [OF assms(2,1)])

lemma runs_to_post_entry:
  fixes src dst :: uuid
  assumes ord: "set_order_ok rt" and "0 < amount m" and src: "can_post (lv_accounts v) (currency m) src"
  defines "legs \<equiv> [leg_debit src m, leg_credit dst m]"
  shows "can_post (lv_accounts v) (currency m) dst \<Longrightarrow>
      runs_to (post_entry rt (repository_snapshot acc.repo) eid legs ref) v
        (Inr \<lparr>agg_version = 1, agg_pending = [JournalE (JournalEntryPosted legs ref)],
           je_entry_id = Some eid, je_legs = legs, je_posted = True\<rparr>) v"
    and "post_refusal (lv_accounts v dst) (currency m) = Some c \<Longrightarrow> (\<exists>s. ok s \<and> view_of rt (log s) = v) \<Longrightarrow>
      \<exists>msg. runs_to (post_entry rt (repository_snapshot acc.repo) eid legs ref) v (Inl (DomainError c msg)) v"
proof -
  let ?order = "rt_set_uuid rt (remdups (map leg_account_id legs))"
  have "set ?order = {src, dst}" using ord by (auto simp: legs_def leg_debit_def leg_credit_def)
  then have refusal: "posting_refusal (snapshot_of (lv_accounts v)) ?order legs = post_refusal (lv_accounts v dst) (currency m)"
    unfolding legs_def by (rule transfer_posting_refusal [OF src _ assms(2)])
  have at: "account_at rt (log s) = lv_accounts v" if "view_of rt (log s) = v" for s
    using that by (auto simp: view_of_def)
  note decides = posting_decides [OF ord, where legs = legs and eid = eid and ref = ref, unfolded repositories]
  show "runs_to (post_entry rt (repository_snapshot acc.repo) eid legs ref) v
        (Inr \<lparr>agg_version = 1, agg_pending = [JournalE (JournalEntryPosted legs ref)],
           je_entry_id = Some eid, je_legs = legs, je_posted = True\<rparr>) v" if "can_post (lv_accounts v) (currency m) dst"
  proof -
    have none: "posting_refusal (snapshot_of (lv_accounts v)) ?order legs = None"
      using refusal iffD2 [OF post_refusal_None that] by simp
    have "post_entry rt (repository_snapshot acc.repo) eid legs ref s =
        (Inr \<lparr>agg_version = 1, agg_pending = [JournalE (JournalEntryPosted legs ref)],
           je_entry_id = Some eid, je_legs = legs, je_posted = True\<rparr>, s)" if "ok s" "view_of rt (log s) = v" for s
      using decides [OF that(1)] by (simp add: at [OF that(2)] none)
    then show ?thesis unfolding runs_to_def by simp
  qed
  assume c: "post_refusal (lv_accounts v dst) (currency m) = Some c" and "\<exists>s. ok s \<and> view_of rt (log s) = v"
  then obtain s0 where s0: "ok s0" "view_of rt (log s0) = v" by blast
  define e where "e = fst (post_entry rt (\<lambda>aid u. (Inr (snapshot_of (lv_accounts v) aid), u)) eid legs ref ())"
  have res: "post_entry rt (repository_snapshot acc.repo) eid legs ref s = (e, s)" if "ok s" "view_of rt (log s) = v" for s
    using reader.post_entry_known [OF that(1), of rt eid legs ref] at [OF that(2)] by (simp add: e_def)
  obtain msg where "e = Inl (DomainError c msg)" using decides [OF s0(1)] refusal c at [OF s0(2)] res [OF s0] by auto
  with res show "\<exists>msg. runs_to (post_entry rt (repository_snapshot acc.repo) eid legs ref) v (Inl (DomainError c msg)) v"
    unfolding runs_to_def by auto
qed

end

section \<open>Commands that succeed\<close>

lemma account_commands_succeed:
  assumes "account_inv a" and "acc_status a = OPEN" and "0 < amount m" and "currency m = acc_currency a"
    and "op \<notin> acc_applied_ops a"
  shows "amount m \<le> amount (acc_available a) \<Longrightarrow>
      account_hold m op a = Inr (account_moved (FundsHeld m op) (- amount m) (amount m) {op} a)"
    and "amount m \<le> amount (acc_reserved a) \<Longrightarrow>
      account_release_hold m op a = Inr (account_moved (HoldReleased m op) (amount m) (- amount m) {op} a)"
    and "amount m \<le> amount (acc_reserved a) \<Longrightarrow>
      account_debit m op a = Inr (account_moved (AccountDebited m op) 0 (- amount m) {op} a)"
    and "account_credit m op a = Inr (account_moved (AccountCredited m op) (amount m) 0 {op} a)"
  using assms record_balance_event [OF assms(1,4)]
  by (simp_all add: account_command_defs assert_operational_def assert_positive_def money_lt_def account_inv_def)

lemma transfer_commands_succeed:
  "tr_status t = INITIATED \<Longrightarrow> \<exists>t'. mark_held t = Inr t' \<and> tr_status t' = HELD"
  "tr_status t = HELD \<Longrightarrow> \<exists>t'. mark_posted eid t = Inr t' \<and> tr_status t' = POSTED \<and> tr_journal_entry_id t' = Some eid"
  "tr_status t = POSTED \<or> tr_status t = NEEDS_RECONCILIATION \<Longrightarrow>
     \<exists>t'. complete t = Inr t' \<and> tr_status t' = COMPLETED \<and> tr_journal_entry_id t' = tr_journal_entry_id t"
  "tr_status t \<in> NON_TERMINAL \<Longrightarrow>
     \<exists>t'. fail reason detail t = Inr t' \<and> tr_status t' = FAILED \<and> tr_failure_reason t' = Some reason"
  by (auto simp: transfer_command_defs assert_status_def record_event_def)

text \<open>The reason the workflow reads off a terminal domain error.\<close>

fun class_reason :: "domain_class \<Rightarrow> failure_reason" where
  "class_reason InsufficientFunds = INSUFFICIENT_FUNDS"
| "class_reason UnknownAccount = UNKNOWN_ACCOUNT"
| "class_reason AccountNotActive = ACCOUNT_NOT_ACTIVE"
| "class_reason CurrencyMismatch = CURRENCY_MISMATCH"
| "class_reason UnbalancedEntry = UNBALANCED"
| "class_reason _ = OTHER"

lemma reason_from_terminal [simp]:
  "reason_from (ApplicationCause msg (Some (error_code c))) = (class_reason c, msg)"
  by (cases c) (simp_all add: reason_from_def FailureReason_def all_failure_reasons_def)

section \<open>Effects of the activities\<close>

context sequential_ledger
begin

lemma runs_to_record_initiated:
  assumes "lv_transfers v (ti_transfer_id d) = None" and "input_ok d"
    and "transfer_initiate (ti_transfer_id d) (ti_source_account_id d) (ti_destination_account_id d)
      (ti_amount d) (ti_reversal_of d) = Inr t"
  shows "runs_to (record_initiated rt repos d) v (Inr ()) (put_transfer (ti_transfer_id d) t v)"
proof -
  have init: "runs_to (catch_terminal [SameAccountTransfer, InvalidAmount]
      (liftE (transfer_initiate (ti_transfer_id d) (ti_source_account_id d) (ti_destination_account_id d)
        (ti_amount d) (ti_reversal_of d)))) v (Inr t) v"
    unfolding assms(3) by (intro runs_to_catch_terminal(1) runs_to_pure(3))
  have "runs_to (bindM (catch_terminal [SameAccountTransfer, InvalidAmount]
      (liftE (transfer_initiate (ti_transfer_id d) (ti_source_account_id d) (ti_destination_account_id d)
        (ti_amount d) (ti_reversal_of d)))) (\<lambda>t. bindM (repo_save trf.repo (ti_transfer_id d) t md) (\<lambda>_. returnM ())))
      v (Inr ()) (put_transfer (ti_transfer_id d) t v)" for md
    by (rule runs_to_bind [OF init], intro runs_to_save_new_transfer [OF assms(1,3)] runs_to_pure(1))
      (use assms(2) in \<open>simp add: input_ok_def\<close>)
  then show ?thesis
    unfolding record_initiated_def repositories
    using assms(2) by (intro runs_to_bind [OF runs_to_load(3)]) (auto simp: assms(1) input_ok_def)
qed

lemma runs_to_hold_funds:
  assumes "lv_accounts v (ti_source_account_id d) = Some a" and "lv_transfers v (ti_transfer_id d) = Some t"
    and "account_hold (ti_amount d) (operation_id rt (ti_transfer_id d) ''hold'') a = Inr a'"
    and "mark_held t = Inr t'" and "tr_status t = INITIATED"
  shows "runs_to (hold_funds rt repos d) v (Inr ())
    (put_transfer (ti_transfer_id d) t' (put_account (ti_source_account_id d) a' v))"
  unfolding hold_funds_def Let_def
proof (rule runs_to_bind)
  show "runs_to (catch_terminal cs (move_account repos (ti_source_account_id d) md miss
      (account_hold (ti_amount d) (operation_id rt (ti_transfer_id d) ''hold'')))) v (Inr ())
      (put_account (ti_source_account_id d) a' v)" for cs md miss
    using assms(3) by (intro runs_to_catch_terminal(1) runs_to_move_account(1) [OF assms(1), of "Hold _ _"]) simp_all
  show "runs_to (advance_transfer repos (ti_transfer_id d) md {INITIATED} mark_held)
      (put_account (ti_source_account_id d) a' v) (Inr ())
      (put_transfer (ti_transfer_id d) t' (put_account (ti_source_account_id d) a' v))" for md
    using assms by (intro runs_to_advance_transfer(1) [of _ _ t _ MarkHeld]) simp_all
qed

lemma runs_to_hold_refused:
  assumes "case lv_accounts v (ti_source_account_id d) of
      None \<Rightarrow> e = DomainError UnknownAccount (str_uuid (ti_source_account_id d))
    | Some a \<Rightarrow> account_hold (ti_amount d) (operation_id rt (ti_transfer_id d) ''hold'') a = Inl e"
    and "exn_class e = Some c" and "c \<in> {InsufficientFunds, AccountNotActive, CurrencyMismatch, UnknownAccount}"
  shows "runs_to (hold_funds rt repos d) v (Inl (terminal e)) v"
proof -
  have "runs_to (move_account repos (ti_source_account_id d) md
      (raiseM (DomainError UnknownAccount (str_uuid (ti_source_account_id d))))
      (account_hold (ti_amount d) (operation_id rt (ti_transfer_id d) ''hold''))) v (Inl e) v" for md
  proof (cases "lv_accounts v (ti_source_account_id d)")
    case None
    with assms(1) show ?thesis by (auto intro!: runs_to_move_account_miss runs_to_pure(2))
  next
    case (Some a)
    with assms(1) show ?thesis by (auto intro!: runs_to_move_account(2))
  qed
  then show ?thesis
    unfolding hold_funds_def Let_def
    using assms(2,3) by (intro runs_to_bind_raise runs_to_catch_terminal(2)) auto
qed

lemma runs_to_post_journal:
  assumes ord: "set_order_ok rt" and "input_ok d" and "0 < amount (ti_amount d)"
    and "can_post (lv_accounts v) (currency (ti_amount d)) (ti_source_account_id d)"
    and "can_post (lv_accounts v) (currency (ti_amount d)) (ti_destination_account_id d)"
    and "lv_journals v (journal_entry_id_for rt (ti_transfer_id d)) = None"
    and "lv_transfers v (ti_transfer_id d) = Some t" and "tr_status t = HELD"
    and "mark_posted (journal_entry_id_for rt (ti_transfer_id d)) t = Inr t'"
  shows "runs_to (post_journal rt repos d) v (Inr (str_uuid (journal_entry_id_for rt (ti_transfer_id d))))
    (put_transfer (ti_transfer_id d) t' (put_entry (journal_entry_id_for rt (ti_transfer_id d))
       [leg_debit (ti_source_account_id d) (ti_amount d), leg_credit (ti_destination_account_id d) (ti_amount d)] v))"
proof -
  let ?eid = "journal_entry_id_for rt (ti_transfer_id d)"
  let ?legs = "[leg_debit (ti_source_account_id d) (ti_amount d), leg_credit (ti_destination_account_id d) (ti_amount d)]"
  have post: "runs_to (bindM (catch_terminal cs (post_entry rt (repository_snapshot acc.repo) ?eid ?legs ref))
      (\<lambda>entry. bindM (repo_save jrn.repo ?eid entry md) (\<lambda>_. returnM ()))) v (Inr ()) (put_entry ?eid ?legs v)" for cs ref md
    by (rule runs_to_bind [OF runs_to_catch_terminal(1) [OF runs_to_post_entry(1) [OF ord assms(3-5)]]],
        rule runs_to_save_entry [OF assms(6) transfer_legs_balanced [OF assms(3)]])
      (use assms(2) in \<open>auto simp: leg_debit_def leg_credit_def input_ok_def intro!: runs_to_pure(1)\<close>)
  have adv: "runs_to (advance_transfer repos (ti_transfer_id d) md {HELD} (mark_posted ?eid)) (put_entry ?eid ?legs v)
      (Inr ()) (put_transfer (ti_transfer_id d) t' (put_entry ?eid ?legs v))" for md
    using assms by (intro runs_to_advance_transfer(1) [of _ _ t _ "MarkPosted ?eid"]) simp_all
  have first: "runs_to (if lv_journals v ?eid = None
      then bindM (catch_terminal cs (post_entry rt (repository_snapshot acc.repo) ?eid ?legs ref))
        (\<lambda>entry. bindM (repo_save jrn.repo ?eid entry md) (\<lambda>_. returnM ()))
      else returnM ()) v (Inr ()) (put_entry ?eid ?legs v)" for cs ref md
    by (simp add: assms(6) post)
  show ?thesis
    unfolding post_journal_def repositories Let_def
    by (rule runs_to_bind [OF runs_to_load(2)], rule runs_to_bind, rule first, rule runs_to_bind, rule adv,
        rule runs_to_pure(1))
qed

lemma runs_to_post_refused:
  assumes ord: "set_order_ok rt" and "0 < amount (ti_amount d)"
    and "can_post (lv_accounts v) (currency (ti_amount d)) (ti_source_account_id d)"
    and "post_refusal (lv_accounts v (ti_destination_account_id d)) (currency (ti_amount d)) = Some c"
    and "lv_journals v (journal_entry_id_for rt (ti_transfer_id d)) = None"
    and "\<exists>s. ok s \<and> view_of rt (log s) = v"
  shows "\<exists>msg. runs_to (post_journal rt repos d) v (Inl (ApplicationError msg (Some (error_code c)) True)) v"
proof -
  let ?eid = "journal_entry_id_for rt (ti_transfer_id d)"
  let ?legs = "[leg_debit (ti_source_account_id d) (ti_amount d), leg_credit (ti_destination_account_id d) (ti_amount d)]"
  from runs_to_post_entry(2) [OF ord assms(2,3,4,6)] obtain msg where
    e: "runs_to (post_entry rt (repository_snapshot acc.repo) ?eid ?legs (Some (str_uuid (ti_transfer_id d)))) v
      (Inl (DomainError c msg)) v" by blast
  have "c \<in> {UnknownAccount, AccountNotActive, CurrencyMismatch}"
    using assms(4) by (auto simp: post_refusal_def split: option.splits if_splits)
  then have "runs_to (catch_terminal [UnknownAccount, AccountNotActive, CurrencyMismatch, UnbalancedEntry]
      (post_entry rt (repository_snapshot acc.repo) ?eid ?legs (Some (str_uuid (ti_transfer_id d))))) v
      (Inl (ApplicationError msg (Some (error_code c)) True)) v"
    using runs_to_catch_terminal(2) [OF e, of c] by auto
  then have "runs_to (post_journal rt repos d) v (Inl (ApplicationError msg (Some (error_code c)) True)) v"
    unfolding post_journal_def repositories Let_def
    by (intro runs_to_bind [OF runs_to_load(2)] runs_to_bind_raise) (auto simp: assms(5) intro!: runs_to_bind_raise)
  then show ?thesis ..
qed

lemma runs_to_settle_debit:
  assumes "lv_accounts v (ti_source_account_id d) = Some a"
    and "account_debit (ti_amount d) (operation_id rt (ti_transfer_id d) ''debit'') a = Inr a'"
  shows "runs_to (settle_debit rt repos d) v (Inr ()) (put_account (ti_source_account_id d) a' v)"
  unfolding settle_debit_def Let_def
  using assms(2) by (intro runs_to_catch_terminal(1) runs_to_move_account(1) [OF assms(1), of "Debit _ _"]) simp_all

lemma runs_to_settle_credit:
  assumes "lv_accounts v (ti_destination_account_id d) = Some b" and "lv_transfers v (ti_transfer_id d) = Some t"
    and "account_credit (ti_amount d) (operation_id rt (ti_transfer_id d) ''credit'') b = Inr b'"
    and "complete t = Inr t'" and "tr_status t = POSTED \<or> tr_status t = NEEDS_RECONCILIATION"
  shows "runs_to (settle_credit rt repos d) v (Inr ())
    (put_transfer (ti_transfer_id d) t' (put_account (ti_destination_account_id d) b' v))"
  unfolding settle_credit_def Let_def
proof (rule runs_to_bind)
  show "runs_to (catch_terminal cs (move_account repos (ti_destination_account_id d) md miss
      (account_credit (ti_amount d) (operation_id rt (ti_transfer_id d) ''credit'')))) v (Inr ())
      (put_account (ti_destination_account_id d) b' v)" for cs md miss
    using assms(3) by (intro runs_to_catch_terminal(1) runs_to_move_account(1) [OF assms(1), of "Credit _ _"]) simp_all
  show "runs_to (advance_transfer repos (ti_transfer_id d) md {POSTED, NEEDS_RECONCILIATION} complete)
      (put_account (ti_destination_account_id d) b' v) (Inr ())
      (put_transfer (ti_transfer_id d) t' (put_account (ti_destination_account_id d) b' v))" for md
    using assms by (intro runs_to_advance_transfer(1) [of _ _ t _ Complete]) auto
qed

lemma runs_to_release_hold:
  assumes "lv_accounts v (ti_source_account_id d) = Some a"
  shows "account_release_hold (ti_amount d) (operation_id rt (ti_transfer_id d) ''release'') a = Inr a' \<Longrightarrow>
      runs_to (release_hold rt repos d) v (Inr ()) (put_account (ti_source_account_id d) a' v)"
    and "account_release_hold (ti_amount d) (operation_id rt (ti_transfer_id d) ''release'') a = Inl e \<Longrightarrow>
      runs_to (release_hold rt repos d) v (Inl e) v"
  unfolding release_hold_def Let_def
  by (auto intro!: runs_to_move_account(1) [OF assms, of "ReleaseHold _ _"] runs_to_move_account(2) [OF assms])

lemma runs_to_fail_transfer:
  assumes "lv_transfers v (fi_transfer_id fd) = Some t" and "tr_status t \<in> NON_TERMINAL"
    and "fail (fi_reason fd) (fi_detail fd) t = Inr t'"
  shows "runs_to (fail_transfer repos fd) v (Inr ()) (put_transfer (fi_transfer_id fd) t' v)"
  unfolding fail_transfer_def
  using assms by (intro runs_to_advance_transfer(1) [of _ _ t _ "Fail (fi_reason fd) (fi_detail fd)"]) simp_all

lemma runs_to_reverse_journal:
  assumes ord: "set_order_ok rt" and "lv_journals v (journal_reversal_id_for rt (ti_transfer_id d)) = None"
    and "lv_journals v (journal_entry_id_for rt (ti_transfer_id d)) = Some (stored_entry legs)"
    and "legs_balanced legs" and "list_all (\<lambda>l. money_ok (leg_amount l)) legs"
  shows "runs_to (reverse_journal rt repos d) v (Inr ())
    (put_entry (journal_reversal_id_for rt (ti_transfer_id d)) (reversed_legs legs) v)"
proof -
  let ?rid = "journal_reversal_id_for rt (ti_transfer_id d)"
  let ?ref = "Some (''reversal of '' @ str_uuid (ti_transfer_id d))"
  have bal: "legs_balanced (reversed_legs legs)" by (rule reversed_legs_balanced [OF assms(4)])
  then obtain j where j: "journal_post rt ?rid (reversed_legs legs) ?ref = Inr j"
    "agg_pending j = [JournalE (JournalEntryPosted (reversed_legs legs) ?ref)]" "agg_version j = 1"
    using journal_post_eq_Inr [OF ord] by auto
  have "runs_to (bindM (liftE (journal_post rt ?rid (reversed_legs legs) ?ref)) (\<lambda>entry.
      bindM (repo_save jrn.repo ?rid entry md) (\<lambda>_. returnM ()))) v (Inr ()) (put_entry ?rid (reversed_legs legs) v)" for md
    unfolding j(1)
    by (rule runs_to_bind [OF runs_to_pure(3)], rule runs_to_save_entry [OF assms(2) bal _ j(2,3) runs_to_pure(1)])
      (simp add: reversed_legs_money_ok assms(5))
  then show ?thesis
    unfolding reverse_journal_def repositories Let_def
    by (intro runs_to_bind [OF runs_to_load(2)])
      (auto simp: assms(2,3) stored_entry_def intro!: runs_to_bind [OF runs_to_load(2)])
qed

end

context sequential_ledger
begin

lemma reverse_journal_cases:
  assumes ord: "set_order_ok rt" and ok: "ok s"
  shows "case (journal_at rt (log s) (journal_entry_id_for rt (ti_transfer_id d)),
        journal_at rt (log s) (journal_reversal_id_for rt (ti_transfer_id d))) of
      (Some j, None) \<Rightarrow> \<exists>s'. reverse_journal rt repos d s = (Inr (), s') \<and> ok s' \<and> legs_balanced (reversed_legs (je_legs j)) \<and>
        view_of rt (log s') = put_entry (journal_reversal_id_for rt (ti_transfer_id d)) (reversed_legs (je_legs j)) (view_of rt (log s))
    | _ \<Rightarrow> reverse_journal rt repos d s = (Inr (), s)"
proof -
  let ?eid = "journal_entry_id_for rt (ti_transfer_id d)" and ?rid = "journal_reversal_id_for rt (ti_transfer_id d)"
  have lok: "ledger_ok rt (log s)" using ok by (simp add: ok_def)
  note run = reverse_journal_def repositories Let_def bindM_def load_at [OF ok]
  show ?thesis
  proof (cases "journal_at rt (log s) ?rid")
    case None
    show ?thesis
    proof (cases "journal_at rt (log s) ?eid")
      case (Some j)
      then obtain legs where j: "j = stored_entry legs" and bal: "legs_balanced legs" using journal_at_ok [OF lok] by blast
      have "list_all (\<lambda>l. money_ok (leg_amount l)) legs"
        using loaded_entry_ok(1) [OF ok, of ?eid j s] Some by (simp add: load_at [OF ok] j stored_entry_def)
      then have "runs_to (reverse_journal rt repos d) (view_of rt (log s)) (Inr ()) (put_entry ?rid (reversed_legs legs) (view_of rt (log s)))"
        using None Some bal j by (intro runs_to_reverse_journal [OF ord]) (simp_all add: view_of_def)
      with ok reversed_legs_balanced [OF bal] show ?thesis
        unfolding runs_to_def by (auto simp: Some None j stored_entry_def)
    qed (simp add: None run)
  qed (simp add: run split: option.splits)
qed

end

section \<open>Properties\<close>

text \<open>
  C31. The posting service over the account repository decides as specified, with the class of each
  refusal: the first account, in the order the set of the legs' accounts is read, that is unknown
  (\<open>UnknownAccount\<close>) or not open (\<open>AccountNotActive\<close>); then a leg in another currency than its account's
  (\<open>CurrencyMismatch\<close>); then legs that are not positive (\<open>InvalidAmount\<close>) or not balanced
  (\<open>UnbalancedEntry\<close>). Without such a reason it returns the entry with exactly these legs. It never
  changes the store.
\<close>

theorem posting_service_decides:
  assumes "codec_round_trip rt" and "set_order_ok rt" and "memory_invar log" and "ledger_ok rt log"
  shows "case posting_refusal (snapshot_of (account_at rt log)) (rt_set_uuid rt (remdups (map leg_account_id legs))) legs of
      None \<Rightarrow> post_entry rt (repository_snapshot (accounts (memory_repositories rt))) eid legs ref log =
        (Inr \<lparr>agg_version = 1, agg_pending = [JournalE (JournalEntryPosted legs ref)],
             je_entry_id = Some eid, je_legs = legs, je_posted = True\<rparr>, log)
    | Some c \<Rightarrow> \<exists>msg. post_entry rt (repository_snapshot (accounts (memory_repositories rt))) eid legs ref log =
        (Inl (DomainError c msg), log)"
  by (rule sequential_ledger.posting_decides [OF memory_sequential_ledger [OF assms(1)] assms(2)])
    (simp add: memory_ok [OF assms(1)] assms(3,4))

theorem posting_service_decides_witness:
  "\<exists>log msg msg'. post_entry plain_runtime (repository_snapshot (accounts (memory_repositories plain_runtime))) 9
       [leg_debit 1 (usd 5), leg_credit 3 (usd 5)] None log = (Inl (DomainError UnknownAccount msg), log) \<and>
     post_entry plain_runtime (repository_snapshot (accounts (memory_repositories plain_runtime))) 9
       [leg_debit 1 (usd 5), leg_credit 2 (usd 4)] None log = (Inl (DomainError UnbalancedEntry msg'), log)"
proof -
  obtain log a b where log: "memory_invar log" "ledger_ok plain_runtime log"
    "account_at plain_runtime log = [1 \<mapsto> a, 2 \<mapsto> b]" "acc_status a = OPEN" "acc_currency a = ''USD''"
    "acc_status b = OPEN" "acc_currency b = ''USD''" by (rule sample_ledger)
  let ?order = "\<lambda>legs. rt_set_uuid plain_runtime (remdups (map leg_account_id legs))"
  have order: "rt_set_uuid plain_runtime xs = xs" for xs by (simp add: plain_runtime_def)
  have unknown: "posting_refusal (snapshot_of (account_at plain_runtime log)) (?order [leg_debit 1 (usd 5), leg_credit 3 (usd 5)])
      [leg_debit 1 (usd 5), leg_credit 3 (usd 5)] = Some UnknownAccount"
    by (simp add: order log posting_refusal_def account_refusal_def snapshot_of_def leg_debit_def leg_credit_def)
  have "side_total DEBIT ''USD'' [leg_debit 1 (usd 5), leg_credit 2 (usd 4)] \<noteq> side_total CREDIT ''USD'' [leg_debit 1 (usd 5), leg_credit 2 (usd 4)]"
    by (simp add: side_total_def leg_debit_def leg_credit_def usd_def)
  then have uneven: "\<not> legs_balanced [leg_debit 1 (usd 5), leg_credit 2 (usd 4)]" by (auto simp: legs_balanced_def)
  have unbalanced: "posting_refusal (snapshot_of (account_at plain_runtime log)) (?order [leg_debit 1 (usd 5), leg_credit 2 (usd 4)])
      [leg_debit 1 (usd 5), leg_credit 2 (usd 4)] = Some UnbalancedEntry"
    using uneven by (simp add: order log posting_refusal_def account_refusal_def snapshot_of_def leg_debit_def leg_credit_def
        usd_def legs_positive_def)
  note decides = posting_service_decides [where rt = plain_runtime and log = log and eid = 9 and ref = None]
  have "\<exists>msg. post_entry plain_runtime (repository_snapshot (accounts (memory_repositories plain_runtime))) 9
       [leg_debit 1 (usd 5), leg_credit 3 (usd 5)] None log = (Inl (DomainError UnknownAccount msg), log)"
    using decides [where legs = "[leg_debit 1 (usd 5), leg_credit 3 (usd 5)]"] log unknown by simp
  moreover have "\<exists>msg. post_entry plain_runtime (repository_snapshot (accounts (memory_repositories plain_runtime))) 9
       [leg_debit 1 (usd 5), leg_credit 2 (usd 4)] None log = (Inl (DomainError UnbalancedEntry msg), log)"
    using decides [where legs = "[leg_debit 1 (usd 5), leg_credit 2 (usd 4)]"] log unbalanced by simp
  ultimately show ?thesis by blast
qed

text \<open>
  C32. The reversal activity of the saga: if the transfer's entry is posted and not yet reversed, the
  activity adds one balanced entry, under the reversal's identifier, whose legs together with the
  original ones net to zero for every account and currency; no other entry, no account and no
  transfer changes, and the ledger stays consistent. If there is nothing to reverse, or the
  reversal is there, as after a repeated attempt, the activity returns without writing.
\<close>

theorem reversal_cancels_entry:
  assumes "codec_round_trip rt" and "set_order_ok rt" and "memory_invar log" and "ledger_ok rt log"
  shows "case reverse_journal rt (memory_repositories rt) d log of (r, log') \<Rightarrow>
    r = Inr () \<and> memory_invar log' \<and> ledger_ok rt log' \<and>
    (case (journal_at rt log (journal_entry_id_for rt (ti_transfer_id d)),
       journal_at rt log (journal_reversal_id_for rt (ti_transfer_id d))) of
       (Some j, None) \<Rightarrow> account_at rt log' = account_at rt log \<and> transfer_at rt log' = transfer_at rt log \<and>
         (\<exists>legs. journal_at rt log' = (journal_at rt log)(journal_reversal_id_for rt (ti_transfer_id d) \<mapsto> stored_entry legs) \<and>
           legs_balanced legs \<and> (\<forall>aid c. account_net aid c (je_legs j @ legs) = 0))
     | _ \<Rightarrow> log' = log)"
proof -
  have net: "account_net aid c (xs @ reversed_legs xs) = 0" for aid c xs
    using account_net_reversed [of aid c xs] by (simp add: account_net_def)
  have "ledger_log.ok rt (\<lambda>s. s) memory_invar log" by (simp add: memory_ok [OF assms(1)] assms(3,4))
  note cases' = sequential_ledger.reverse_journal_cases [OF memory_sequential_ledger [OF assms(1)] assms(2) this, of d]
  show ?thesis
  proof (cases "journal_at rt log (journal_entry_id_for rt (ti_transfer_id d))")
    case None
    with cases' assms(3,4) show ?thesis by simp
  next
    case (Some j)
    show ?thesis
      using cases' assms(3,4) net [of _ _ "je_legs j"]
      by (cases "journal_at rt log (journal_reversal_id_for rt (ti_transfer_id d))")
        (auto simp: Some memory_ok [OF assms(1)] view_of_def put_entry_def)
  qed
qed

theorem reversal_cancels_entry_witness:
  "\<exists>log log' j legs. let d = \<lparr>ti_transfer_id = 5, ti_source_account_id = 1, ti_destination_account_id = 2, ti_amount = usd 40,
      ti_reversal_of = None, ti_traceparent = None\<rparr>
    in journal_at plain_runtime log (journal_entry_id_for plain_runtime 5) = Some j \<and>
      je_legs j = [leg_debit 1 (usd 40), leg_credit 2 (usd 40)] \<and>
      reverse_journal plain_runtime (memory_repositories plain_runtime) d log = (Inr (), log') \<and>
      journal_at plain_runtime log' (journal_reversal_id_for plain_runtime 5) = Some (stored_entry legs) \<and>
      account_net 1 ''USD'' ([leg_debit 1 (usd 40), leg_credit 2 (usd 40)] @ legs) = 0"
proof -
  let ?legs = "[leg_debit 1 (usd 40), leg_credit 2 (usd 40)]" and ?eid = "journal_entry_id_for plain_runtime 5"
    and ?rid = "journal_reversal_id_for plain_runtime 5"
  let ?d = "\<lparr>ti_transfer_id = 5, ti_source_account_id = 1, ti_destination_account_id = 2, ti_amount = usd 40,
      ti_reversal_of = None, ti_traceparent = None\<rparr>"
  obtain log0 where log0: "memory_invar log0" "ledger_ok plain_runtime log0" "journal_at plain_runtime log0 = Map.empty"
    by (rule sample_ledger)
  have bal: "legs_balanced ?legs" by (rule transfer_legs_balanced) (simp add: usd_def)
  obtain j where j: "journal_post plain_runtime ?eid ?legs None = Inr j" "agg_pending j = [JournalE (JournalEntryPosted ?legs None)]"
    "agg_version j = 1" using journal_post_eq_Inr [of plain_runtime ?eid ?legs None] bal by auto
  have "plain_memory.runs_to (bindM (repo_save plain_memory.jrn.repo ?eid j None) (\<lambda>_. returnM ())) (view_of plain_runtime log0) (Inr ())
      (put_entry ?eid ?legs (view_of plain_runtime log0))"
    by (rule plain_memory.runs_to_save_entry [OF _ bal _ j(2,3) plain_memory.runs_to_pure(1)])
      (simp_all add: view_of_def log0(3) leg_debit_def leg_credit_def usd_def money_ok_def)
  then obtain log where log: "memory_invar log" "ledger_ok plain_runtime log" "journal_at plain_runtime log = [?eid \<mapsto> stored_entry ?legs]"
    using log0 unfolding plain_memory.runs_to_def by (auto simp: memory_ok view_of_def put_entry_def)
  have ne: "?rid \<noteq> ?eid" 
    using uuid5_distinctD [OF plain_uuid5_distinct, of 5 5 5 "''journal-reversal''" "''journal''"]
    by (simp add: saga_steps_def journal_ids_as_operations)
  obtain r log' where run: "reverse_journal plain_runtime (memory_repositories plain_runtime) ?d log = (r, log')" by fastforce
  with reversal_cancels_entry [where rt = plain_runtime and log = log and d = ?d] log ne obtain legs where "r = Inr ()"
    "journal_at plain_runtime log' = (journal_at plain_runtime log)(?rid \<mapsto> stored_entry legs)" "account_net 1 ''USD'' (?legs @ legs) = 0"
    by (auto simp: stored_entry_def)
  with run log show ?thesis by (intro exI [of _ log] exI [of _ log'] exI) (auto simp: Let_def stored_entry_def)
qed

end
