(* ===== verification/Saga_Outcomes.thy ===== *)
theory Saga_Outcomes
  imports Saga_Effects
begin

text \<open>
  End-to-end runs of the saga on the in-memory store, executed by a service that loses no
  attempt: the completed transfer, the transfers that fail before the hold and after it, and two
  runs in which the code falls short of its documentation (a source frozen after the hold, and an
  outage while the transfer is being parked).
\<close>

section \<open>Symbolic execution of workflow code\<close>

context sequential_ledger
begin

definition saga_runs ::
  "('s workflow, workflow_exn, 'b) action \<Rightarrow> 's workflow \<Rightarrow> ledger_view \<Rightarrow> workflow_exn + 'b \<Rightarrow>
   's workflow \<Rightarrow> ledger_view \<Rightarrow> bool" where
  "saga_runs m w v r w' v' \<longleftrightarrow>
     (\<forall>s. ok s \<and> view_of rt (log s) = v \<longrightarrow>
        (\<exists>s'. m (w\<lparr>wf_world := s\<rparr>) = (r, w'\<lparr>wf_world := s'\<rparr>) \<and> ok s' \<and> view_of rt (log s') = v'))"

lemma saga_pure: "saga_runs (returnM x) w v (Inr x) w v" "saga_runs (raiseM e) w v (Inl e) w v"
  by (auto simp: saga_runs_def)

lemma saga_runsD:
  assumes "saga_runs m w v r w' v'" and "ok s" and "view_of rt (log s) = v"
  obtains s' where "m (w\<lparr>wf_world := s\<rparr>) = (r, w'\<lparr>wf_world := s'\<rparr>)" "ok s'" "view_of rt (log s') = v'"
  using assms by (auto simp: saga_runs_def)

lemma saga_runsI:
  assumes "\<And>s. ok s \<Longrightarrow> view_of rt (log s) = v \<Longrightarrow>
    \<exists>s'. m (w\<lparr>wf_world := s\<rparr>) = (r, w'\<lparr>wf_world := s'\<rparr>) \<and> ok s' \<and> view_of rt (log s') = v'"
  shows "saga_runs m w v r w' v'"
  using assms by (simp add: saga_runs_def)

text \<open>Two steps in a row, whatever combines them.\<close>

lemma saga_then:
  assumes "saga_runs m w v q w1 v1" and "saga_runs k w1 v1 r w2 v2"
    and "\<And>s s'. m s = (q, s') \<Longrightarrow> c s = k s'"
  shows "saga_runs c w v r w2 v2"
proof (rule saga_runsI)
  fix s assume "ok s" "view_of rt (log s) = v"
  with assms(1) obtain s1 where s1: "m (w\<lparr>wf_world := s\<rparr>) = (q, w1\<lparr>wf_world := s1\<rparr>)"
    "ok s1" "view_of rt (log s1) = v1" by (rule saga_runsD)
  from assms(2) s1(2,3) obtain s2 where "k (w1\<lparr>wf_world := s1\<rparr>) = (r, w2\<lparr>wf_world := s2\<rparr>)"
    "ok s2" "view_of rt (log s2) = v2" by (rule saga_runsD)
  with assms(3) [OF s1(1)] show "\<exists>s'. c (w\<lparr>wf_world := s\<rparr>) = (r, w2\<lparr>wf_world := s'\<rparr>) \<and> ok s' \<and>
      view_of rt (log s') = v2" by auto
qed

lemma saga_bind:
  "saga_runs m w v (Inr x) w1 v1 \<Longrightarrow> saga_runs (f x) w1 v1 r w2 v2 \<Longrightarrow> saga_runs (bindM m f) w v r w2 v2"
  by (erule saga_then) (simp_all add: bindM_Inr)

lemma saga_bind_raise: "saga_runs m w v (Inl e) w1 v1 \<Longrightarrow> saga_runs (bindM m f) w v (Inl e) w1 v1"
  by (erule saga_then [OF _ saga_pure(2)]) (simp add: bindM_Inl)

lemma saga_catch:
  "saga_runs m w v (Inr x) w1 v1 \<Longrightarrow> saga_runs (catch_activity m h) w v (Inr x) w1 v1"
  "saga_runs m w v (Inl (ActivityError err)) w1 v1 \<Longrightarrow> saga_runs (h err) w1 v1 r w2 v2 \<Longrightarrow>
     saga_runs (catch_activity m h) w v r w2 v2"
  by (erule saga_then [OF _ saga_pure(1)], simp add: catch_activity_def catchM_Inr)
    (erule saga_then, simp_all add: catch_activity_def catchM_Inl)

lemma saga_catch_cases:
  assumes "saga_runs m w v q w1 v1"
    and "case q of Inl (ActivityError err) \<Rightarrow> saga_runs (h err) w1 v1 r w2 v2 | _ \<Rightarrow> r = q \<and> w2 = w1 \<and> v2 = v1"
  shows "saga_runs (catch_activity m h) w v r w2 v2"
proof (cases "\<exists>err. q = Inl (ActivityError err)")
  case True
  with assms show ?thesis by (auto intro: saga_catch(2))
next
  case False
  then have eq: "r = q" "w2 = w1" "v2 = v1" using assms(2) by (auto split: sum.splits workflow_exn.splits)
  have "saga_runs (\<lambda>s. (q, s)) w1 v1 q w1 v1" by (auto simp: saga_runs_def)
  then show ?thesis
    unfolding eq by (rule saga_then [OF assms(1)])
      (use False in \<open>auto simp: catch_activity_def catchM_def split: sum.splits workflow_exn.splits\<close>)
qed

lemma saga_assign:
  "(\<And>s. f (w\<lparr>wf_world := s\<rparr>) = (f w)\<lparr>wf_world := s\<rparr>) \<Longrightarrow> saga_runs (assign f) w v (Inr ()) (f w) v"
  by (auto simp: saga_runs_def assign_def)

lemma saga_settled:
  "saga_runs (settled_result d (StrV (str_uuid eid)) dt) w v
     (Inr \<lparr>res_transfer_id = ti_transfer_id d, res_status = wf_status w, res_journal_entry_id = Some eid,
       res_failure_reason = None, res_detail = dt\<rparr>) w v"
  by (auto simp: saga_runs_def settled_result_def uuid_of_value_def)

text \<open>Activities under the retry loop.\<close>

lemma attempt_loop_returns:
  assumes "runs_to act v (Inr x) v'" and "0 < n" and "ok s" "view_of rt (log s) = v"
  shows "\<exists>s'. attempt_loop estr act n s = (Inr x, s') \<and> ok s' \<and> view_of rt (log s') = v'"
proof -
  obtain s' where "act s = (Inr x, s')" "ok s'" "view_of rt (log s') = v'"
    using assms by (auto simp: runs_to_def)
  then show ?thesis using assms(2) by (cases n) auto
qed

lemma attempt_loop_stops:
  assumes "runs_to act v (Inl e) v'" and "non_retryable e" and "0 < n" and "ok s" "view_of rt (log s) = v"
  shows "\<exists>s'. attempt_loop estr act n s = (Inl (failure_of estr e), s') \<and> ok s' \<and> view_of rt (log s') = v'"
proof -
  obtain s' where "act s = (Inl e, s')" "ok s'" "view_of rt (log s') = v'"
    using assms by (auto simp: runs_to_def)
  then show ?thesis using assms(2,3) by (cases n) auto
qed

lemma attempt_loop_exhausted:
  assumes "runs_to act v (Inl e) v" and "0 < n" and "ok s" "view_of rt (log s) = v"
  shows "\<exists>s'. attempt_loop estr act n s = (Inl (failure_of estr e), s') \<and> ok s' \<and> view_of rt (log s') = v"
  using assms(2-)
proof (induction n arbitrary: s)
  case (Suc n)
  obtain s' where s': "act s = (Inl e, s')" "ok s'" "view_of rt (log s') = v"
    using Suc.prems assms(1) by (auto simp: runs_to_def)
  show ?case
  proof (cases "non_retryable e \<or> n = 0")
    case True
    with s' show ?thesis by auto
  next
    case False
    with s' Suc.IH [of s'] show ?thesis by auto
  qed
qed simp

lemma saga_execute:
  assumes "temporal_prompt rt repos estr drv" and "0 < n"
  shows "runs_to (run_activity rt repos call) v (Inr x) v' \<Longrightarrow> saga_runs (execute drv n call) w v (Inr x) w v'"
    and "runs_to (run_activity rt repos call) v (Inl e) v' \<Longrightarrow> non_retryable e \<Longrightarrow>
      saga_runs (execute drv n call) w v (Inl (ActivityError (failure_of estr e))) w v'"
    and "runs_to (run_activity rt repos call) v (Inl e) v \<Longrightarrow>
      saga_runs (execute drv n call) w v (Inl (ActivityError (failure_of estr e))) w v"
proof -
  have drv: "drv n call s = attempt_loop estr (run_activity rt repos call) n s" for s
    using assms by (simp add: temporal_prompt_def)
  have ex: "execute drv n call (w\<lparr>wf_world := s\<rparr>) = (map_sum ActivityError id q, w\<lparr>wf_world := s'\<rparr>)"
    if "drv n call s = (q, s')" for s q s'
    using that by (cases q) (simp_all add: execute_def)
  show "runs_to (run_activity rt repos call) v (Inr x) v' \<Longrightarrow> saga_runs (execute drv n call) w v (Inr x) w v'"
    using attempt_loop_returns [of "run_activity rt repos call" v x v' n _ estr] assms(2)
    unfolding saga_runs_def by (metis drv ex id_apply map_sum.simps(2))
  show "runs_to (run_activity rt repos call) v (Inl e) v' \<Longrightarrow> non_retryable e \<Longrightarrow>
      saga_runs (execute drv n call) w v (Inl (ActivityError (failure_of estr e))) w v'"
    using attempt_loop_stops [of "run_activity rt repos call" v e v' n _ estr] assms(2)
    unfolding saga_runs_def by (metis drv ex map_sum.simps(1))
  show "runs_to (run_activity rt repos call) v (Inl e) v \<Longrightarrow>
      saga_runs (execute drv n call) w v (Inl (ActivityError (failure_of estr e))) w v"
    using attempt_loop_exhausted [of "run_activity rt repos call" v e n _ estr] assms(2)
    unfolding saga_runs_def by (metis drv ex map_sum.simps(1))
qed

lemma runs_to_unitV: "runs_to m v (Inr ()) v' \<Longrightarrow> runs_to (unitV m) v (Inr NoneV) v'"
  "runs_to m v (Inl e) v' \<Longrightarrow> runs_to (unitV m) v (Inl e) v'"
  unfolding unitV_def by (auto intro: runs_to_bind [OF _ runs_to_pure(1)] runs_to_bind_raise)

end

section \<open>Preconditions of a run\<close>

text \<open>A transfer that was never seen: no stream of its own, none of its operations applied.\<close>

definition saga_fresh :: "runtime \<Rightarrow> ledger_view \<Rightarrow> uuid \<Rightarrow> bool" where
  "saga_fresh rt v tid \<longleftrightarrow>
     lv_transfers v tid = None \<and> lv_journals v (journal_entry_id_for rt tid) = None \<and>
     lv_journals v (journal_reversal_id_for rt tid) = None \<and>
     (\<forall>aid a. lv_accounts v aid = Some a \<longrightarrow>
        (\<forall>step \<in> set saga_steps. operation_id rt tid step \<notin> acc_applied_ops a))"

text \<open>Why a hold on the source is refused, if it is.\<close>

definition hold_refusal :: "account option \<Rightarrow> money \<Rightarrow> domain_class option" where
  "hold_refusal src m =
     (case src of
        None \<Rightarrow> Some UnknownAccount
      | Some a \<Rightarrow>
          if acc_status a \<noteq> OPEN then Some AccountNotActive
          else if currency m \<noteq> acc_currency a then Some CurrencyMismatch
          else if amount (acc_available a) < amount m then Some InsufficientFunds
          else None)"

lemma account_hold_refused:
  assumes "account_inv a" and "0 < amount m" and "op \<notin> acc_applied_ops a" and "hold_refusal (Some a) m = Some c"
  shows "\<exists>msg. account_hold m op a = Inl (DomainError c msg)"
  using assms
  by (auto simp: hold_refusal_def account_hold_def assert_operational_def assert_positive_def money_lt_def
      account_inv_def split: if_splits)

lemma hold_refusal_classes:
  "hold_refusal src m = Some c \<Longrightarrow> c \<in> {InsufficientFunds, AccountNotActive, CurrencyMismatch, UnknownAccount}"
  by (auto simp: hold_refusal_def split: option.splits if_splits)

lemma saga_ids_differ:
  assumes "uuid5_distinct rt [tid]"
  shows "operation_id rt tid ''debit'' \<noteq> operation_id rt tid ''hold''"
    "operation_id rt tid ''release'' \<noteq> operation_id rt tid ''hold''"
    "operation_id rt tid ''release'' \<noteq> operation_id rt tid ''debit''"
    "journal_reversal_id_for rt tid \<noteq> journal_entry_id_for rt tid"
  using uuid5_distinctD [OF assms, of tid tid] by (simp_all add: saga_steps_def journal_ids_as_operations)

section \<open>The steps of the saga\<close>

context sequential_ledger
begin

lemma saga_initiate:
  assumes drv: "temporal_prompt rt repos estr drv" and "saga_fresh rt v (ti_transfer_id d)" and "input_ok d"
    and "0 < amount (ti_amount d)" and "ti_source_account_id d \<noteq> ti_destination_account_id d"
  shows "\<exists>t. tr_status t = INITIATED \<and>
    (\<forall>w. saga_runs (execute drv DEFAULT_RETRY (RecordInitiated d)) w v (Inr NoneV) w (put_transfer (ti_transfer_id d) t v))"
proof -
  obtain t where t: "transfer_initiate (ti_transfer_id d) (ti_source_account_id d) (ti_destination_account_id d)
      (ti_amount d) (ti_reversal_of d) = Inr t" and st: "tr_status t = INITIATED"
    using assms(4,5) by (simp add: transfer_initiate_eq_Inr transfer_init_def)
  have "runs_to (record_initiated rt repos d) v (Inr ()) (put_transfer (ti_transfer_id d) t v)"
    using assms(2) by (intro runs_to_record_initiated [OF _ assms(3) t]) (simp add: saga_fresh_def)
  then have "saga_runs (execute drv DEFAULT_RETRY (RecordInitiated d)) w v (Inr NoneV) w (put_transfer (ti_transfer_id d) t v)" for w
    by (intro saga_execute(1) [OF drv]) (simp_all add: runs_to_unitV DEFAULT_RETRY_def)
  with st show ?thesis by blast
qed

lemma saga_hold:
  assumes drv: "temporal_prompt rt repos estr drv" and inv: "account_inv a"
    and a: "lv_accounts v (ti_source_account_id d) = Some a" and t: "lv_transfers v (ti_transfer_id d) = Some t"
    and "tr_status t = INITIATED" and m: "0 < amount (ti_amount d)" and ok: "hold_refusal (Some a) (ti_amount d) = None"
    and fresh: "operation_id rt (ti_transfer_id d) ''hold'' \<notin> acc_applied_ops a"
  shows "\<exists>a' t'. tr_status t' = HELD \<and>
    account_inv a' \<and>
    acc_status a' = OPEN \<and>
    acc_currency a' = acc_currency a \<and>
    amount (acc_available a') = amount (acc_available a) - amount (ti_amount d) \<and>
    amount (acc_reserved a') = amount (acc_reserved a) + amount (ti_amount d) \<and>
    acc_applied_ops a' = acc_applied_ops a \<union> {operation_id rt (ti_transfer_id d) ''hold''} \<and>
    (\<forall>w. saga_runs (execute drv DEFAULT_RETRY (HoldFunds d)) w v (Inr NoneV) w
      (put_transfer (ti_transfer_id d) t' (put_account (ti_source_account_id d) a' v)))"
proof -
  let ?op = "operation_id rt (ti_transfer_id d) ''hold''"
  let ?a = "account_moved (FundsHeld (ti_amount d) ?op) (- amount (ti_amount d)) (amount (ti_amount d)) {?op} a"
  have c: "acc_status a = OPEN" "currency (ti_amount d) = acc_currency a" "amount (ti_amount d) \<le> amount (acc_available a)"
    using ok by (auto simp: hold_refusal_def split: if_splits)
  have hold: "account_hold (ti_amount d) ?op a = Inr ?a"
    by (rule account_commands_succeed(1) [OF inv c(1) m c(2) fresh c(3)])
  obtain t' where t': "mark_held t = Inr t'" "tr_status t' = HELD"
    using transfer_commands_succeed(1) [OF assms(5)] by blast
  have "saga_runs (execute drv DEFAULT_RETRY (HoldFunds d)) w v (Inr NoneV) w
      (put_transfer (ti_transfer_id d) t' (put_account (ti_source_account_id d) ?a v))" for w
    using runs_to_hold_funds [OF a t hold t'(1) assms(5)]
    by (intro saga_execute(1) [OF drv]) (simp_all add: runs_to_unitV DEFAULT_RETRY_def)
  moreover have "account_inv ?a"
    using run_account_command_inv [OF inv, of "Hold (ti_amount d) ?op" ?a] hold by simp
  ultimately show ?thesis using t'(2) c by (intro exI [of _ ?a] exI [of _ t']) simp
qed

lemma saga_post:
  assumes drv: "temporal_prompt rt repos estr drv" and ord: "set_order_ok rt" and "input_ok d"
    and m: "0 < amount (ti_amount d)"
    and "can_post (lv_accounts v) (currency (ti_amount d)) (ti_source_account_id d)"
    and "can_post (lv_accounts v) (currency (ti_amount d)) (ti_destination_account_id d)"
    and "lv_journals v (journal_entry_id_for rt (ti_transfer_id d)) = None"
    and t: "lv_transfers v (ti_transfer_id d) = Some t" and "tr_status t = HELD"
  shows "\<exists>t'. tr_status t' = POSTED \<and>
    tr_journal_entry_id t' = Some (journal_entry_id_for rt (ti_transfer_id d)) \<and>
    (\<forall>w. saga_runs (execute drv DEFAULT_RETRY (PostJournal d)) w v
      (Inr (StrV (str_uuid (journal_entry_id_for rt (ti_transfer_id d))))) w
      (put_transfer (ti_transfer_id d) t' (put_entry (journal_entry_id_for rt (ti_transfer_id d))
         [leg_debit (ti_source_account_id d) (ti_amount d), leg_credit (ti_destination_account_id d) (ti_amount d)] v)))"
proof -
  let ?eid = "journal_entry_id_for rt (ti_transfer_id d)"
  obtain t' where t': "mark_posted ?eid t = Inr t'" "tr_status t' = POSTED" "tr_journal_entry_id t' = Some ?eid"
    using transfer_commands_succeed(2) [OF assms(9)] by blast
  show ?thesis
    by (intro exI [of _ t'] conjI allI t' saga_execute(1) [OF drv])
      (auto simp: DEFAULT_RETRY_def intro!: runs_to_bind [OF runs_to_post_journal [OF ord assms(3-9) t'(1)]] runs_to_pure)
qed

lemma saga_debit:
  assumes drv: "temporal_prompt rt repos estr drv" and inv: "account_inv a"
    and a: "lv_accounts v (ti_source_account_id d) = Some a" and "acc_status a = OPEN"
    and m: "0 < amount (ti_amount d)" and "currency (ti_amount d) = acc_currency a"
    and "amount (ti_amount d) \<le> amount (acc_reserved a)"
    and fresh: "operation_id rt (ti_transfer_id d) ''debit'' \<notin> acc_applied_ops a"
  shows "\<exists>a'. account_inv a' \<and>
    acc_status a' = OPEN \<and>
    acc_currency a' = acc_currency a \<and>
    amount (acc_available a') = amount (acc_available a) \<and>
    amount (acc_reserved a') = amount (acc_reserved a) - amount (ti_amount d) \<and>
    (\<forall>w. saga_runs (execute drv DEFAULT_RETRY (SettleDebit d)) w v (Inr NoneV) w
      (put_account (ti_source_account_id d) a' v))"
proof -
  let ?op = "operation_id rt (ti_transfer_id d) ''debit''"
  let ?a = "account_moved (AccountDebited (ti_amount d) ?op) 0 (- amount (ti_amount d)) {?op} a"
  have debit: "account_debit (ti_amount d) ?op a = Inr ?a"
    by (rule account_commands_succeed(3) [OF inv assms(4) m assms(6) fresh assms(7)])
  have "saga_runs (execute drv DEFAULT_RETRY (SettleDebit d)) w v (Inr NoneV) w (put_account (ti_source_account_id d) ?a v)" for w
    using runs_to_settle_debit [OF a debit]
    by (intro saga_execute(1) [OF drv]) (simp_all add: runs_to_unitV DEFAULT_RETRY_def)
  moreover have "account_inv ?a"
    using run_account_command_inv [OF inv, of "Debit (ti_amount d) ?op" ?a] debit by simp
  ultimately show ?thesis using assms(4) by (intro exI [of _ ?a]) simp
qed

lemma saga_credit:
  assumes drv: "temporal_prompt rt repos estr drv" and inv: "account_inv b"
    and b: "lv_accounts v (ti_destination_account_id d) = Some b" and "acc_status b = OPEN"
    and m: "0 < amount (ti_amount d)" and "currency (ti_amount d) = acc_currency b"
    and fresh: "operation_id rt (ti_transfer_id d) ''credit'' \<notin> acc_applied_ops b"
    and t: "lv_transfers v (ti_transfer_id d) = Some t" and st: "tr_status t = POSTED \<or> tr_status t = NEEDS_RECONCILIATION"
  shows "\<exists>b' t'. amount (acc_available b') = amount (acc_available b) + amount (ti_amount d) \<and>
    amount (acc_reserved b') = amount (acc_reserved b) \<and>
    tr_status t' = COMPLETED \<and>
    tr_journal_entry_id t' = tr_journal_entry_id t \<and>
    (\<forall>w. saga_runs (execute drv CREDIT_RETRY (SettleCredit d)) w v (Inr NoneV) w
      (put_transfer (ti_transfer_id d) t' (put_account (ti_destination_account_id d) b' v)))"
proof -
  let ?op = "operation_id rt (ti_transfer_id d) ''credit''"
  let ?b = "account_moved (AccountCredited (ti_amount d) ?op) (amount (ti_amount d)) 0 {?op} b"
  have credit: "account_credit (ti_amount d) ?op b = Inr ?b"
    by (rule account_commands_succeed(4) [OF inv assms(4) m assms(6) fresh])
  obtain t' where t': "complete t = Inr t'" "tr_status t' = COMPLETED" "tr_journal_entry_id t' = tr_journal_entry_id t"
    using transfer_commands_succeed(3) [OF st] by blast
  have "saga_runs (execute drv CREDIT_RETRY (SettleCredit d)) w v (Inr NoneV) w
      (put_transfer (ti_transfer_id d) t' (put_account (ti_destination_account_id d) ?b v))" for w
    using runs_to_settle_credit [OF b t credit t'(1) st]
    by (intro saga_execute(1) [OF drv]) (simp_all add: runs_to_unitV CREDIT_RETRY_def)
  then show ?thesis using t' by (intro exI [of _ ?b] exI [of _ t']) simp
qed

lemma saga_fail:
  assumes drv: "temporal_prompt rt repos estr drv" and t: "lv_transfers v (ti_transfer_id d) = Some t"
    and st: "tr_status t \<in> NON_TERMINAL"
  shows "\<exists>t'. tr_status t' = FAILED \<and>
    tr_failure_reason t' = Some (fst (reason_from err)) \<and>
    (\<forall>w. saga_runs (execute drv DEFAULT_RETRY (fail_call d err)) w v (Inr NoneV) w
      (put_transfer (ti_transfer_id d) t' v))"
proof -
  obtain t' where t': "fail (fst (reason_from err)) (Some (snd (reason_from err))) t = Inr t'" "tr_status t' = FAILED"
    "tr_failure_reason t' = Some (fst (reason_from err))"
    using transfer_commands_succeed(4) [OF st] by blast
  have "saga_runs (execute drv DEFAULT_RETRY (fail_call d err)) w v (Inr NoneV) w (put_transfer (ti_transfer_id d) t' v)" for w
    using runs_to_fail_transfer [of v "\<lparr>fi_transfer_id = ti_transfer_id d, fi_reason = fst (reason_from err),
      fi_detail = Some (snd (reason_from err))\<rparr>" t t'] t st t'(1)
    by (intro saga_execute(1) [OF drv]) (simp_all add: fail_call_def runs_to_unitV DEFAULT_RETRY_def)
  with t' show ?thesis by blast
qed

end

section \<open>Whole runs\<close>

text \<open>What a completed transfer changes, and what a failed one may leave behind.\<close>

definition transfer_legs :: "transfer_input \<Rightarrow> leg list" where
  "transfer_legs d = [leg_debit (ti_source_account_id d) (ti_amount d), leg_credit (ti_destination_account_id d) (ti_amount d)]"

definition completed_view :: "runtime \<Rightarrow> transfer_input \<Rightarrow> ledger_view \<Rightarrow> ledger_view \<Rightarrow> bool" where
  "completed_view rt d v v' \<longleftrightarrow>
     (\<exists>a a' b b' t'. lv_accounts v (ti_source_account_id d) = Some a \<and>
        lv_accounts v (ti_destination_account_id d) = Some b \<and>
        lv_accounts v' = (lv_accounts v)(ti_source_account_id d \<mapsto> a', ti_destination_account_id d \<mapsto> b') \<and>
        amount (acc_available a') = amount (acc_available a) - amount (ti_amount d) \<and>
        amount (acc_reserved a') = amount (acc_reserved a) \<and>
        amount (acc_available b') = amount (acc_available b) + amount (ti_amount d) \<and>
        amount (acc_reserved b') = amount (acc_reserved b) \<and>
        lv_journals v' = (lv_journals v)(journal_entry_id_for rt (ti_transfer_id d) \<mapsto> stored_entry (transfer_legs d)) \<and>
        lv_transfers v' = (lv_transfers v)(ti_transfer_id d \<mapsto> t') \<and> tr_status t' = COMPLETED \<and>
        tr_journal_entry_id t' = Some (journal_entry_id_for rt (ti_transfer_id d)))"

definition failed_view :: "transfer_input \<Rightarrow> failure_reason \<Rightarrow> ledger_view \<Rightarrow> ledger_view \<Rightarrow> bool" where
  "failed_view d reason v v' \<longleftrightarrow>
     (\<exists>t'. lv_transfers v' = (lv_transfers v)(ti_transfer_id d \<mapsto> t') \<and> tr_status t' = FAILED \<and>
        tr_failure_reason t' = Some reason) \<and>
     lv_journals v' = lv_journals v \<and>
     (\<forall>aid. aid \<noteq> ti_source_account_id d \<longrightarrow> lv_accounts v' aid = lv_accounts v aid) \<and>
     map_option (\<lambda>a. (acc_status a, acc_currency a, acc_available a, acc_reserved a)) (lv_accounts v' (ti_source_account_id d)) =
       map_option (\<lambda>a. (acc_status a, acc_currency a, acc_available a, acc_reserved a)) (lv_accounts v (ti_source_account_id d))"

definition failed_result :: "transfer_input \<Rightarrow> failure_reason \<Rightarrow> string \<Rightarrow> transfer_result" where
  "failed_result d reason detail = \<lparr>res_transfer_id = ti_transfer_id d, res_status = FAILED,
     res_journal_entry_id = None, res_failure_reason = Some reason, res_detail = Some detail\<rparr>"

definition completed_result :: "runtime \<Rightarrow> transfer_input \<Rightarrow> transfer_result" where
  "completed_result rt d = \<lparr>res_transfer_id = ti_transfer_id d, res_status = COMPLETED,
     res_journal_entry_id = Some (journal_entry_id_for rt (ti_transfer_id d)), res_failure_reason = None,
     res_detail = None\<rparr>"

context sequential_ledger
begin

lemma saga_settle:
  assumes "saga_runs (execute drv CREDIT_RETRY (SettleCredit d)) w v (Inr NoneV) w v'"
  shows "saga_runs (settlement drv d (StrV (str_uuid (journal_entry_id_for rt (ti_transfer_id d))))) w v
    (Inr (completed_result rt d)) (w\<lparr>wf_status := COMPLETED\<rparr>) v'"
proof -
  have credit: "saga_runs (catch_activity (bindM (execute drv CREDIT_RETRY (SettleCredit d)) (\<lambda>_. returnM None)) h)
      w v (Inr None) w v'" for h :: "activity_failure \<Rightarrow> ('s workflow, workflow_exn, transfer_result option) action"
    by (intro saga_catch(1) saga_bind [OF assms] saga_pure(1))
  have finish: "saga_runs (bindM (assign (\<lambda>w. w\<lparr>wf_status := COMPLETED\<rparr>)) (\<lambda>_.
      settled_result d (StrV (str_uuid (journal_entry_id_for rt (ti_transfer_id d)))) None)) w v'
      (Inr (completed_result rt d)) (w\<lparr>wf_status := COMPLETED\<rparr>) v'"
    by (rule saga_bind, rule saga_assign, simp)
      (use saga_settled [of d _ None "w\<lparr>wf_status := COMPLETED\<rparr>"] in \<open>simp add: completed_result_def\<close>)
  show ?thesis
    unfolding settlement_def by (rule saga_bind, rule credit) (simp add: finish)
qed

text \<open>
  From the start to the debit. The driver only has to agree with a prompt one on the activities
  before the settlement, so that what happens afterwards stays open.
\<close>

lemma run_to_debit:
  assumes drv0: "temporal_prompt rt repos estr drv0" and ord: "set_order_ok rt"
    and agree: "\<And>n call. call \<in> {RecordInitiated d, HoldFunds d, PostJournal d, SettleDebit d} \<Longrightarrow> drv n call = drv0 n call"
    and ids: "uuid5_distinct rt [ti_transfer_id d]" and inp: "input_ok d"
    and fresh: "saga_fresh rt v (ti_transfer_id d)"
    and m: "0 < amount (ti_amount d)" and ne: "ti_source_account_id d \<noteq> ti_destination_account_id d"
    and a: "lv_accounts v (ti_source_account_id d) = Some a" "account_inv a"
      "hold_refusal (Some a) (ti_amount d) = None"
    and dst: "can_post (lv_accounts v) (currency (ti_amount d)) (ti_destination_account_id d)"
  shows "\<exists>w1 v1 a1 t1. \<not> wf_holding w1 \<and> wf_posted w1 \<and>
    lv_accounts v1 = (lv_accounts v)(ti_source_account_id d \<mapsto> a1) \<and>
    amount (acc_available a1) = amount (acc_available a) - amount (ti_amount d) \<and>
    amount (acc_reserved a1) = amount (acc_reserved a) \<and>
    lv_journals v1 = (lv_journals v)(journal_entry_id_for rt (ti_transfer_id d) \<mapsto> stored_entry (transfer_legs d)) \<and>
    lv_transfers v1 = (lv_transfers v)(ti_transfer_id d \<mapsto> t1) \<and> tr_status t1 = POSTED \<and>
    tr_journal_entry_id t1 = Some (journal_entry_id_for rt (ti_transfer_id d)) \<and>
    (\<forall>q w2 v2 r w3 v3.
      saga_runs (settlement drv d (StrV (str_uuid (journal_entry_id_for rt (ti_transfer_id d))))) w1 v1 q w2 v2 \<longrightarrow>
      (case q of Inl (ActivityError err) \<Rightarrow> saga_runs (compensate drv d err) w2 v2 r w3 v3
       | _ \<Rightarrow> r = q \<and> w3 = w2 \<and> v3 = v2) \<longrightarrow>
      saga_runs (workflow_run drv d) w v r w3 v3)"
proof -
  let ?tid = "ti_transfer_id d" and ?src = "ti_source_account_id d" and ?dst = "ti_destination_account_id d"
  let ?eid = "journal_entry_id_for rt ?tid" and ?w = "w\<lparr>wf_holding := False, wf_posted := False\<rparr>"
  have eq: "execute drv n call = execute drv0 n call"
    if "call \<in> {RecordInitiated d, HoldFunds d, PostJournal d, SettleDebit d}" for n call
    using agree [OF that] by (simp add: execute_def)
  have ops: "operation_id rt ?tid s \<notin> acc_applied_ops a" if "s \<in> set saga_steps" for s
    using fresh a(1) that by (auto simp: saga_fresh_def)
  have acur: "acc_currency a = currency (ti_amount d)" using a(3) by (auto simp: hold_refusal_def split: if_splits)
  obtain t0 where t0: "tr_status t0 = INITIATED"
    and r0: "\<And>w. saga_runs (execute drv0 DEFAULT_RETRY (RecordInitiated d)) w v (Inr NoneV) w (put_transfer ?tid t0 v)"
    using saga_initiate [OF drv0 fresh inp m ne] by blast
  define v1 where "v1 = put_transfer ?tid t0 v"
  obtain a1 t1 where t1: "tr_status t1 = HELD"
    and a1: "account_inv a1" "acc_status a1 = OPEN" "acc_currency a1 = acc_currency a"
      "amount (acc_available a1) = amount (acc_available a) - amount (ti_amount d)"
      "amount (acc_reserved a1) = amount (acc_reserved a) + amount (ti_amount d)"
      "acc_applied_ops a1 = acc_applied_ops a \<union> {operation_id rt ?tid ''hold''}"
    and r1: "\<And>w. saga_runs (execute drv0 DEFAULT_RETRY (HoldFunds d)) w v1 (Inr NoneV) w (put_transfer ?tid t1 (put_account ?src a1 v1))"
    using saga_hold [OF drv0 a(2), of v1 d "stored_transfer t0"] a(1,3) t0 m ops [of "''hold''"]
    by (auto simp: v1_def saga_steps_def)
  define v2 where "v2 = put_transfer ?tid t1 (put_account ?src a1 v1)"
  have post: "can_post (lv_accounts v2) (currency (ti_amount d)) ?src" "can_post (lv_accounts v2) (currency (ti_amount d)) ?dst"
    using a1 acur dst ne by (auto simp: v2_def v1_def can_post_def)
  obtain t2 where t2: "tr_status t2 = POSTED" "tr_journal_entry_id t2 = Some ?eid"
    and r2: "\<And>w. saga_runs (execute drv0 DEFAULT_RETRY (PostJournal d)) w v2 (Inr (StrV (str_uuid ?eid))) w
      (put_transfer ?tid t2 (put_entry ?eid (transfer_legs d) v2))"
    using saga_post [OF drv0 ord inp m post, of "stored_transfer t1"] fresh t1
    by (auto simp: v2_def v1_def saga_fresh_def transfer_legs_def)
  define v3 where "v3 = put_transfer ?tid t2 (put_entry ?eid (transfer_legs d) v2)"
  have nonneg: "0 \<le> amount (acc_reserved a)" using a(2) by (simp add: account_inv_def)
  obtain a2 where a2: "amount (acc_available a2) = amount (acc_available a1)"
      "amount (acc_reserved a2) = amount (acc_reserved a1) - amount (ti_amount d)"
    and r3: "\<And>w. saga_runs (execute drv0 DEFAULT_RETRY (SettleDebit d)) w v3 (Inr NoneV) w (put_account ?src a2 v3)"
    using saga_debit [OF drv0, of "stored_account a1" v3 d] a1 acur m nonneg saga_ids_differ(1) [OF ids] ops [of "''debit''"]
    by (auto simp: v3_def v2_def saga_steps_def)
  define v4 where "v4 = put_account ?src a2 v3"
  define w1 where "w1 = ?w\<lparr>wf_status := HELD, wf_holding := True\<rparr>"
  define w2 where "w2 = w1\<lparr>wf_status := POSTED, wf_posted := True\<rparr>"
  define w3 where "w3 = w2\<lparr>wf_holding := False\<rparr>"
  have body: "saga_runs (saga_steps_body drv d) ?w v1 q w' v'"
    if "saga_runs (settlement drv d (StrV (str_uuid ?eid))) w3 v4 q w' v'" for q w' v'
    unfolding saga_steps_body_eq eq [OF insertI2 [OF insertI1]] eq [OF insertI2 [OF insertI2 [OF insertI1]]]
      eq [OF insertI2 [OF insertI2 [OF insertI2 [OF insertI1]]]]
    by (rule saga_bind [OF r1], rule saga_bind, rule saga_assign, simp, rule saga_bind, fold v2_def w1_def, rule r2,
        rule saga_bind, rule saga_assign, simp, rule saga_bind, fold v3_def w2_def, rule r3,
        rule saga_bind, rule saga_assign, simp, fold v4_def w3_def, rule that)
  have run: "saga_runs (workflow_run drv d) w v r w' v'"
    if "saga_runs (catch_activity (saga_steps_body drv d) (compensate drv d)) ?w v1 r w' v'" for r w' v'
    unfolding workflow_run_def eq [OF insertI1]
    by (rule saga_bind [OF r0], rule saga_bind, rule saga_assign, simp, fold v1_def, rule that)
  have all: "saga_runs (workflow_run drv d) w v r w' v'"
    if set: "saga_runs (settlement drv d (StrV (str_uuid ?eid))) w3 v4 q w2' v2'"
      and rest: "case q of Inl (ActivityError err) \<Rightarrow> saga_runs (compensate drv d err) w2' v2' r w' v'
        | _ \<Rightarrow> r = q \<and> w' = w2' \<and> v' = v2'" for q w2' v2' r w' v'
    by (rule run, rule saga_catch_cases [OF body [OF set]]) (use rest in \<open>simp split: sum.splits workflow_exn.splits\<close>)
  have "\<not> wf_holding w3 \<and> wf_posted w3" by (simp add: w3_def w2_def)
  moreover have "lv_accounts v4 = (lv_accounts v)(?src \<mapsto> stored_account a2)"
    "lv_journals v4 = (lv_journals v)(?eid \<mapsto> stored_entry (transfer_legs d))"
    "lv_transfers v4 = (lv_transfers v)(?tid \<mapsto> stored_transfer t2)"
    by (simp_all add: v4_def v3_def v2_def v1_def)
  ultimately show ?thesis
    using all a1(4,5) a2 t2
    by (intro exI [of _ w3] exI [of _ v4] exI [of _ "stored_account a2"] exI [of _ "stored_transfer t2"]) auto
qed

lemma run_completes:
  assumes drv: "temporal_prompt rt repos estr drv" and ord: "set_order_ok rt"
    and ids: "uuid5_distinct rt [ti_transfer_id d]" and inp: "input_ok d"
    and fresh: "saga_fresh rt v (ti_transfer_id d)"
    and m: "0 < amount (ti_amount d)" and ne: "ti_source_account_id d \<noteq> ti_destination_account_id d"
    and a: "lv_accounts v (ti_source_account_id d) = Some a" "account_inv a"
      "hold_refusal (Some a) (ti_amount d) = None"
    and b: "lv_accounts v (ti_destination_account_id d) = Some b" "account_inv b"
      "can_post (lv_accounts v) (currency (ti_amount d)) (ti_destination_account_id d)"
  shows "\<exists>w' v'. saga_runs (workflow_run drv d) w v (Inr (completed_result rt d)) w' v' \<and> completed_view rt d v v'"
proof -
  let ?tid = "ti_transfer_id d" and ?src = "ti_source_account_id d" and ?dst = "ti_destination_account_id d"
  let ?eid = "journal_entry_id_for rt ?tid"
  from run_to_debit [OF drv ord refl ids inp fresh m ne a b(3), of w] obtain w1 v1 a1 t1 where
    v1: "lv_accounts v1 = (lv_accounts v)(?src \<mapsto> a1)"
      "amount (acc_available a1) = amount (acc_available a) - amount (ti_amount d)"
      "amount (acc_reserved a1) = amount (acc_reserved a)"
      "lv_journals v1 = (lv_journals v)(?eid \<mapsto> stored_entry (transfer_legs d))"
      "lv_transfers v1 = (lv_transfers v)(?tid \<mapsto> t1)" "tr_status t1 = POSTED" "tr_journal_entry_id t1 = Some ?eid"
    and run: "\<And>res w2 v2. saga_runs (settlement drv d (StrV (str_uuid ?eid))) w1 v1 (Inr res) w2 v2 \<Longrightarrow>
      saga_runs (workflow_run drv d) w v (Inr res) w2 v2"
    by force
  have bst: "acc_status b = OPEN" "currency (ti_amount d) = acc_currency b" using b by (auto simp: can_post_def)
  have "operation_id rt ?tid ''credit'' \<notin> acc_applied_ops b" using fresh b(1) by (auto simp: saga_fresh_def saga_steps_def)
  then obtain b' t' where b': "amount (acc_available b') = amount (acc_available b) + amount (ti_amount d)"
      "amount (acc_reserved b') = amount (acc_reserved b)"
    and t': "tr_status t' = COMPLETED" "tr_journal_entry_id t' = Some ?eid"
    and credit: "\<And>w. saga_runs (execute drv CREDIT_RETRY (SettleCredit d)) w v1 (Inr NoneV) w
      (put_transfer ?tid t' (put_account ?dst b' v1))"
    using saga_credit [OF drv b(2), of v1 d t1] b(1) bst m ne v1 by auto
  have "saga_runs (workflow_run drv d) w v (Inr (completed_result rt d)) (w1\<lparr>wf_status := COMPLETED\<rparr>)
      (put_transfer ?tid t' (put_account ?dst b' v1))"
    by (rule run, rule saga_settle, rule credit)
  moreover have "completed_view rt d v (put_transfer ?tid t' (put_account ?dst b' v1))"
    unfolding completed_view_def using a(1) b(1) v1 b' t' ne
    by (intro exI [of _ a] exI [of _ a1] exI [of _ b] exI [of _ "stored_account b'"] exI [of _ "stored_transfer t'"])
      (auto simp: fun_eq_iff)
  ultimately show ?thesis by blast
qed

end

section \<open>Runs that fail\<close>

text \<open>The handler with its two flags read off.\<close>

definition compensation ::
  "'s driver \<Rightarrow> transfer_input \<Rightarrow> activity_failure \<Rightarrow> bool \<Rightarrow> bool \<Rightarrow>
   ('s workflow, workflow_exn, transfer_result) action" where
  "compensation drv d err holding posted =
     bindM (if holding then bindM (execute drv DEFAULT_RETRY (ReleaseHold_act d)) (\<lambda>_. returnM ()) else returnM ()) (\<lambda>_.
     bindM (if posted then bindM (execute drv DEFAULT_RETRY (ReverseJournal d)) (\<lambda>_. returnM ()) else returnM ()) (\<lambda>_.
     bindM (execute drv DEFAULT_RETRY (fail_call d err)) (\<lambda>_.
     bindM (assign (\<lambda>w. w\<lparr>wf_status := FAILED, wf_failure := Some (fst (reason_from err))\<rparr>)) (\<lambda>_.
     returnM (failed_result d (fst (reason_from err)) (snd (reason_from err)))))))"

lemma compensate_eq: "compensate drv d err w = compensation drv d err (wf_holding w) (wf_posted w) w"
  by (simp add: compensate_def compensation_def fail_call_def failed_result_def case_prod_beta)

context sequential_ledger
begin

lemma saga_compensate:
  assumes "saga_runs (compensation drv d err (wf_holding w) (wf_posted w)) w v r w' v'"
  shows "saga_runs (compensate drv d err) w v r w' v'"
  using assms by (simp add: saga_runs_def compensate_eq)

lemma saga_compensation_end:
  assumes drv: "temporal_prompt rt repos estr drv" and t: "lv_transfers v (ti_transfer_id d) = Some t"
    and st: "tr_status t \<in> NON_TERMINAL"
  shows "\<exists>t' w'. tr_status t' = FAILED \<and> tr_failure_reason t' = Some (fst (reason_from err)) \<and>
    saga_runs (bindM (execute drv DEFAULT_RETRY (fail_call d err)) (\<lambda>_.
      bindM (assign (\<lambda>w. w\<lparr>wf_status := FAILED, wf_failure := Some (fst (reason_from err))\<rparr>)) (\<lambda>_.
      returnM (failed_result d (fst (reason_from err)) (snd (reason_from err)))))) w v
      (Inr (failed_result d (fst (reason_from err)) (snd (reason_from err)))) w' (put_transfer (ti_transfer_id d) t' v)"
proof -
  obtain t' where t': "tr_status t' = FAILED" "tr_failure_reason t' = Some (fst (reason_from err))"
    and r: "\<And>w. saga_runs (execute drv DEFAULT_RETRY (fail_call d err)) w v (Inr NoneV) w (put_transfer (ti_transfer_id d) t' v)"
    using saga_fail [OF drv t st, of err] by auto
  have "saga_runs (bindM (execute drv DEFAULT_RETRY (fail_call d err)) (\<lambda>_.
      bindM (assign (\<lambda>w. w\<lparr>wf_status := FAILED, wf_failure := Some (fst (reason_from err))\<rparr>)) (\<lambda>_.
      returnM (failed_result d (fst (reason_from err)) (snd (reason_from err)))))) w v
      (Inr (failed_result d (fst (reason_from err)) (snd (reason_from err))))
      (w\<lparr>wf_status := FAILED, wf_failure := Some (fst (reason_from err))\<rparr>) (put_transfer (ti_transfer_id d) t' v)"
    by (rule saga_bind [OF r], rule saga_bind, rule saga_assign, simp, rule saga_pure(1))
  with t' show ?thesis by blast
qed

text \<open>An activity whose terminal domain error reaches the workflow.\<close>

lemma saga_execute_terminal:
  assumes "temporal_prompt rt repos estr drv"
    and "runs_to (run_activity rt repos call) v (Inl (ApplicationError msg (Some (error_code c)) True)) v"
  shows "saga_runs (execute drv DEFAULT_RETRY call) w v
    (Inl (ActivityError (ApplicationCause msg (Some (error_code c))))) w v"
  using saga_execute(2) [OF assms(1) _ assms(2), of DEFAULT_RETRY w]
  by (simp add: non_retryable_def failure_of_def DEFAULT_RETRY_def)

lemma run_refused_at_hold:
  assumes drv: "temporal_prompt rt repos estr drv" and inp: "input_ok d"
    and fresh: "saga_fresh rt v (ti_transfer_id d)"
    and m: "0 < amount (ti_amount d)" and ne: "ti_source_account_id d \<noteq> ti_destination_account_id d"
    and inv: "\<And>a. lv_accounts v (ti_source_account_id d) = Some a \<Longrightarrow> account_inv a"
    and ref: "hold_refusal (lv_accounts v (ti_source_account_id d)) (ti_amount d) = Some c"
  shows "\<exists>msg w' v'. saga_runs (workflow_run drv d) w v (Inr (failed_result d (class_reason c) msg)) w' v' \<and>
    failed_view d (class_reason c) v v' \<and> lv_accounts v' = lv_accounts v"
proof -
  let ?tid = "ti_transfer_id d" and ?w = "w\<lparr>wf_holding := False, wf_posted := False\<rparr>"
  obtain t0 where t0: "tr_status t0 = INITIATED"
    and r0: "\<And>w. saga_runs (execute drv DEFAULT_RETRY (RecordInitiated d)) w v (Inr NoneV) w (put_transfer ?tid t0 v)"
    using saga_initiate [OF drv fresh inp m ne] by blast
  define v1 where "v1 = put_transfer ?tid t0 v"
  have "\<exists>msg. case lv_accounts v1 (ti_source_account_id d) of
      None \<Rightarrow> DomainError c msg = DomainError UnknownAccount (str_uuid (ti_source_account_id d))
    | Some a \<Rightarrow> account_hold (ti_amount d) (operation_id rt ?tid ''hold'') a = Inl (DomainError c msg)"
  proof (cases "lv_accounts v (ti_source_account_id d)")
    case None
    then show ?thesis using ref by (simp add: v1_def hold_refusal_def)
  next
    case (Some a)
    then have "operation_id rt ?tid ''hold'' \<notin> acc_applied_ops a" using fresh by (simp add: saga_fresh_def saga_steps_def)
    from account_hold_refused [OF inv [OF Some] m this] ref Some show ?thesis by (simp add: v1_def)
  qed
  then obtain msg where msg: "case lv_accounts v1 (ti_source_account_id d) of
      None \<Rightarrow> DomainError c msg = DomainError UnknownAccount (str_uuid (ti_source_account_id d))
    | Some a \<Rightarrow> account_hold (ti_amount d) (operation_id rt ?tid ''hold'') a = Inl (DomainError c msg)" ..
  have "runs_to (hold_funds rt repos d) v1 (Inl (ApplicationError msg (Some (error_code c)) True)) v1"
    using runs_to_hold_refused [OF msg, of c] hold_refusal_classes [OF ref] by simp
  then have r1: "saga_runs (execute drv DEFAULT_RETRY (HoldFunds d)) ?w v1
      (Inl (ActivityError (ApplicationCause msg (Some (error_code c))))) ?w v1"
    by (intro saga_execute_terminal [OF drv]) (simp add: runs_to_unitV)
  obtain t1 w' where t1: "tr_status t1 = FAILED" "tr_failure_reason t1 = Some (class_reason c)"
    and end': "saga_runs (compensation drv d (ApplicationCause msg (Some (error_code c))) False False) ?w v1
      (Inr (failed_result d (class_reason c) msg)) w' (put_transfer ?tid t1 v1)"
    using saga_compensation_end [OF drv, of v1 d "stored_transfer t0" "ApplicationCause msg (Some (error_code c))" ?w] t0
    by (auto simp: v1_def compensation_def NON_TERMINAL_def)
  have "saga_runs (workflow_run drv d) w v (Inr (failed_result d (class_reason c) msg)) w' (put_transfer ?tid t1 v1)"
    unfolding workflow_run_def
    by (rule saga_bind [OF r0], rule saga_bind, rule saga_assign, simp, fold v1_def, rule saga_catch(2),
        unfold saga_steps_body_eq, rule saga_bind_raise [OF r1], rule saga_compensate)
      (use end' in simp)
  moreover have "failed_view d (class_reason c) v (put_transfer ?tid t1 v1)"
    using t1 by (auto simp: failed_view_def v1_def intro!: exI [of _ "stored_transfer t1"])
  moreover have "lv_accounts (put_transfer ?tid t1 v1) = lv_accounts v" by (simp add: v1_def)
  ultimately show ?thesis by blast
qed

end

context sequential_ledger
begin

lemma run_refused_at_posting:
  assumes drv: "temporal_prompt rt repos estr drv" and ord: "set_order_ok rt"
    and ids: "uuid5_distinct rt [ti_transfer_id d]" and inp: "input_ok d"
    and fresh: "saga_fresh rt v (ti_transfer_id d)"
    and m: "0 < amount (ti_amount d)" and ne: "ti_source_account_id d \<noteq> ti_destination_account_id d"
    and a: "lv_accounts v (ti_source_account_id d) = Some a" "account_inv a"
      "hold_refusal (Some a) (ti_amount d) = None"
    and dst: "post_refusal (lv_accounts v (ti_destination_account_id d)) (currency (ti_amount d)) = Some c"
    and live: "\<exists>s. ok s \<and> view_of rt (log s) = v"
  shows "\<exists>msg w' v'. saga_runs (workflow_run drv d) w v (Inr (failed_result d (class_reason c) msg)) w' v' \<and>
    failed_view d (class_reason c) v v'"
proof -
  let ?tid = "ti_transfer_id d" and ?src = "ti_source_account_id d" and ?w = "w\<lparr>wf_holding := False, wf_posted := False\<rparr>"
  let ?rel = "operation_id rt ?tid ''release''"
  have ops: "operation_id rt ?tid s \<notin> acc_applied_ops a" if "s \<in> set saga_steps" for s
    using fresh a(1) that by (auto simp: saga_fresh_def)
  have acur: "acc_currency a = currency (ti_amount d)" "acc_status a = OPEN"
    using a(3) by (auto simp: hold_refusal_def split: if_splits)
  obtain t0 where t0: "tr_status t0 = INITIATED"
    and r0: "\<And>w. saga_runs (execute drv DEFAULT_RETRY (RecordInitiated d)) w v (Inr NoneV) w (put_transfer ?tid t0 v)"
    using saga_initiate [OF drv fresh inp m ne] by blast
  define v1 where "v1 = put_transfer ?tid t0 v"
  obtain a1 t1 where t1: "tr_status t1 = HELD"
    and a1: "account_inv a1" "acc_status a1 = OPEN" "acc_currency a1 = acc_currency a"
      "amount (acc_available a1) = amount (acc_available a) - amount (ti_amount d)"
      "amount (acc_reserved a1) = amount (acc_reserved a) + amount (ti_amount d)"
      "acc_applied_ops a1 = acc_applied_ops a \<union> {operation_id rt ?tid ''hold''}"
    and r1: "\<And>w. saga_runs (execute drv DEFAULT_RETRY (HoldFunds d)) w v1 (Inr NoneV) w (put_transfer ?tid t1 (put_account ?src a1 v1))"
    using saga_hold [OF drv a(2), of v1 d "stored_transfer t0"] a(1,3) t0 m ops [of "''hold''"]
    by (auto simp: v1_def saga_steps_def)
  define v2 where "v2 = put_transfer ?tid t1 (put_account ?src a1 v1)"
  define w1 where "w1 = ?w\<lparr>wf_status := HELD, wf_holding := True\<rparr>"
  have live2: "\<exists>s. ok s \<and> view_of rt (log s) = v2"
  proof -
    from live obtain s where s: "ok s" "view_of rt (log s) = v" by blast
    from saga_runsD [OF r0 s] obtain s1 where s1: "ok s1" "view_of rt (log s1) = v1" by (auto simp: v1_def)
    from saga_runsD [OF r1 s1] show ?thesis by (auto simp: v2_def)
  qed
  have "can_post (lv_accounts v2) (currency (ti_amount d)) ?src"
    "post_refusal (lv_accounts v2 (ti_destination_account_id d)) (currency (ti_amount d)) = Some c"
    "lv_journals v2 (journal_entry_id_for rt ?tid) = None"
    using a1 acur dst ne fresh by (auto simp: v2_def v1_def can_post_def saga_fresh_def)
  from runs_to_post_refused [OF ord m this live2] obtain msg where
    "runs_to (post_journal rt repos d) v2 (Inl (ApplicationError msg (Some (error_code c)) True)) v2" by blast
  then have r2: "saga_runs (execute drv DEFAULT_RETRY (PostJournal d)) w1 v2
      (Inl (ActivityError (ApplicationCause msg (Some (error_code c))))) w1 v2"
    by (intro saga_execute_terminal [OF drv]) (simp add: runs_to_bind_raise)
  let ?a2 = "account_moved (HoldReleased (ti_amount d) ?rel) (amount (ti_amount d)) (- amount (ti_amount d)) {?rel} (stored_account a1)"
  have "account_release_hold (ti_amount d) ?rel (stored_account a1) = Inr ?a2"
    using a1 acur m a(2) ops [of "''release''"] saga_ids_differ(2) [OF ids]
    by (intro account_commands_succeed(2)) (auto simp: saga_steps_def account_inv_def)
  then have r3: "saga_runs (execute drv DEFAULT_RETRY (ReleaseHold_act d)) w1 v2 (Inr NoneV) w1 (put_account ?src ?a2 v2)"
    using runs_to_release_hold(1) [of v2 d "stored_account a1" ?a2]
    by (intro saga_execute(1) [OF drv]) (simp_all add: runs_to_unitV DEFAULT_RETRY_def v2_def)
  obtain t2 w' where t2: "tr_status t2 = FAILED" "tr_failure_reason t2 = Some (class_reason c)"
    and r4: "saga_runs (bindM (execute drv DEFAULT_RETRY (fail_call d (ApplicationCause msg (Some (error_code c))))) (\<lambda>_.
      bindM (assign (\<lambda>w. w\<lparr>wf_status := FAILED, wf_failure := Some (class_reason c)\<rparr>)) (\<lambda>_.
      returnM (failed_result d (class_reason c) msg)))) w1 (put_account ?src ?a2 v2)
      (Inr (failed_result d (class_reason c) msg)) w' (put_transfer ?tid t2 (put_account ?src ?a2 v2))"
    using saga_compensation_end [OF drv, of "put_account ?src ?a2 v2" d "stored_transfer t1" "ApplicationCause msg (Some (error_code c))" w1] t1
    by (auto simp: v2_def NON_TERMINAL_def)
  have flags: "wf_holding w1 = True" "wf_posted w1 = False" by (simp_all add: w1_def)
  have comp: "saga_runs (compensate drv d (ApplicationCause msg (Some (error_code c)))) w1 v2
      (Inr (failed_result d (class_reason c) msg)) w' (put_transfer ?tid t2 (put_account ?src ?a2 v2))"
    by (rule saga_compensate, unfold compensation_def flags if_True if_False, rule saga_bind,
        rule saga_bind [OF r3 saga_pure(1)], rule saga_bind [OF saga_pure(1)]) (use r4 in simp)
  have "saga_runs (workflow_run drv d) w v (Inr (failed_result d (class_reason c) msg)) w'
      (put_transfer ?tid t2 (put_account ?src ?a2 v2))"
    unfolding workflow_run_def
    by (rule saga_bind [OF r0], rule saga_bind, rule saga_assign, simp, fold v1_def, rule saga_catch(2),
        unfold saga_steps_body_eq, rule saga_bind [OF r1], rule saga_bind, rule saga_assign, simp,
        fold v2_def w1_def, rule saga_bind_raise [OF r2], rule comp)
  moreover have "failed_view d (class_reason c) v (put_transfer ?tid t2 (put_account ?src ?a2 v2))"
    using a(1,2) a1 t2 acur
    by (auto simp: failed_view_def v2_def v1_def account_inv_def intro!: exI [of _ "stored_transfer t2"] money_eqI)
  ultimately show ?thesis by blast
qed

end

section \<open>An outage while the transfer is being parked\<close>

text \<open>
  A service all of whose attempts at the credit and at the parking crash, and that is prompt
  otherwise. It keeps the contract.
\<close>

definition outage :: "string \<Rightarrow> 's driver \<Rightarrow> 's driver" where
  "outage msg drv n call =
     (case call of
        SettleCredit _ \<Rightarrow> (\<lambda>s. (Inl (OtherCause msg), s))
      | ParkTransfer _ \<Rightarrow> (\<lambda>s. (Inl (OtherCause msg), s))
      | _ \<Rightarrow> drv n call)"

lemma attempts_all_crash: "0 < n \<Longrightarrow> attempts estr act n s (Inl (OtherCause msg), s)"
proof (induction n)
  case (Suc n)
  then show ?case by (cases n) (auto intro: attempts.crashed attempts.crashed_last)
qed simp

lemma outage_contract:
  assumes "temporal_prompt rt R estr drv"
  shows "temporal_contract rt R estr (outage msg drv)"
  using temporal_prompt_contract [OF assms]
  by (auto simp: temporal_contract_def outage_def attempts_all_crash simp del: run_activity.simps
      split: activity_call.splits)

context sequential_ledger
begin

lemma saga_park_fails:
  assumes "saga_runs (execute drv CREDIT_RETRY (SettleCredit d)) w v (Inl (ActivityError f)) w v"
    and "saga_runs (execute drv DEFAULT_RETRY (park_call d f)) w v (Inl (ActivityError f')) w v"
  shows "saga_runs (settlement drv d entry) w v (Inl (ActivityError f')) w v"
  unfolding settlement_def
  by (rule saga_bind_raise, rule saga_catch(2), rule saga_bind_raise, rule assms(1), rule saga_bind_raise, rule assms(2))

lemma run_outage:
  assumes drv: "temporal_prompt rt repos estr drv" and ord: "set_order_ok rt"
    and ids: "uuid5_distinct rt [ti_transfer_id d]" and inp: "input_ok d"
    and fresh: "saga_fresh rt v (ti_transfer_id d)"
    and m: "0 < amount (ti_amount d)" and ne: "ti_source_account_id d \<noteq> ti_destination_account_id d"
    and a: "lv_accounts v (ti_source_account_id d) = Some a" "account_inv a"
      "hold_refusal (Some a) (ti_amount d) = None"
    and dst: "can_post (lv_accounts v) (currency (ti_amount d)) (ti_destination_account_id d)"
  shows "\<exists>w' v' a' t'. saga_runs (workflow_run (outage msg drv) d) w v (Inr (failed_result d OTHER msg)) w' v' \<and>
    lv_accounts v' = (lv_accounts v)(ti_source_account_id d \<mapsto> a') \<and>
    account_total a' = account_total a - amount (ti_amount d) \<and>
    lv_transfers v' (ti_transfer_id d) = Some t' \<and> tr_status t' = FAILED"
proof -
  let ?tid = "ti_transfer_id d" and ?src = "ti_source_account_id d" and ?drv = "outage msg drv"
  let ?eid = "journal_entry_id_for rt ?tid" and ?rid = "journal_reversal_id_for rt ?tid"
  have agree: "?drv n call = drv n call"
    if "call \<in> {RecordInitiated d, HoldFunds d, PostJournal d, SettleDebit d}" for n call
    using that by (auto simp: outage_def fun_eq_iff)
  from run_to_debit [OF drv ord agree ids inp fresh m ne a dst, of w] obtain w1 v1 a1 t1 where
    w1: "\<not> wf_holding w1" "wf_posted w1" and v1: "lv_accounts v1 = (lv_accounts v)(?src \<mapsto> a1)"
      "amount (acc_available a1) = amount (acc_available a) - amount (ti_amount d)"
      "amount (acc_reserved a1) = amount (acc_reserved a)"
      "lv_journals v1 = (lv_journals v)(?eid \<mapsto> stored_entry (transfer_legs d))"
      "lv_transfers v1 = (lv_transfers v)(?tid \<mapsto> t1)" "tr_status t1 = POSTED"
    and run: "\<And>err w2 v2 r w3 v3. saga_runs (settlement ?drv d (StrV (str_uuid ?eid))) w1 v1 (Inl (ActivityError err)) w2 v2 \<Longrightarrow>
      saga_runs (compensate ?drv d err) w2 v2 r w3 v3 \<Longrightarrow> saga_runs (workflow_run ?drv d) w v r w3 v3"
    by force
  have crash: "saga_runs (execute ?drv n call) w1 v1 (Inl (ActivityError (OtherCause msg))) w1 v1"
    if "call = SettleCredit d \<or> (\<exists>f. call = park_call d f)" for n call
    using that by (auto simp: saga_runs_def execute_def outage_def park_call_def)
  have settle: "saga_runs (settlement ?drv d (StrV (str_uuid ?eid))) w1 v1 (Inl (ActivityError (OtherCause msg))) w1 v1"
    by (rule saga_park_fails) (auto intro: crash)
  have "runs_to (reverse_journal rt repos d) v1 (Inr ()) (put_entry ?rid (reversed_legs (transfer_legs d)) v1)"
    using fresh v1(4) saga_ids_differ(4) [OF ids] inp transfer_legs_balanced [OF m]
    by (intro runs_to_reverse_journal [OF ord])
      (auto simp: saga_fresh_def transfer_legs_def leg_debit_def leg_credit_def input_ok_def)
  then have rev: "saga_runs (execute ?drv DEFAULT_RETRY (ReverseJournal d)) w1 v1 (Inr NoneV) w1
      (put_entry ?rid (reversed_legs (transfer_legs d)) v1)"
    using saga_execute(1) [OF drv, of DEFAULT_RETRY "ReverseJournal d"]
    by (simp add: execute_def outage_def runs_to_unitV DEFAULT_RETRY_def)
  have eqf: "execute ?drv n (fail_call d f) = execute drv n (fail_call d f)" for n f
    by (simp add: execute_def outage_def fail_call_def)
  have other: "reason_from (OtherCause msg) = (OTHER, msg)" by (simp add: reason_from_def)
  obtain t2 w' where t2: "tr_status t2 = FAILED"
    and fin: "saga_runs (bindM (execute ?drv DEFAULT_RETRY (fail_call d (OtherCause msg))) (\<lambda>_.
      bindM (assign (\<lambda>w. w\<lparr>wf_status := FAILED, wf_failure := Some OTHER\<rparr>)) (\<lambda>_.
      returnM (failed_result d OTHER msg)))) w1 (put_entry ?rid (reversed_legs (transfer_legs d)) v1)
      (Inr (failed_result d OTHER msg)) w' (put_transfer ?tid t2 (put_entry ?rid (reversed_legs (transfer_legs d)) v1))"
    using saga_compensation_end [OF drv, of "put_entry ?rid (reversed_legs (transfer_legs d)) v1" d t1 "OtherCause msg" w1] v1
    by (auto simp: NON_TERMINAL_def other eqf)
  have flags: "wf_holding w1 = False" "wf_posted w1 = True" using w1 by simp_all
  have "saga_runs (compensate ?drv d (OtherCause msg)) w1 v1 (Inr (failed_result d OTHER msg)) w'
      (put_transfer ?tid t2 (put_entry ?rid (reversed_legs (transfer_legs d)) v1))"
    by (rule saga_compensate, unfold compensation_def flags if_True if_False, rule saga_bind [OF saga_pure(1)],
        rule saga_bind, rule saga_bind [OF rev saga_pure(1)]) (use fin in \<open>simp add: other\<close>)
  from run [OF settle this] v1 t2 show ?thesis
    by (intro exI [of _ w'] exI [of _ "put_transfer ?tid t2 (put_entry ?rid (reversed_legs (transfer_legs d)) v1)"]
        exI [of _ a1] exI [of _ "stored_transfer t2"]) (simp add: account_total_def)
qed

text \<open>
  The compensation of a transfer whose source was frozen after the hold: releasing is refused,
  every attempt of it, and the handler raises before it records the failure.
\<close>

lemma compensation_stuck:
  assumes drv: "temporal_prompt rt repos estr drv"
    and a: "lv_accounts v (ti_source_account_id d) = Some a" and frozen: "acc_status a \<noteq> OPEN" and hl: "wf_holding w"
  shows "\<exists>f. saga_runs (compensate drv d err) w v (Inl (ActivityError f)) w v"
proof -
  obtain e where e: "account_release_hold (ti_amount d) (operation_id rt (ti_transfer_id d) ''release'') a = Inl e"
    using frozen by (simp add: account_release_hold_def assert_operational_def)
  have "saga_runs (execute drv DEFAULT_RETRY (ReleaseHold_act d)) w v (Inl (ActivityError (failure_of estr e))) w v"
    using runs_to_release_hold(2) [OF a e] by (intro saga_execute(3) [OF drv]) (simp_all add: runs_to_unitV DEFAULT_RETRY_def)
  then have "saga_runs (compensation drv d err True (wf_posted w)) w v (Inl (ActivityError (failure_of estr e))) w v"
    unfolding compensation_def if_True by (rule saga_bind_raise [OF saga_bind_raise])
  with hl have "saga_runs (compensate drv d err) w v (Inl (ActivityError (failure_of estr e))) w v"
    by (intro saga_compensate) simp
  then show ?thesis ..
qed

end

section \<open>On the in-memory store\<close>

lemma memory_saga_run:
  assumes rt: "codec_round_trip rt" and log: "memory_invar log" "ledger_ok rt log"
    and run: "sequential_ledger.saga_runs rt (\<lambda>s. s) memory_invar m (workflow_init log signals) (view_of rt log) r w' v'"
  shows "\<exists>w''. m (workflow_init log signals) = (r, w'') \<and> ledger_ok rt (wf_world w'') \<and> view_of rt (wf_world w'') = v'"
proof -
  note seq = memory_sequential_ledger [OF rt]
  have "ledger_log.ok rt (\<lambda>s. s) memory_invar log"
    using log by (simp add: memory_ok [OF rt])
  from sequential_ledger.saga_runsD [OF seq run this refl]
  obtain s' where "m ((workflow_init log signals)\<lparr>wf_world := log\<rparr>) = (r, w'\<lparr>wf_world := s'\<rparr>)"
    "ledger_log.ok rt (\<lambda>s. s) memory_invar s'" "view_of rt s' = v'" by blast
  moreover have "(workflow_init log signals)\<lparr>wf_world := log\<rparr> = workflow_init log signals"
    by (simp add: workflow_init_def)
  ultimately show ?thesis by (auto simp: memory_ok [OF rt])
qed

text \<open>A transfer on the sample ledger, for the witnesses.\<close>

definition sample_input :: "int \<Rightarrow> uuid \<Rightarrow> transfer_input" where
  "sample_input n dst = \<lparr>ti_transfer_id = 5, ti_source_account_id = 1, ti_destination_account_id = dst,
     ti_amount = usd n, ti_reversal_of = None, ti_traceparent = None\<rparr>"

text \<open>What the runs below need of it.\<close>

definition sample_ready :: "event_list \<Rightarrow> bool" where
  "sample_ready log \<longleftrightarrow> memory_invar log \<and> ledger_ok plain_runtime log \<and>
     saga_fresh plain_runtime (view_of plain_runtime log) 5 \<and>
     (\<forall>n. hold_refusal (account_at plain_runtime log 1) (usd n) = (if 100 < n then Some InsufficientFunds else None)) \<and>
     can_post (account_at plain_runtime log) ''USD'' 2 \<and>
     post_refusal (account_at plain_runtime log 3) ''USD'' = Some UnknownAccount"

lemma sample_run: "\<exists>log. sample_ready log"
proof -
  obtain log a b where "memory_invar log" "ledger_ok plain_runtime log"
    and log: "account_at plain_runtime log = [1 \<mapsto> a, 2 \<mapsto> b]" "journal_at plain_runtime log = Map.empty"
    "transfer_at plain_runtime log = Map.empty" "acc_status a = OPEN" "acc_currency a = ''USD''"
    "amount (acc_available a) = 100" "acc_applied_ops a = {}"
    "acc_status b = OPEN" "acc_currency b = ''USD''" "acc_applied_ops b = {}" by (rule sample_ledger)
  then show ?thesis
    by (intro exI [of _ log]) (auto simp: sample_ready_def log saga_fresh_def hold_refusal_def can_post_def post_refusal_def usd_def)
qed

lemma sample_input_sel [simp]:
  "ti_transfer_id (sample_input n dst) = 5" "ti_source_account_id (sample_input n dst) = 1"
  "ti_destination_account_id (sample_input n dst) = dst" "ti_amount (sample_input n dst) = usd n"
  "currency (usd n) = ''USD''" "amount (usd n) = n" "input_ok (sample_input n dst)"
  by (simp_all add: sample_input_def usd_def input_ok_def money_ok_def)

section \<open>Properties\<close>

text \<open>
  C4. The happy path, end to end: on the in-memory store, with a service that loses no attempt, a
  fresh transfer of a positive amount from an open, sufficiently funded account to another open
  account of the same currency runs to \<open>Completed\<close>. The source's available balance falls by the
  amount, the destination's rises by it, nothing stays reserved, no other account changes, one
  journal entry with the two legs is posted under the deterministic id, and the transfer's
  stream ends in \<open>Completed\<close>.
\<close>

theorem transfer_saga_completes:
  assumes "codec_round_trip rt" and "set_order_ok rt" and "uuid5_distinct rt [ti_transfer_id d]"
    and "temporal_prompt rt (memory_repositories rt) estr drv"
    and "memory_invar log" and "ledger_ok rt log" and "input_ok d"
    and "saga_fresh rt (view_of rt log) (ti_transfer_id d)"
    and "0 < amount (ti_amount d)" and "ti_source_account_id d \<noteq> ti_destination_account_id d"
    and "hold_refusal (account_at rt log (ti_source_account_id d)) (ti_amount d) = None"
    and "can_post (account_at rt log) (currency (ti_amount d)) (ti_destination_account_id d)"
  shows "\<exists>w'. workflow_run drv d (workflow_init log signals) = (Inr (completed_result rt d), w') \<and>
    completed_view rt d (view_of rt log) (view_of rt (wf_world w')) \<and> ledger_ok rt (wf_world w')"
proof -
  obtain a where a: "account_at rt log (ti_source_account_id d) = Some a"
    using assms(11) by (auto simp: hold_refusal_def split: option.splits)
  obtain b where b: "account_at rt log (ti_destination_account_id d) = Some b"
    using assms(12) by (auto simp: can_post_def)
  from sequential_ledger.run_completes [OF memory_sequential_ledger [OF assms(1)] assms(4,2,3,7-10), of a b
      "workflow_init log signals"]
  obtain w' v' where "sequential_ledger.saga_runs rt (\<lambda>s. s) memory_invar (workflow_run drv d)
      (workflow_init log signals) (view_of rt log) (Inr (completed_result rt d)) w' v'"
    and view: "completed_view rt d (view_of rt log) v'"
    using a b assms(6,11,12) account_at_inv by auto
  from memory_saga_run [OF assms(1,5,6) this(1)] view show ?thesis by auto
qed

lemma sample_temporal:
  "temporal_prompt plain_runtime (memory_repositories plain_runtime) exn_type_name
     (temporal_execute plain_runtime (memory_repositories plain_runtime) exn_type_name)"
  by (rule temporal_execute_prompt)

theorem transfer_saga_completes_witness:
  "\<exists>log w'. workflow_run (temporal_execute plain_runtime (memory_repositories plain_runtime) exn_type_name)
       (sample_input 40 2) (workflow_init log []) = (Inr (completed_result plain_runtime (sample_input 40 2)), w')"
proof -
  obtain log where log: "sample_ready log" using sample_run ..
  have "\<exists>w'. workflow_run (temporal_execute plain_runtime (memory_repositories plain_runtime) exn_type_name)
       (sample_input 40 2) (workflow_init log []) = (Inr (completed_result plain_runtime (sample_input 40 2)), w') \<and>
     completed_view plain_runtime (sample_input 40 2) (view_of plain_runtime log) (view_of plain_runtime (wf_world w')) \<and>
     ledger_ok plain_runtime (wf_world w')"
    by (rule transfer_saga_completes [OF _ _ _ sample_temporal])
      (use log in \<open>simp_all add: sample_ready_def plain_uuid5_distinct\<close>)
  then show ?thesis by blast
qed

text \<open>
  C6. Refusal at the hold: if the source is unknown, not open, of another currency or short of
  funds, the run ends in a \<open>Failed\<close> result with the reason of that class, the transfer's stream
  ends in \<open>Failed\<close> with the same reason, and no account and no journal entry is touched.
\<close>

theorem transfer_saga_fails_at_hold:
  assumes "codec_round_trip rt" and "temporal_prompt rt (memory_repositories rt) estr drv"
    and "memory_invar log" and "ledger_ok rt log" and "input_ok d"
    and "saga_fresh rt (view_of rt log) (ti_transfer_id d)"
    and "0 < amount (ti_amount d)" and "ti_source_account_id d \<noteq> ti_destination_account_id d"
    and "hold_refusal (account_at rt log (ti_source_account_id d)) (ti_amount d) = Some c"
  shows "\<exists>msg w'. workflow_run drv d (workflow_init log signals) = (Inr (failed_result d (class_reason c) msg), w') \<and>
    failed_view d (class_reason c) (view_of rt log) (view_of rt (wf_world w')) \<and>
    account_at rt (wf_world w') = account_at rt log \<and> ledger_ok rt (wf_world w')"
proof -
  from sequential_ledger.run_refused_at_hold [OF memory_sequential_ledger [OF assms(1)] assms(2,5-8), of c
      "workflow_init log signals"]
  obtain msg w' v' where "sequential_ledger.saga_runs rt (\<lambda>s. s) memory_invar (workflow_run drv d)
      (workflow_init log signals) (view_of rt log) (Inr (failed_result d (class_reason c) msg)) w' v'"
    and view: "failed_view d (class_reason c) (view_of rt log) v'" "lv_accounts v' = account_at rt log"
    using assms(4,9) account_at_inv by auto
  from memory_saga_run [OF assms(1,3,4) this(1)] view show ?thesis by auto
qed

theorem transfer_saga_fails_at_hold_witness:
  "\<exists>log msg w'. workflow_run (temporal_execute plain_runtime (memory_repositories plain_runtime) exn_type_name)
       (sample_input 140 2) (workflow_init log []) = (Inr (failed_result (sample_input 140 2) INSUFFICIENT_FUNDS msg), w')"
proof -
  obtain log where log: "sample_ready log" using sample_run ..
  have "\<exists>msg w'. workflow_run (temporal_execute plain_runtime (memory_repositories plain_runtime) exn_type_name)
       (sample_input 140 2) (workflow_init log []) =
         (Inr (failed_result (sample_input 140 2) (class_reason InsufficientFunds) msg), w') \<and>
     failed_view (sample_input 140 2) (class_reason InsufficientFunds) (view_of plain_runtime log)
       (view_of plain_runtime (wf_world w')) \<and>
     account_at plain_runtime (wf_world w') = account_at plain_runtime log \<and> ledger_ok plain_runtime (wf_world w')"
    by (rule transfer_saga_fails_at_hold [OF _ sample_temporal])
      (use log in \<open>simp_all add: sample_ready_def plain_uuid5_distinct\<close>)
  then show ?thesis by auto
qed

text \<open>
  C5. Refusal after the hold: if the destination cannot take the posting, because it is unknown, not
  open or of another currency, the run ends in a \<open>Failed\<close> result with the reason of that class, the
  transfer's stream ends in \<open>Failed\<close> with the same reason, nothing is posted, and the hold is released
  again: both buckets of the source are what they were, and no other account changed.
\<close>

theorem transfer_saga_fails_at_posting:
  assumes "codec_round_trip rt" and "set_order_ok rt" and "uuid5_distinct rt [ti_transfer_id d]"
    and "temporal_prompt rt (memory_repositories rt) estr drv"
    and "memory_invar log" and "ledger_ok rt log" and "input_ok d"
    and "saga_fresh rt (view_of rt log) (ti_transfer_id d)"
    and "0 < amount (ti_amount d)" and "ti_source_account_id d \<noteq> ti_destination_account_id d"
    and "hold_refusal (account_at rt log (ti_source_account_id d)) (ti_amount d) = None"
    and "post_refusal (account_at rt log (ti_destination_account_id d)) (currency (ti_amount d)) = Some c"
  shows "\<exists>msg w'. workflow_run drv d (workflow_init log signals) = (Inr (failed_result d (class_reason c) msg), w') \<and>
    failed_view d (class_reason c) (view_of rt log) (view_of rt (wf_world w')) \<and> ledger_ok rt (wf_world w')"
proof -
  obtain a where a: "account_at rt log (ti_source_account_id d) = Some a"
    using assms(11) by (auto simp: hold_refusal_def split: option.splits)
  have "\<exists>s. ledger_log.ok rt (\<lambda>s. s) memory_invar s \<and> view_of rt s = view_of rt log"
    using assms(5,6) memory_ok [OF assms(1)] by blast
  with sequential_ledger.run_refused_at_posting [OF memory_sequential_ledger [OF assms(1)] assms(4,2,3,7-10), of a c
      "workflow_init log signals"]
  obtain msg w' v' where "sequential_ledger.saga_runs rt (\<lambda>s. s) memory_invar (workflow_run drv d)
      (workflow_init log signals) (view_of rt log) (Inr (failed_result d (class_reason c) msg)) w' v'"
    and view: "failed_view d (class_reason c) (view_of rt log) v'"
    using a assms(6,11,12) account_at_inv by auto
  from memory_saga_run [OF assms(1,5,6) this(1)] view show ?thesis by (metis (no_types))
qed

theorem transfer_saga_fails_at_posting_witness:
  "\<exists>log msg w'. workflow_run (temporal_execute plain_runtime (memory_repositories plain_runtime) exn_type_name)
       (sample_input 40 3) (workflow_init log []) = (Inr (failed_result (sample_input 40 3) UNKNOWN_ACCOUNT msg), w')"
proof -
  obtain log where log: "sample_ready log" using sample_run ..
  have "\<exists>msg w'. workflow_run (temporal_execute plain_runtime (memory_repositories plain_runtime) exn_type_name)
       (sample_input 40 3) (workflow_init log []) =
         (Inr (failed_result (sample_input 40 3) (class_reason UnknownAccount) msg), w') \<and>
     failed_view (sample_input 40 3) (class_reason UnknownAccount) (view_of plain_runtime log)
       (view_of plain_runtime (wf_world w')) \<and> ledger_ok plain_runtime (wf_world w')"
    by (rule transfer_saga_fails_at_posting [OF _ _ _ sample_temporal])
      (use log in \<open>simp_all add: sample_ready_def plain_uuid5_distinct\<close>)
  then show ?thesis by auto
qed

text \<open>
  C37. A false failure: the documentation promises that a transfer whose source was debited is
  never reported as failed. There is an execution service within the contract (it loses every
  attempt at the credit and at the parking, and is prompt otherwise) under which the run of a
  transfer that would have completed returns \<open>Failed\<close> and records \<open>Failed\<close> in the transfer's
  stream, although the amount has left the source and reached no account.
\<close>

theorem transfer_saga_outage_fakes_failure:
  assumes "codec_round_trip rt" and "set_order_ok rt" and "uuid5_distinct rt [ti_transfer_id d]"
    and "temporal_prompt rt (memory_repositories rt) estr drv"
    and "memory_invar log" and "ledger_ok rt log" and "input_ok d"
    and "saga_fresh rt (view_of rt log) (ti_transfer_id d)"
    and "0 < amount (ti_amount d)" and "ti_source_account_id d \<noteq> ti_destination_account_id d"
    and "hold_refusal (account_at rt log (ti_source_account_id d)) (ti_amount d) = None"
    and "can_post (account_at rt log) (currency (ti_amount d)) (ti_destination_account_id d)"
  shows "temporal_contract rt (memory_repositories rt) estr (outage msg drv) \<and>
    (\<exists>w' a a' t'. workflow_run (outage msg drv) d (workflow_init log signals) = (Inr (failed_result d OTHER msg), w') \<and>
      account_at rt log (ti_source_account_id d) = Some a \<and>
      account_at rt (wf_world w') = (account_at rt log)(ti_source_account_id d \<mapsto> a') \<and>
      account_total a' = account_total a - amount (ti_amount d) \<and>
      transfer_at rt (wf_world w') (ti_transfer_id d) = Some t' \<and> tr_status t' = FAILED)"
proof -
  obtain a where a: "account_at rt log (ti_source_account_id d) = Some a"
    using assms(11) by (auto simp: hold_refusal_def split: option.splits)
  from sequential_ledger.run_outage [where a = a and w = "workflow_init log signals" and msg = msg,
      OF memory_sequential_ledger [OF assms(1)] assms(4,2,3,7-10)]
  obtain w' v' a' t' where run: "sequential_ledger.saga_runs rt (\<lambda>s. s) memory_invar (workflow_run (outage msg drv) d)
      (workflow_init log signals) (view_of rt log) (Inr (failed_result d OTHER msg)) w' v'"
    and view: "lv_accounts v' = (account_at rt log)(ti_source_account_id d \<mapsto> a')"
      "account_total a' = account_total a - amount (ti_amount d)"
      "lv_transfers v' (ti_transfer_id d) = Some t'" "tr_status t' = FAILED"
    using a assms(6,11,12) account_at_inv by auto
  from memory_saga_run [OF assms(1,5,6) run] view a outage_contract [OF assms(4)] show ?thesis by fastforce
qed

theorem transfer_saga_outage_fakes_failure_witness:
  "\<exists>log w'. workflow_run (outage ''down'' (temporal_execute plain_runtime (memory_repositories plain_runtime) exn_type_name))
     (sample_input 40 2) (workflow_init log []) = (Inr (failed_result (sample_input 40 2) OTHER ''down''), w')"
proof -
  obtain log where log: "sample_ready log" using sample_run ..
  note run = transfer_saga_outage_fakes_failure [where msg = "''down''" and d = "sample_input 40 2" and log = log and
      signals = "[]", OF _ _ _ sample_temporal]
  show ?thesis
    using conjunct2 [OF run] log by (simp add: sample_ready_def plain_uuid5_distinct) blast
qed

text \<open>
  C38. A stuck compensation: releasing the hold is refused on an account that is no longer open, and
  the refusal is not terminal. If the source was frozen after the hold, the handler of a failed
  transfer therefore raises after its retries, whatever the failure was: nothing is recorded, the
  funds stay reserved and the transfer's stream stays where it was.
\<close>

theorem compensation_stuck_on_frozen_source:
  assumes "codec_round_trip rt" and "temporal_prompt rt (memory_repositories rt) estr drv"
    and "memory_invar log" and "ledger_ok rt log"
    and "account_at rt log (ti_source_account_id d) = Some a" and "acc_status a \<noteq> OPEN"
    and "wf_holding w" and "wf_world w = log"
  shows "\<exists>f w'. compensate drv d err w = (Inl (ActivityError f), w') \<and> view_of rt (wf_world w') = view_of rt log"
proof -
  note seq = memory_sequential_ledger [OF assms(1)]
  have ok: "ledger_log.ok rt (\<lambda>s. s) memory_invar log" using assms(3,4) memory_ok [OF assms(1)] by blast
  obtain f where "sequential_ledger.saga_runs rt (\<lambda>s. s) memory_invar (compensate drv d err) w (view_of rt log)
      (Inl (ActivityError f)) w (view_of rt log)"
    using sequential_ledger.compensation_stuck [OF seq assms(2), of "view_of rt log" d a w] assms(5-7) by auto
  from sequential_ledger.saga_runsD [OF seq this ok refl] obtain s' where
    "compensate drv d err (w\<lparr>wf_world := log\<rparr>) = (Inl (ActivityError f), w\<lparr>wf_world := s'\<rparr>)"
    "view_of rt s' = view_of rt log" by blast
  moreover have "w\<lparr>wf_world := log\<rparr> = w" using assms(8) by (cases w) simp
  ultimately show ?thesis by auto
qed

lemma sample_frozen:
  "\<exists>log a. memory_invar log \<and> ledger_ok plain_runtime log \<and> account_at plain_runtime log 1 = Some a \<and>
     acc_status a = FROZEN \<and> amount (acc_reserved a) = 40"
proof -
  obtain log0 a where log0: "memory_invar log0" "ledger_ok plain_runtime log0" "account_at plain_runtime log0 1 = Some a"
    and a: "acc_status a = OPEN" "acc_currency a = ''USD''" "amount (acc_available a) = 100"
      "amount (acc_reserved a) = 0" "acc_applied_ops a = {}" by (rule sample_ledger) auto
  define v0 where "v0 = view_of plain_runtime log0"
  let ?h = "account_moved (FundsHeld (usd 40) 7) (- 40) 40 {7} a"
  have hold: "run_account_command (Hold (usd 40) 7) a = Inr ?h"
    using account_commands_succeed(1) [OF account_at_inv [OF log0(2,3)] a(1), of "usd 40" 7] a by simp
  obtain f where fr: "run_account_command Freeze (stored_account ?h) = Inr f" "acc_status f = FROZEN"
    "acc_reserved f = acc_reserved ?h"
    using a(1) by (auto simp: account_freeze_def record_event_def)
  have "plain_memory.runs_to (bindM (repo_save plain_memory.acc.repo 1 ?h None) (\<lambda>_.
      bindM (repo_save plain_memory.acc.repo 1 f None) (\<lambda>_. returnM ())))
      v0 (Inr ()) (put_account 1 f (put_account 1 ?h v0))"
    by (rule plain_memory.runs_to_save_account [OF _ hold], simp add: v0_def log0,
        rule plain_memory.runs_to_save_account [OF _ fr(1)], simp, rule plain_memory.runs_to_pure(1))
  moreover have "plain_memory.ok log0" using log0 by (simp add: plain_memory.ok_def)
  ultimately obtain log where "plain_memory.ok log" "view_of plain_runtime log = put_account 1 f (put_account 1 ?h v0)"
    unfolding plain_memory.runs_to_def v0_def by blast
  moreover from this(2) have "account_at plain_runtime log 1 = Some (stored_account f)"
    by (metis view_of_sel(1) put_view_simps(1) fun_upd_same)
  ultimately show ?thesis using fr a by (auto simp: plain_memory.ok_def)
qed

theorem compensation_stuck_on_frozen_source_witness:
  "\<exists>log f w'. compensate (temporal_execute plain_runtime (memory_repositories plain_runtime) exn_type_name)
     (sample_input 40 2) (OtherCause ''x'') ((workflow_init log [])\<lparr>wf_holding := True\<rparr>) = (Inl (ActivityError f), w')"
proof -
  obtain log a where "memory_invar log" "ledger_ok plain_runtime log" "account_at plain_runtime log 1 = Some a"
    "acc_status a = FROZEN" using sample_frozen by blast
  then show ?thesis
    using compensation_stuck_on_frozen_source [where d = "sample_input 40 2" and log = log and a = a and
      w = "(workflow_init log [])\<lparr>wf_holding := True\<rparr>" and err = "OtherCause ''x''", OF _ sample_temporal]
    by (fastforce simp: workflow_init_def)
qed

end
