(* ===== verification/Tailing.thy ===== *)
theory Tailing
  imports Event_Store
begin

text \<open>
  Consumers of the global log: checkpoints and the \<open>ProjectionRunner\<close> of
  \<^verbatim>\<open>src/src/ledger/projections/runner.py\<close>. A consumer reads a batch after its checkpoint, feeds it to
  its projectors and saves the new checkpoint; \<open>drain\<close> repeats this until a batch is empty, which it
  may never be while others write, so it is a partial function. The locale \<open>checkpoint_contract\<close> is
  what the \<open>CheckpointStore\<close> protocol promises, \<open>cursor_tail\<close> a consumer of a store that keeps its
  contract, and \<open>synced_tail\<close> a consumer whose projectors never raise on the logs at hand.
\<close>

section \<open>Checkpoints\<close>

record 'c checkpoint_store =
  cp_load :: "string \<Rightarrow> ('c, exn, int) action"
  cp_save :: "string \<Rightarrow> int \<Rightarrow> ('c, exn, unit) action"

type_synonym positions = "(string \<times> int) list"

definition memory_checkpoint_load :: "string \<Rightarrow> (positions, exn, int) action" where
  "memory_checkpoint_load name = (\<lambda>ps. (Inr (dict_get0 ps name), ps))"

definition memory_checkpoint_save :: "string \<Rightarrow> int \<Rightarrow> (positions, exn, unit) action" where
  "memory_checkpoint_save name position = (\<lambda>ps. (Inr (), dict_set name position ps))"

definition memory_checkpoints :: "positions checkpoint_store" where
  "memory_checkpoints = \<lparr>cp_load = memory_checkpoint_load, cp_save = memory_checkpoint_save\<rparr>"

section \<open>The runner\<close>

text \<open>The store, the checkpoints and what the projectors write to.\<close>

record ('s, 'c, 'x) tail_world =
  tw_store :: 's
  tw_checkpoints :: 'c
  tw_sink :: 'x

definition on_store :: "('s, 'e, 'a) action \<Rightarrow> (('s, 'c, 'x) tail_world, 'e, 'a) action" where
  "on_store m = (\<lambda>w. case m (tw_store w) of (r, s) \<Rightarrow> (r, w\<lparr>tw_store := s\<rparr>))"

definition on_checkpoints :: "('c, 'e, 'a) action \<Rightarrow> (('s, 'c, 'x) tail_world, 'e, 'a) action" where
  "on_checkpoints m = (\<lambda>w. case m (tw_checkpoints w) of (r, c) \<Rightarrow> (r, w\<lparr>tw_checkpoints := c\<rparr>))"

definition on_sink :: "('x, 'e, 'a) action \<Rightarrow> (('s, 'c, 'x) tail_world, 'e, 'a) action" where
  "on_sink m = (\<lambda>w. case m (tw_sink w) of (r, x) \<Rightarrow> (r, w\<lparr>tw_sink := x\<rparr>))"

type_synonym 'x projector = "stored_event \<Rightarrow> ('x, exn, unit) action"

record ('s, 'c, 'x) projection_runner =
  pr_store :: "'s event_store"
  pr_checkpoints :: "'c checkpoint_store"
  pr_name :: string
  pr_projectors :: "'x projector list"
  pr_batch_size :: int

text \<open>The two nested loops of \<open>run_once\<close>; the outer one carries the position.\<close>

definition feed_event :: "'x projector list \<Rightarrow> 'x projector" where
  "feed_event projectors e = foldM (\<lambda>_ project. project e) () projectors"

definition feed_batch :: "'x projector list \<Rightarrow> int \<Rightarrow> stored_event list \<Rightarrow> ('x, exn, int) action" where
  "feed_batch projectors position batch =
     foldM (\<lambda>_ e. bindM (feed_event projectors e) (\<lambda>_. returnM (se_global_position e))) position batch"

definition runner_run_once ::
  "('s, 'c, 'x) projection_runner \<Rightarrow> (('s, 'c, 'x) tail_world, exn, int) action" where
  "runner_run_once R =
     bindM (on_checkpoints (cp_load (pr_checkpoints R) (pr_name R))) (\<lambda>position.
     bindM (on_store (es_read_all (pr_store R) position (pr_batch_size R))) (\<lambda>batch.
     bindM (on_sink (feed_batch (pr_projectors R) position batch)) (\<lambda>position'.
     bindM (if batch \<noteq> [] then on_checkpoints (cp_save (pr_checkpoints R) (pr_name R) position') else returnM ()) (\<lambda>_.
     returnM (int (length batch))))))"

partial_function (option) runner_drain ::
  "('s, 'c, 'x) projection_runner \<Rightarrow> int \<Rightarrow> ('s, 'c, 'x) tail_world \<Rightarrow>
   ((exn + int) \<times> ('s, 'c, 'x) tail_world) option" where
  "runner_drain R acc w =
     (case runner_run_once R w of
        (Inl e, w') \<Rightarrow> Some (Inl e, w')
      | (Inr handled, w') \<Rightarrow>
          if 0 < handled then runner_drain R (acc + handled) w' else Some (Inr acc, w'))"

declare runner_drain.simps [code]

section \<open>Cursors\<close>

text \<open>What a cursor has passed, and the cursors a consumer can have.\<close>

definition passed :: "int \<Rightarrow> event_list \<Rightarrow> event_list" where
  "passed p log = filter (\<lambda>e. se_global_position e \<le> p) log"

definition cursor_ok :: "int \<Rightarrow> event_list \<Rightarrow> bool" where
  "cursor_ok p log \<longleftrightarrow> p = 0 \<or> p \<in> se_global_position ` set log"

lemma sorted_split_at:
  "sorted_wrt (<) (map f xs) \<Longrightarrow> filter (\<lambda>e. f e \<le> p) xs @ filter (\<lambda>e. p < (f e :: int)) xs = xs"
proof (induction xs)
  case (Cons x xs)
  show ?case
  proof (cases "f x \<le> p")
    case False
    then have "\<forall>y \<in> set xs. p < f y" using Cons.prems by auto
    then have "filter (\<lambda>e. f e \<le> p) xs = []" "filter (\<lambda>e. p < f e) xs = xs"
      by (auto simp: filter_empty_conv filter_id_conv)
    with False show ?thesis by simp
  qed (use Cons in simp)
qed simp

lemma passed_unread: "log_wf log \<Longrightarrow> passed p log @ unread p log = log"
  unfolding passed_def unread_def by (rule sorted_split_at) (simp add: log_wf_def)

lemma cursor_bound:
  assumes "log_wf (log @ new)" and "cursor_ok p log" and "e \<in> set new"
  shows "p < se_global_position e"
  using assms by (force simp: log_wf_def cursor_ok_def sorted_wrt_append)

lemma passed_grows:
  assumes "log_wf (log @ new)" and "cursor_ok p log"
  shows "passed p (log @ new) = passed p log" and "cursor_ok p (log @ new)"
  using cursor_bound [OF assms] assms(2) by (force simp: passed_def filter_empty_conv cursor_ok_def)+

text \<open>Advancing over a batch.\<close>

lemma passed_after_batch:
  assumes wf: "log_wf log" and batch: "batch = take n (unread p log)" "batch \<noteq> []"
  shows "passed (se_global_position (last batch)) log = passed p log @ batch"
    and "cursor_ok (se_global_position (last batch)) log"
proof -
  let ?q = "se_global_position (last batch)"
  have "passed ?q log @ drop n (unread p log) = (passed p log @ batch) @ drop n (unread p log)"
    using passed_unread [OF wf, of p] passed_unread [OF wf, of ?q] unread_after_batch [OF wf batch]
    by (metis append_assoc append_take_drop_id batch(1))
  then show "passed ?q log = passed p log @ batch" by simp
  have "last batch \<in> set (unread p log)" using batch by (metis in_set_takeD last_in_set)
  then show "cursor_ok ?q log" by (auto simp: cursor_ok_def unread_def)
qed

section \<open>The contract of a consumer\<close>

locale checkpoint_contract =
  fixes cps :: "'c checkpoint_store" and position :: "string \<Rightarrow> 'c \<Rightarrow> int"
  assumes load_position: "cp_load cps n c = (r, c') \<Longrightarrow> position n c' = position n c"
    and load_result: "cp_load cps n c = (Inr p, c') \<Longrightarrow> p = position n c"
    and save_position: "cp_save cps n p c = (Inr (), c') \<Longrightarrow> position n c' = p"
    and save_failed: "cp_save cps n p c = (Inl e, c') \<Longrightarrow> position n c' = position n c \<or> position n c' = p"

interpretation memory_cp: checkpoint_contract memory_checkpoints "\<lambda>n ps. dict_get0 ps n"
  by unfold_locales (auto simp: memory_checkpoints_def memory_checkpoint_load_def memory_checkpoint_save_def
      dict_get0_def)

lemma feed_batch_simps [simp]:
  "feed_batch ps p [] = returnM p"
  "feed_batch ps p (e # es) = bindM (feed_event ps e) (\<lambda>_. feed_batch ps (se_global_position e) es)"
  by (auto simp: feed_batch_def fun_eq_iff bindM_def split: prod.splits sum.splits)

lemma feed_batch_position:
  "feed_batch ps p batch x = (Inr q, x') \<Longrightarrow> q = (if batch = [] then p else se_global_position (last batch))"
  by (induction batch arbitrary: p x) (auto simp: bindM_def split: prod.splits sum.splits if_splits)

text \<open>How one round can end; \<open>lossy\<close> says that saving a checkpoint can fail.\<close>

inductive round_end ::
  "bool \<Rightarrow> 'x projector list \<Rightarrow> nat \<Rightarrow> int \<Rightarrow> event_list \<Rightarrow> 'x \<Rightarrow> exn + int \<Rightarrow> int \<Rightarrow> 'x \<Rightarrow> bool"
  for lossy ps n p log x where
  unreadable: "round_end lossy ps n p log x (Inl e) p x"
| caught_up: "unread p log = [] \<Longrightarrow> round_end lossy ps n p log x (Inr 0) p x"
| projector_raised: "batch = take n (unread p log) \<Longrightarrow> batch \<noteq> [] \<Longrightarrow> feed_batch ps p batch x = (Inl e, x') \<Longrightarrow>
    round_end lossy ps n p log x (Inl e) p x'"
| save_raised: "batch = take n (unread p log) \<Longrightarrow> batch \<noteq> [] \<Longrightarrow> feed_batch ps p batch x = (Inr q, x') \<Longrightarrow>
    lossy \<Longrightarrow> p' = p \<or> p' = q \<Longrightarrow> round_end lossy ps n p log x (Inl e) p' x'"
| handled: "batch = take n (unread p log) \<Longrightarrow> batch \<noteq> [] \<Longrightarrow> feed_batch ps p batch x = (Inr q, x') \<Longrightarrow>
    round_end lossy ps n p log x (Inr (int (length batch))) q x'"

locale cursor_tail = event_log rt store log invar rely + checkpoint_contract cps position
  for rt :: runtime and store :: "'s event_store" and log :: "'s \<Rightarrow> event_list"
    and invar :: "'s \<Rightarrow> bool" and rely :: "event_list \<Rightarrow> event_list \<Rightarrow> bool"
    and cps :: "'c checkpoint_store" and position :: "string \<Rightarrow> 'c \<Rightarrow> int" +
  fixes name :: string and projectors :: "'x projector list" and batch_size :: int
  assumes batch_positive: "0 < batch_size"
begin

definition runner :: "('s, 'c, 'x) projection_runner" where
  "runner = \<lparr>pr_store = store, pr_checkpoints = cps, pr_name = name, pr_projectors = projectors,
     pr_batch_size = batch_size\<rparr>"

definition cursor :: "('s, 'c, 'x) tail_world \<Rightarrow> int" where
  "cursor w = position name (tw_checkpoints w)"

definition lossy :: bool where
  "lossy \<longleftrightarrow> (\<exists>p c e c'. cp_save cps name p c = (Inl e, c'))"

definition tail_log :: "('s, 'c, 'x) tail_world \<Rightarrow> event_list" where
  "tail_log w = log (tw_store w)"

lemma run_once_cases:
  assumes inv: "invar (tw_store w)" and run: "runner_run_once runner w = (r, w')"
  shows "invar (tw_store w') \<and> rely (tail_log w) (tail_log w') \<and>
    round_end lossy projectors (nat batch_size) (cursor w) (tail_log w') (tw_sink w) r (cursor w') (tw_sink w')"
proof -
  obtain q1 c1 where load: "cp_load cps name (tw_checkpoints w) = (q1, c1)" by fastforce
  have pos1: "position name c1 = cursor w" using load_position [OF load] by (simp add: cursor_def)
  show ?thesis
  proof (cases q1)
    case (Inl e)
    with run load have "r = Inl e" "w' = w\<lparr>tw_checkpoints := c1\<rparr>"
      by (auto simp: runner_run_once_def runner_def bindM_def on_checkpoints_def)
    with inv pos1 rely_refl show ?thesis by (auto simp: cursor_def tail_log_def intro: unreadable)
  next
    case (Inr p)
    then have p: "p = cursor w" using load_result load by (simp add: cursor_def)
    obtain q2 s2 where read: "es_read_all store p batch_size (tw_store w) = (q2, s2)" by fastforce
    note rl = read_log [OF inv read]
    show ?thesis
    proof (cases q2)
      case (Inl e)
      with run load read \<open>q1 = Inr p\<close> have "r = Inl e" "w' = w\<lparr>tw_checkpoints := c1, tw_store := s2\<rparr>"
        by (auto simp: runner_run_once_def runner_def bindM_def on_checkpoints_def on_store_def)
      with rl pos1 show ?thesis by (auto simp: cursor_def tail_log_def intro: unreadable)
    next
      case (Inr batch)
      have batch: "batch = take (nat batch_size) (unread p (log s2))"
        using read_result [OF inv, of p batch_size batch s2] read Inr batch_positive by (simp add: py_take_take unread_def)
      obtain q3 x3 where feed: "feed_batch projectors p batch (tw_sink w) = (q3, x3)" by fastforce
      have run': "runner_run_once runner w =
          (case q3 of Inl e \<Rightarrow> (Inl e, w\<lparr>tw_checkpoints := c1, tw_store := s2, tw_sink := x3\<rparr>)
           | Inr q \<Rightarrow> if batch = [] then (Inr 0, w\<lparr>tw_checkpoints := c1, tw_store := s2, tw_sink := x3\<rparr>)
               else (case cp_save cps name q c1 of
                   (Inl e, c4) \<Rightarrow> (Inl e, w\<lparr>tw_checkpoints := c4, tw_store := s2, tw_sink := x3\<rparr>)
                 | (Inr _, c4) \<Rightarrow> (Inr (int (length batch)), w\<lparr>tw_checkpoints := c4, tw_store := s2, tw_sink := x3\<rparr>)))"
        using load read feed Inr \<open>q1 = Inr p\<close>
        by (auto simp: runner_run_once_def runner_def bindM_def on_checkpoints_def on_store_def on_sink_def
            split: prod.splits sum.splits)
      have "round_end lossy projectors (nat batch_size) p (log s2) (tw_sink w) r (cursor w') (tw_sink w')"
      proof (cases "batch = []")
        case True
        then have "unread p (log s2) = []" using batch batch_positive by simp
        moreover have "r = Inr 0" "tw_sink w' = tw_sink w" "cursor w' = p"
          using True run run' feed pos1 p by (auto simp: cursor_def)
        ultimately show ?thesis by (simp add: caught_up)
      next
        case False
        show ?thesis
        proof (cases q3)
          case (Inl e)
          then have "r = Inl e" "tw_sink w' = x3" "cursor w' = p"
            using False run run' pos1 p by (auto simp: cursor_def)
          with projector_raised [OF batch False feed [unfolded Inl]] show ?thesis by simp
        next
          case q3: (Inr q)
          obtain q4 c4 where save: "cp_save cps name q c1 = (q4, c4)" by fastforce
          show ?thesis
          proof (cases q4)
            case (Inl e)
            then have "r = Inl e" "tw_sink w' = x3" "cursor w' = p \<or> cursor w' = q" "lossy"
              using False run run' pos1 p q3 save save_failed [of name q c1 e c4] by (auto simp: cursor_def lossy_def)
            with save_raised [OF batch False feed [unfolded q3]] show ?thesis by simp
          next
            case (Inr u)
            then have "r = Inr (int (length batch))" "tw_sink w' = x3" "cursor w' = q"
              using False run run' q3 save save_position [of name q c1 c4] by (auto simp: cursor_def)
            with handled [OF batch False feed [unfolded q3]] show ?thesis by simp
          qed
        qed
      qed
      moreover have "tw_store w' = s2"
        using run run' by (auto split: sum.splits prod.splits if_splits)
      ultimately show ?thesis using rl p by (simp add: tail_log_def)
    qed
  qed
qed

end

section \<open>Consumers that stay in step with the log\<close>

text \<open>
  \<open>absorbed x evs\<close> says that the sink \<open>x\<close> is what feeding exactly \<open>evs\<close> in order gives. On good
  logs no projector raises, and the checkpoint is always saved.
\<close>

locale synced_tail = cursor_tail rt store log invar rely cps position name projectors batch_size
  for rt :: runtime and store :: "'s event_store" and log :: "'s \<Rightarrow> event_list"
    and invar :: "'s \<Rightarrow> bool" and rely :: "event_list \<Rightarrow> event_list \<Rightarrow> bool"
    and cps :: "'c checkpoint_store" and position :: "string \<Rightarrow> 'c \<Rightarrow> int"
    and name :: string and projectors :: "'x projector list" and batch_size :: int +
  fixes absorbed :: "'x \<Rightarrow> event_list \<Rightarrow> bool" and good :: "event_list \<Rightarrow> bool"
  assumes good_prefix: "good (evs @ rest) \<Longrightarrow> good evs"
    and absorb: "good (evs @ [e]) \<Longrightarrow> absorbed x evs \<Longrightarrow>
      \<exists>x'. feed_event projectors e x = (Inr (), x') \<and> absorbed x' (evs @ [e])"
    and save_total: "\<exists>c'. cp_save cps n p c = (Inr (), c')"
begin

definition synced :: "('s, 'c, 'x) tail_world \<Rightarrow> bool" where
  "synced w \<longleftrightarrow> invar (tw_store w) \<and> cursor_ok (cursor w) (tail_log w) \<and>
     absorbed (tw_sink w) (passed (cursor w) (tail_log w))"

lemma not_lossy: "\<not> lossy"
proof
  assume lossy
  then obtain p c e c' where "cp_save cps name p c = (Inl e, c')" unfolding lossy_def by blast
  with save_total [of name p c] show False by auto
qed

lemma feed_absorbs:
  "good (evs @ batch) \<Longrightarrow> absorbed x evs \<Longrightarrow>
     \<exists>q x'. feed_batch projectors p batch x = (Inr q, x') \<and> absorbed x' (evs @ batch)"
proof (induction batch arbitrary: evs x p)
  case (Cons e batch)
  have "good (evs @ [e])" using Cons.prems(1) good_prefix [of "evs @ [e]" batch] by simp
  from absorb [OF this Cons.prems(2)] obtain x1 where
    x1: "feed_event projectors e x = (Inr (), x1)" "absorbed x1 (evs @ [e])" by blast
  from Cons.IH [of "evs @ [e]" x1 "se_global_position e"] x1 Cons.prems(1) show ?case
    by (auto simp: bindM_Inr)
qed simp

text \<open>Foreign writes do not disturb a consumer.\<close>

lemma synced_stable:
  assumes "synced w" and "invar s" and "rely (tail_log w) (log s)"
  shows "synced (w\<lparr>tw_store := s\<rparr>)"
proof -
  obtain new where new: "log s = tail_log w @ new" using rely_grows [OF assms(3)] ..
  have wf: "log_wf (tail_log w @ new)" using invar_wf [OF assms(2)] new by simp
  have ok: "cursor_ok (cursor w) (tail_log w)" using assms(1) by (simp add: synced_def)
  show ?thesis
    using assms(1,2) passed_grows [OF wf ok] new
    by (simp add: synced_def cursor_def tail_log_def)
qed

lemma run_once_synced:
  assumes "synced w" and run: "runner_run_once runner w = (r, w')" and good: "good (tail_log w')"
  shows "synced w'" and "r = Inr n \<Longrightarrow> n \<le> 0 \<Longrightarrow> absorbed (tw_sink w') (tail_log w')"
proof -
  have inv: "invar (tw_store w)" using assms(1) by (simp add: synced_def)
  note c = run_once_cases [OF inv run]
  let ?l = "tail_log w'"
  have inv': "invar (tw_store w')" and wf: "log_wf ?l" using c invar_wf by (auto simp: tail_log_def)
  have "synced (w\<lparr>tw_store := tw_store w'\<rparr>)"
    using synced_stable [OF assms(1)] c by (simp add: tail_log_def)
  then have cur: "cursor_ok (cursor w) ?l" and abs: "absorbed (tw_sink w) (passed (cursor w) ?l)"
    by (simp_all add: synced_def cursor_def tail_log_def)
  have feed: "\<exists>q x'. feed_batch projectors (cursor w) batch (tw_sink w) = (Inr q, x') \<and>
      absorbed x' (passed (cursor w) ?l @ batch)" if "batch = take (nat batch_size) (unread (cursor w) ?l)" for batch
  proof (rule feed_absorbs [OF _ abs])
    have "?l = (passed (cursor w) ?l @ batch) @ drop (nat batch_size) (unread (cursor w) ?l)"
      using passed_unread [OF wf, of "cursor w"] that by simp
    then show "good (passed (cursor w) ?l @ batch)" using good good_prefix by metis
  qed
  have "(r = Inr 0 \<or> isl r) \<and> cursor w' = cursor w \<and> tw_sink w' = tw_sink w \<and>
      (r = Inr 0 \<longrightarrow> unread (cursor w) ?l = []) \<or>
    (\<exists>batch :: event_list. batch \<noteq> [] \<and> r = Inr (int (length batch)) \<and> cursor_ok (cursor w') ?l \<and>
       absorbed (tw_sink w') (passed (cursor w') ?l))"
    using conjunct2 [OF conjunct2 [OF c]]
  proof (cases rule: round_end.cases)
    case (projector_raised batch e)
    with feed [OF projector_raised(3)] show ?thesis by auto
  next
    case (save_raised batch q e)
    then show ?thesis using not_lossy by simp
  next
    case (handled batch)
    have "cursor w' = se_global_position (last batch)"
      using feed_batch_position [OF handled(4)] handled(3) by simp
    moreover have "absorbed (tw_sink w') (passed (cursor w) ?l @ batch)"
      using feed [OF handled(2)] handled(4) by auto
    ultimately show ?thesis
      using passed_after_batch [OF wf handled(2,3)] handled(1,3) by (intro disjI2 exI [of _ batch]) simp
  qed auto
  then show "synced w'" and "r = Inr n \<Longrightarrow> n \<le> 0 \<Longrightarrow> absorbed (tw_sink w') (tail_log w')"
    using inv' cur abs passed_unread [OF wf, of "cursor w"] by (auto simp: synced_def)
qed

text \<open>The loop: it keeps in step, and if it returns it has absorbed the whole log.\<close>

definition drained :: "('s, 'c, 'x) tail_world \<Rightarrow> (exn + int) \<times> ('s, 'c, 'x) tail_world \<Rightarrow> bool" where
  "drained w y \<longleftrightarrow>
     (invar (tw_store w) \<longrightarrow> invar (tw_store (snd y)) \<and> rely (tail_log w) (tail_log (snd y))) \<and>
     (synced w \<longrightarrow> good (tail_log (snd y)) \<longrightarrow>
        synced (snd y) \<and> (\<not> isl (fst y) \<longrightarrow> absorbed (tw_sink (snd y)) (tail_log (snd y))))"

lemma drained_last:
  assumes run: "runner_run_once runner w = (q, w')" and "isl q \<and> isl r \<or> (\<exists>n. q = Inr n \<and> n \<le> 0)"
  shows "drained w (r, w')"
  using run_once_cases [OF _ run] run_once_synced [OF _ run] assms(2) by (auto simp: drained_def)

lemma drained_step:
  assumes run: "runner_run_once runner w = (q, w1)" and "drained w1 y"
  shows "drained w y"
proof -
  have grow: "rely (tail_log w1) (tail_log (snd y)) \<Longrightarrow> good (tail_log (snd y)) \<Longrightarrow> good (tail_log w1)"
    using rely_grows good_prefix by metis
  have "synced w \<Longrightarrow> invar (tw_store w)" by (simp add: synced_def)
  with run_once_cases [OF _ run] run_once_synced(1) [OF _ run] assms(2) grow rely_trans show ?thesis
    unfolding drained_def by blast
qed

lemma drain_drained: "runner_drain runner acc w = Some y \<Longrightarrow> drained w y"
proof -
  have "R = runner \<longrightarrow> drained w y" if "runner_drain R acc w = Some y" for R acc w y
  proof (rule runner_drain.raw_induct [where P = "\<lambda>R acc w y. R = runner \<longrightarrow> drained w y", OF _ that], intro impI)
    fix drain R acc w y
    assume 1: "\<And>R acc w y. drain R acc w = Some y \<Longrightarrow> R = runner \<longrightarrow> drained w y"
      "(case runner_run_once R w of (Inl e, w') \<Rightarrow> Some (Inl e, w')
        | (Inr handled, w') \<Rightarrow> if 0 < handled then drain R (acc + handled) w' else Some (Inr acc, w')) = Some y"
      and R: "R = runner"
    obtain q w1 where run: "runner_run_once runner w = (q, w1)" by fastforce
    show "drained w y"
    proof (cases "\<exists>n. q = Inr n \<and> 0 < n")
      case True
      then obtain n where "drain runner (acc + n) w1 = Some y" using 1(2) R run by auto
      with 1(1) have "drained w1 y" by blast
      then show ?thesis by (rule drained_step [OF run])
    next
      case False
      then have "isl q \<and> isl (fst y) \<or> (\<exists>n. q = Inr n \<and> n \<le> 0)" "snd y = w1"
        using 1(2) [unfolded R run] by (cases q; auto)+
      with drained_last [OF run, of "fst y"] show ?thesis by (cases y) simp
    qed
  qed
  then show "runner_drain runner acc w = Some y \<Longrightarrow> drained w y" by blast
qed

end

section \<open>Termination\<close>

text \<open>On a store nobody else writes to, the loop ends, and it has handled every unread event.\<close>

locale reliable_tail = synced_tail rt store log invar "(=)" cps position name projectors batch_size absorbed good +
  reliable_event_log rt store log invar
  for rt :: runtime and store :: "'s event_store" and log :: "'s \<Rightarrow> event_list"
    and invar :: "'s \<Rightarrow> bool"
    and cps :: "'c checkpoint_store" and position :: "string \<Rightarrow> 'c \<Rightarrow> int"
    and name :: string and projectors :: "'x projector list" and batch_size :: int
    and absorbed :: "'x \<Rightarrow> event_list \<Rightarrow> bool" and good :: "event_list \<Rightarrow> bool" +
  assumes load_total: "\<exists>p c'. cp_load cps n c = (Inr p, c')"
begin

lemma run_once_returns:
  assumes syn: "synced w" and good: "good (tail_log w)"
  shows "\<exists>n w'. runner_run_once runner w = (Inr (int n), w') \<and> tail_log w' = tail_log w \<and>
    length (unread (cursor w) (tail_log w)) = n + length (unread (cursor w') (tail_log w')) \<and>
    (n = 0 \<longrightarrow> unread (cursor w) (tail_log w) = [])"
proof -
  let ?u = "unread (cursor w) (tail_log w)"
  have inv: "invar (tw_store w)" and abs: "absorbed (tw_sink w) (passed (cursor w) (tail_log w))"
    using syn by (simp_all add: synced_def)
  have wf: "log_wf (tail_log w)" using invar_wf [OF inv] by (simp add: tail_log_def)
  define batch where "batch = take (nat batch_size) ?u"
  have none: "batch = [] \<longleftrightarrow> ?u = []" using batch_positive by (simp add: batch_def)
  obtain c1 where load: "cp_load cps name (tw_checkpoints w) = (Inr (cursor w), c1)"
    using load_total [of name "tw_checkpoints w"] load_result by (metis cursor_def)
  have read: "es_read_all store (cursor w) batch_size (tw_store w) = (Inr batch, tw_store w)"
    using read_ok [OF inv] batch_positive by (simp add: batch_def py_take_take unread_def tail_log_def)
  have "tail_log w = (passed (cursor w) (tail_log w) @ batch) @ drop (nat batch_size) ?u"
    using passed_unread [OF wf, of "cursor w"] by (simp add: batch_def)
  then have "good (passed (cursor w) (tail_log w) @ batch)" using good good_prefix by metis
  from feed_absorbs [OF this abs, of "cursor w"] obtain q x' where
    feed: "feed_batch projectors (cursor w) batch (tw_sink w) = (Inr q, x')" by blast
  obtain c2 where save: "cp_save cps name q c1 = (Inr (), c2)" using save_total by blast
  define w' where "w' = w\<lparr>tw_checkpoints := (if batch = [] then c1 else c2), tw_sink := x'\<rparr>"
  have run: "runner_run_once runner w = (Inr (int (length batch)), w')"
    using load read feed save
    by (auto simp: runner_run_once_def runner_def bindM_def on_checkpoints_def on_store_def on_sink_def w'_def)
  have cur: "cursor w' = (if batch = [] then cursor w else se_global_position (last batch))"
    using load_position [OF load] save_position [OF save] feed_batch_position [OF feed]
    by (simp add: cursor_def w'_def)
  have "unread (cursor w') (tail_log w) = drop (nat batch_size) ?u"
  proof (cases "batch = []")
    case False
    with cur unread_after_batch [OF wf batch_def] show ?thesis by simp
  qed (use cur none in simp)
  moreover have "tail_log w' = tail_log w" by (simp add: w'_def tail_log_def)
  ultimately show ?thesis
    using run none by (intro exI [of _ "length batch"] exI [of _ w']) (simp, simp add: batch_def)
qed

lemma drain_returns:
  assumes "synced w" and "good (tail_log w)"
  shows "\<exists>w'. runner_drain runner acc w =
      Some (Inr (acc + int (length (unread (cursor w) (tail_log w)))), w') \<and> tail_log w' = tail_log w"
  using assms
proof (induction "length (unread (cursor w) (tail_log w))" arbitrary: w acc rule: less_induct)
  case less
  from run_once_returns [OF less.prems] obtain n w1 where run: "runner_run_once runner w = (Inr (int n), w1)"
    and log: "tail_log w1 = tail_log w"
    and len: "length (unread (cursor w) (tail_log w)) = n + length (unread (cursor w1) (tail_log w1))"
    and none: "n = 0 \<longrightarrow> unread (cursor w) (tail_log w) = []" by blast
  show ?case
  proof (cases "n = 0")
    case True
    with run none log show ?thesis by (subst runner_drain.simps) simp
  next
    case False
    have "synced w1" "good (tail_log w1)" using run_once_synced(1) [OF less.prems(1) run] less.prems(2) log by simp_all
    with less.hyps [of w1 "acc + int n"] False len obtain w' where
      "runner_drain runner (acc + int n) w1 =
        Some (Inr (acc + int n + int (length (unread (cursor w1) (tail_log w1)))), w')" "tail_log w' = tail_log w1"
      by auto
    with run False log len show ?thesis by (subst runner_drain.simps) simp
  qed
qed

end

end
