(* ===== verification/Read_Models.thy ===== *)
theory Read_Models
  imports Ledger_View Tailing
begin

text \<open>
  The account read models: the two projections of \<^verbatim>\<open>src/src/ledger/projections/read_models.py\<close> and
  the container \<open>ReadModels\<close> of \<^verbatim>\<open>read_models_service.py\<close> that feeds them through the projection
  runner. The lemmas relate what the projections hold to the aggregates: after a query, the
  balances are those of the accounts loaded from the log as it is when the query returns, and the
  statement is the list of balance-affecting events. The balances projection also interprets the
  port \<open>status_reader\<close>.
\<close>

section \<open>Balances\<close>

record account_balance_view =
  abv_account_id :: uuid
  abv_currency :: string
  abv_available :: int
  abv_reserved :: int
  abv_status :: account_status

definition abv_total :: "account_balance_view \<Rightarrow> int" where
  "abv_total v = abv_available v + abv_reserved v"

record balance =
  bal_currency :: string
  bal_available :: int
  bal_reserved :: int
  bal_status :: account_status

definition new_balance :: "string \<Rightarrow> balance" where
  "new_balance c = \<lparr>bal_currency = c, bal_available = 0, bal_reserved = 0, bal_status = OPEN\<rparr>"

type_synonym balances = "(uuid \<times> balance) list"

text \<open>An assignment to an attribute of \<open>self._by_id[account_id]\<close>.\<close>

definition at_balance :: "uuid \<Rightarrow> (balance \<Rightarrow> balance) \<Rightarrow> balances \<Rightarrow> balances result" where
  "at_balance aid f b = (case map_of b aid of None \<Rightarrow> Inl KeyError | Some x \<Rightarrow> Inr (dict_set aid (f x) b))"

fun balances_match :: "uuid \<Rightarrow> domain_event \<Rightarrow> balances \<Rightarrow> balances result" where
  "balances_match aid (AccountE (AccountOpened c)) b = Inr (dict_set aid (new_balance c) b)"
| "balances_match aid (AccountE (FundsDeposited m)) b =
     at_balance aid (\<lambda>x. x\<lparr>bal_available := bal_available x + amount m\<rparr>) b"
| "balances_match aid (AccountE (AccountCredited m _)) b =
     at_balance aid (\<lambda>x. x\<lparr>bal_available := bal_available x + amount m\<rparr>) b"
| "balances_match aid (AccountE (FundsHeld m _)) b =
     at_balance aid (\<lambda>x. x\<lparr>bal_available := bal_available x - amount m, bal_reserved := bal_reserved x + amount m\<rparr>) b"
| "balances_match aid (AccountE (HoldReleased m _)) b =
     at_balance aid (\<lambda>x. x\<lparr>bal_reserved := bal_reserved x - amount m, bal_available := bal_available x + amount m\<rparr>) b"
| "balances_match aid (AccountE (AccountDebited m _)) b =
     at_balance aid (\<lambda>x. x\<lparr>bal_reserved := bal_reserved x - amount m\<rparr>) b"
| "balances_match aid (AccountE AccountFrozen) b = at_balance aid (\<lambda>x. x\<lparr>bal_status := FROZEN\<rparr>) b"
| "balances_match aid (AccountE AccountClosed) b = at_balance aid (\<lambda>x. x\<lparr>bal_status := CLOSED\<rparr>) b"
| "balances_match aid _ b = Inr b"

definition update_by :: "('s \<Rightarrow> 'e + 's) \<Rightarrow> ('s, 'e, unit) action" where
  "update_by f = (\<lambda>s. case f s of Inl e \<Rightarrow> (Inl e, s) | Inr s' \<Rightarrow> (Inr (), s'))"

definition balances_project :: "runtime \<Rightarrow> event_registry \<Rightarrow> balances projector" where
  "balances_project rt reg e =
     (if se_stream_type e \<noteq> ACCOUNT_STREAM then returnM ()
      else bindM (liftE (decode_stored rt reg e)) (\<lambda>d. update_by (balances_match (se_stream_id e) d)))"

definition balance_of :: "uuid \<Rightarrow> balances \<Rightarrow> account_balance_view option" where
  "balance_of aid b =
     (case map_of b aid of
        None \<Rightarrow> None
      | Some x \<Rightarrow> Some \<lparr>abv_account_id = aid, abv_currency = bal_currency x, abv_available = bal_available x,
          abv_reserved = bal_reserved x, abv_status = bal_status x\<rparr>)"

definition projection_snapshot :: "balances status_reader" where
  "projection_snapshot aid =
     (\<lambda>b. (Inr (case map_of b aid of
        None \<Rightarrow> None
      | Some x \<Rightarrow> Some \<lparr>snap_account_id = aid, snap_currency = bal_currency x, snap_status = bal_status x\<rparr>), b))"

interpretation projection_reader: status_reader projection_snapshot
  "\<lambda>b aid. map_option (\<lambda>x. \<lparr>snap_account_id = aid, snap_currency = bal_currency x, snap_status = bal_status x\<rparr>)
     (map_of b aid)" "\<lambda>_. True"
  by unfold_locales (simp add: projection_snapshot_def split: option.splits)

section \<open>Statements\<close>

text \<open>The amount and currency of a line are whatever the stored payload has.\<close>

record statement_line =
  sl_global_position :: int
  sl_kind :: string
  sl_amount :: json
  sl_currency :: json
  sl_occurred_at :: int

type_synonym statements = "(uuid \<times> statement_line list) list"

definition AMOUNT_EVENTS :: "string list" where
  "AMOUNT_EVENTS = [''FundsDeposited'', ''FundsHeld'', ''HoldReleased'', ''AccountDebited'', ''AccountCredited'']"

text \<open>\<open>self._by_id.setdefault(key, _Statement())\<close>.\<close>

definition set_default :: "uuid \<Rightarrow> statements \<Rightarrow> statements" where
  "set_default aid s = (case map_of s aid of None \<Rightarrow> dict_set aid [] s | Some _ \<Rightarrow> s)"

definition statement_project :: "statements projector" where
  "statement_project e =
     (if se_stream_type e \<noteq> ACCOUNT_STREAM then returnM ()
      else if se_event_type e = ''AccountOpened'' then update_by (\<lambda>s. Inr (set_default (se_stream_id e) s))
      else if se_event_type e \<notin> set AMOUNT_EVENTS then returnM ()
      else bindM (liftE (obj_get (se_payload e) ''amount'')) (\<lambda>amt.
           bindM (update_by (\<lambda>s. Inr (set_default (se_stream_id e) s))) (\<lambda>_.
           bindM (liftE (json_get amt ''amount'')) (\<lambda>a.
           bindM (liftE (json_get amt ''currency'')) (\<lambda>c.
             update_by (\<lambda>s. Inr (dict_set (se_stream_id e)
               ((case map_of s (se_stream_id e) of None \<Rightarrow> [] | Some ls \<Rightarrow> ls) @
                [\<lparr>sl_global_position = se_global_position e, sl_kind = se_event_type e, sl_amount = a,
                  sl_currency = c, sl_occurred_at = se_occurred_at e\<rparr>]) s)))))))"

definition statement_of :: "uuid \<Rightarrow> statements \<Rightarrow> statement_line list" where
  "statement_of aid s = (case map_of s aid of None \<Rightarrow> [] | Some ls \<Rightarrow> ls)"

section \<open>The container\<close>

record read_models =
  rm_balances :: balances
  rm_statements :: statements

definition on_balances :: "(balances, 'e, 'a) action \<Rightarrow> (read_models, 'e, 'a) action" where
  "on_balances m = (\<lambda>x. case m (rm_balances x) of (r, b) \<Rightarrow> (r, x\<lparr>rm_balances := b\<rparr>))"

definition on_statements :: "(statements, 'e, 'a) action \<Rightarrow> (read_models, 'e, 'a) action" where
  "on_statements m = (\<lambda>x. case m (rm_statements x) of (r, s) \<Rightarrow> (r, x\<lparr>rm_statements := s\<rparr>))"

definition RUNNER_NAME :: string where
  "RUNNER_NAME = ''account-read-models''"

definition read_model_projectors :: "runtime \<Rightarrow> event_registry \<Rightarrow> read_models projector list" where
  "read_model_projectors rt reg =
     [\<lambda>e. on_balances (balances_project rt reg e), \<lambda>e. on_statements (statement_project e)]"

definition read_models_runner ::
  "runtime \<Rightarrow> 's event_store \<Rightarrow> event_registry \<Rightarrow> ('s, positions, read_models) projection_runner" where
  "read_models_runner rt store reg =
     \<lparr>pr_store = store, pr_checkpoints = memory_checkpoints, pr_name = RUNNER_NAME,
      pr_projectors = read_model_projectors rt reg, pr_batch_size = 500\<rparr>"

definition read_models_init :: "'s \<Rightarrow> ('s, positions, read_models) tail_world" where
  "read_models_init s =
     \<lparr>tw_store = s, tw_checkpoints = [], tw_sink = \<lparr>rm_balances = [], rm_statements = []\<rparr>\<rparr>"

text \<open>Queries catch up first. \<open>None\<close> is a loop that never ends.\<close>

definition catch_up ::
  "('s, positions, read_models) projection_runner \<Rightarrow> ('s, positions, read_models) tail_world \<Rightarrow>
   ((exn + unit) \<times> ('s, positions, read_models) tail_world) option" where
  "catch_up R w = map_option (\<lambda>(r, w'). (map_sum id (\<lambda>_. ()) r, w')) (runner_drain R 0 w)"

definition read_models_balance_of ::
  "('s, positions, read_models) projection_runner \<Rightarrow> uuid \<Rightarrow> ('s, positions, read_models) tail_world \<Rightarrow>
   ((exn + account_balance_view option) \<times> ('s, positions, read_models) tail_world) option" where
  "read_models_balance_of R aid w =
     map_option (\<lambda>(r, w'). (map_sum id (\<lambda>_. balance_of aid (rm_balances (tw_sink w'))) r, w')) (catch_up R w)"

definition read_models_statement_of ::
  "('s, positions, read_models) projection_runner \<Rightarrow> uuid \<Rightarrow> ('s, positions, read_models) tail_world \<Rightarrow>
   ((exn + statement_line list) \<times> ('s, positions, read_models) tail_world) option" where
  "read_models_statement_of R aid w =
     map_option (\<lambda>(r, w'). (map_sum id (\<lambda>_. statement_of aid (rm_statements (tw_sink w'))) r, w')) (catch_up R w)"

section \<open>What the projections hold\<close>

definition account_balance :: "account \<Rightarrow> balance" where
  "account_balance a = \<lparr>bal_currency = acc_currency a, bal_available = amount (acc_available a),
     bal_reserved = amount (acc_reserved a), bal_status = acc_status a\<rparr>"

definition line_of :: "runtime \<Rightarrow> stored_event \<Rightarrow> statement_line option" where
  "line_of rt e = map_option (\<lambda>m. \<lparr>sl_global_position = se_global_position e, sl_kind = se_event_type e,
     sl_amount = JInt (amount m), sl_currency = JStr (currency m), sl_occurred_at = se_occurred_at e\<rparr>)
     (event_money (decoded rt e))"

definition statement_at :: "runtime \<Rightarrow> event_list \<Rightarrow> uuid \<Rightarrow> statement_line list option" where
  "statement_at rt log aid =
     (let es = stream_of ACCOUNT_STREAM aid log in if es = [] then None else Some (List.map_filter (line_of rt) es))"

definition models_of :: "runtime \<Rightarrow> read_models \<Rightarrow> event_list \<Rightarrow> bool" where
  "models_of rt x log \<longleftrightarrow>
     (\<forall>aid. map_of (rm_balances x) aid = map_option account_balance (account_at rt log aid)) \<and>
     (\<forall>aid. map_of (rm_statements x) aid = statement_at rt log aid)"

text \<open>Logs on which the projections never raise; every prefix of a consistent ledger is one.\<close>

definition opens_and_loads :: "domain_event list \<Rightarrow> bool" where
  "opens_and_loads es \<longleftrightarrow> es = [] \<or>
     (\<exists>c fs a. es = AccountE (AccountOpened c) # fs \<and> load_from_history account_apply account_init es = Inr a)"

definition projectable :: "runtime \<Rightarrow> event_list \<Rightarrow> bool" where
  "projectable rt log \<longleftrightarrow> log_decodes rt log \<and> (\<forall>aid. opens_and_loads (stream_events rt ACCOUNT_STREAM aid log))"

lemma opens_and_loads_prefix:
  assumes "opens_and_loads (es @ fs)"
  shows "opens_and_loads es"
proof (cases es)
  case (Cons e es')
  with assms obtain c gs a where "e = AccountE (AccountOpened c)"
    and "load_from_history account_apply account_init (es @ fs) = Inr a"
    by (auto simp: opens_and_loads_def)
  moreover from this(2) obtain b where "load_from_history account_apply account_init es = Inr b"
    by (auto simp: account.load_from_history_append result_iffs)
  ultimately show ?thesis using Cons by (auto simp: opens_and_loads_def)
qed (simp add: opens_and_loads_def)

lemma projectable_prefix: "projectable rt (log @ rest) \<Longrightarrow> projectable rt log"
  by (auto simp: projectable_def stream_events_append dest: opens_and_loads_prefix)

lemma account_lived_head: "account_lived es a \<Longrightarrow> \<exists>c fs. es = AccountE (AccountOpened c) # fs"
  by (induction rule: account_lived.induct) auto

lemma ledger_ok_projectable:
  assumes "ledger_ok rt log"
  shows "projectable rt log"
proof -
  have "opens_and_loads (stream_events rt ACCOUNT_STREAM aid log)" for aid
  proof (cases "stream_events rt ACCOUNT_STREAM aid log = []")
    case False
    then obtain a where "account_lived (stream_events rt ACCOUNT_STREAM aid log) a"
      using assms by (metis ledger_ok_def legal_history_simps(2))
    with account_lived_head account_lived_replay show ?thesis unfolding opens_and_loads_def by blast
  qed (simp add: opens_and_loads_def)
  with assms show ?thesis by (simp add: projectable_def ledger_ok_def)
qed

text \<open>One event: the projection does to the balance what \<open>_apply\<close> does to the account.\<close>

lemma balance_step:
  assumes "account_apply a e = Inr a'" and "map_of b aid = Some (account_balance a)"
  shows "\<exists>b'. balances_match aid e b = Inr b' \<and> map_of b' = (map_of b)(aid \<mapsto> account_balance a')"
  using assms
  by (induction a e rule: account_apply.induct)
    (auto simp: at_balance_def account_balance_def new_balance_def result_iffs money_add_def money_subtract_def
      money_zero_def Money_def assert_same_currency_def fun_upd_idem split: if_splits)

lemma stream_snoc:
  "stream_of st sid (log @ [e]) = stream_of st sid log @ (if in_stream st sid e then [e] else [])"
  "stream_events rt st sid (log @ [e]) =
     stream_events rt st sid log @ (if in_stream st sid e then [decoded rt e] else [])"
  by (simp_all add: stream_of_def stream_events_def)

lemma account_at_other:
  "\<not> in_stream ACCOUNT_STREAM aid e \<Longrightarrow> account_at rt (log @ [e]) aid = account_at rt log aid"
  "\<not> in_stream ACCOUNT_STREAM aid e \<Longrightarrow> statement_at rt (log @ [e]) aid = statement_at rt log aid"
  by (simp_all add: account_at_def statement_at_def stream_snoc)

lemma account_balance_frame [simp]:
  "account_balance (a\<lparr>agg_version := v\<rparr>) = account_balance a"
  by (simp add: account_balance_def)

lemma account_at_snoc:
  assumes "projectable rt (log @ [e])" and "in_stream ACCOUNT_STREAM aid e"
  obtains (opened) c b where "account_at rt log aid = None" and "stream_of ACCOUNT_STREAM aid log = []"
      and "decoded rt e = AccountE (AccountOpened c)"
      and "account_at rt (log @ [e]) aid = Some b" and "account_balance b = new_balance c"
  | (changed) a a' b where "account_at rt log aid = Some a" and "stream_of ACCOUNT_STREAM aid log \<noteq> []"
      and "account_apply a (decoded rt e) = Inr a'"
      and "account_at rt (log @ [e]) aid = Some b" and "account_balance b = account_balance a'"
proof -
  let ?es = "stream_events rt ACCOUNT_STREAM aid log" and ?d = "decoded rt e"
  have load: "opens_and_loads (?es @ [?d])"
    using assms by (metis projectable_def stream_snoc(2))
  have now: "account_at rt (log @ [e]) aid = Some (projr (load_from_history account_apply account_init (?es @ [?d])))"
    using assms(2) by (simp add: account_at_def stream_snoc)
  show thesis
  proof (cases "?es = []")
    case True
    with load obtain c b where "?d = AccountE (AccountOpened c)"
      and "load_from_history account_apply account_init [?d] = Inr b" by (auto simp: opens_and_loads_def)
    moreover from this have "account_balance b = new_balance c"
      by (auto simp: load_from_history_def result_iffs money_zero_def Money_def account_balance_def new_balance_def
          split: if_splits)
    ultimately show thesis
      using True now by (intro opened [of c b]) (auto simp: account_at_def stream_events_def)
  next
    case False
    with load obtain a a' where "load_from_history account_apply account_init ?es = Inr a"
      "account_apply a ?d = Inr a'"
      "load_from_history account_apply account_init (?es @ [?d]) = Inr (a'\<lparr>agg_version := agg_version a' + 1\<rparr>)"
      by (auto simp: opens_and_loads_def account.load_from_history_append result_iffs)
        (auto simp: load_from_history_def result_iffs)
    with False now show thesis
      by (intro changed [of a a' "a'\<lparr>agg_version := agg_version a' + 1\<rparr>"]) (auto simp: account_at_def stream_events_def)
  qed
qed

lemma balances_absorb:
  assumes proj: "projectable rt (log @ [e])" and codec: "codec_round_trip rt"
    and b: "\<forall>aid. map_of b aid = map_option account_balance (account_at rt log aid)"
  shows "\<exists>b'. balances_project rt ledger_registry e b = (Inr (), b') \<and>
    (\<forall>aid. map_of b' aid = map_option account_balance (account_at rt (log @ [e]) aid))"
proof (cases "se_stream_type e = ACCOUNT_STREAM")
  case False
  then show ?thesis
    using b by (simp add: balances_project_def account_at_other in_stream_def)
next
  case True
  let ?sid = "se_stream_id e"
  have here: "in_stream ACCOUNT_STREAM ?sid e" using True by (simp add: in_stream_def)
  have other: "aid \<noteq> ?sid \<Longrightarrow> account_at rt (log @ [e]) aid = account_at rt log aid" for aid
    by (rule account_at_other) (simp add: in_stream_def)
  obtain d where d: "stored_as rt d e" using proj by (auto simp: projectable_def log_decodes_def)
  have dec: "decode_stored rt ledger_registry e = Inr (decoded rt e)"
    using runtime_codec.decode_stored_as [OF runtime_codec.intro [OF codec] d]
      runtime_codec.decoded_stored_as [OF runtime_codec.intro [OF codec] d] by simp
  have "\<exists>b'. balances_match ?sid (decoded rt e) b = Inr b' \<and>
      (\<exists>a. account_at rt (log @ [e]) ?sid = Some a \<and> map_of b' = (map_of b)(?sid \<mapsto> account_balance a))"
    using proj here
  proof (cases rule: account_at_snoc)
    case (opened c a)
    then show ?thesis by simp
  next
    case (changed a a' a'')
    with balance_step [OF changed(3), of b ?sid] b show ?thesis by auto
  qed
  then show ?thesis
    using b other dec True by (auto simp: balances_project_def update_by_def)
qed

lemma amount_event_names:
  "class_name (class_of d) \<in> set AMOUNT_EVENTS \<longleftrightarrow> event_money d \<noteq> None"
  "class_name (class_of d) = ''AccountOpened'' \<longleftrightarrow> (\<exists>c. d = AccountE (AccountOpened c))"
  by (cases d rule: class_of.cases; simp add: AMOUNT_EVENTS_def)+

lemma statements_absorb:
  assumes proj: "projectable rt (log @ [e])" and codec: "codec_round_trip rt" "codec_amount_fields rt"
    and s: "\<forall>aid. map_of s aid = statement_at rt log aid"
  shows "\<exists>s'. statement_project e s = (Inr (), s') \<and> (\<forall>aid. map_of s' aid = statement_at rt (log @ [e]) aid)"
proof (cases "se_stream_type e = ACCOUNT_STREAM")
  case False
  then show ?thesis
    using s by (simp add: statement_project_def account_at_other in_stream_def)
next
  case True
  let ?sid = "se_stream_id e" and ?d = "decoded rt e"
  have here: "in_stream ACCOUNT_STREAM ?sid e" using True by (simp add: in_stream_def)
  have other: "aid \<noteq> ?sid \<Longrightarrow> statement_at rt (log @ [e]) aid = statement_at rt log aid" for aid
    by (rule account_at_other) (simp add: in_stream_def)
  obtain d where "stored_as rt d e" using proj by (auto simp: projectable_def log_decodes_def)
  with runtime_codec.decoded_stored_as [OF runtime_codec.intro [OF codec(1)] this]
  have d: "se_event_type e = class_name (class_of ?d)" "se_payload e = rt_model_dump rt ?d"
    by (auto simp: stored_as_def serialize_def)
  have "\<exists>s' ls. statement_project e s = (Inr (), s') \<and> map_of s' = (map_of s)(?sid \<mapsto> ls) \<and>
      statement_at rt (log @ [e]) ?sid = Some ls"
    using proj here
  proof (cases rule: account_at_snoc)
    case (opened c b)
    then have "statement_project e s = (Inr (), dict_set ?sid [] s)"
      using s True d(1) amount_event_names(2) [of ?d]
      by (simp add: statement_project_def update_by_def set_default_def statement_at_def)
    with opened here show ?thesis by (simp add: statement_at_def stream_snoc line_of_def List.map_filter_def)
  next
    case (changed a a' b)
    then obtain ls where ls: "map_of s ?sid = Some ls" "statement_at rt log ?sid = Some ls"
      using s by (auto simp: statement_at_def)
    have now: "statement_at rt (log @ [e]) ?sid =
        Some (ls @ (case line_of rt e of None \<Rightarrow> [] | Some l \<Rightarrow> [l]))"
      using ls(2) changed(2) here by (auto simp: statement_at_def stream_snoc List.map_filter_def split: option.splits)
    have keep: "map_of s = (map_of s)(?sid \<mapsto> ls)" using ls(1) by auto
    show ?thesis
    proof (cases "event_money ?d")
      case None
      then have "statement_project e s = (Inr (), s)"
        using True d(1) amount_event_names [of ?d] ls(1)
        by (auto simp: statement_project_def update_by_def set_default_def)
      with None now keep show ?thesis by (auto simp: line_of_def)
    next
      case (Some m)
      then obtain j where j: "obj_get (se_payload e) ''amount'' = Inr j" "json_get j ''amount'' = Inr (JInt (amount m))"
        "json_get j ''currency'' = Inr (JStr (currency m))"
        using codec(2) d(2) by (auto simp: codec_amount_fields_def)
      have "se_event_type e \<noteq> ''AccountOpened''" "se_event_type e \<in> set AMOUNT_EVENTS"
        using amount_event_names [of ?d] Some d(1) by auto
      then have "statement_project e s = (Inr (), dict_set ?sid (ls @ [\<lparr>sl_global_position = se_global_position e,
          sl_kind = se_event_type e, sl_amount = JInt (amount m), sl_currency = JStr (currency m),
          sl_occurred_at = se_occurred_at e\<rparr>]) s)"
        using True j ls(1) by (simp add: statement_project_def update_by_def set_default_def bindM_def)
      with Some now show ?thesis by (simp add: line_of_def)
    qed
  qed
  then show ?thesis using s other by auto
qed

lemma models_absorb:
  assumes "projectable rt (log @ [e])" and "codec_round_trip rt" and "codec_amount_fields rt" and "models_of rt x log"
  shows "\<exists>x'. feed_event (read_model_projectors rt ledger_registry) e x = (Inr (), x') \<and> models_of rt x' (log @ [e])"
proof -
  from balances_absorb [OF assms(1,2), of "rm_balances x"] assms(4) obtain b' where
    b: "balances_project rt ledger_registry e (rm_balances x) = (Inr (), b')"
    "\<forall>aid. map_of b' aid = map_option account_balance (account_at rt (log @ [e]) aid)" by (auto simp: models_of_def)
  from statements_absorb [OF assms(1-3), of "rm_statements x"] assms(4) obtain s' where
    s: "statement_project e (rm_statements x) = (Inr (), s')"
    "\<forall>aid. map_of s' aid = statement_at rt (log @ [e]) aid" by (auto simp: models_of_def)
  have "feed_event (read_model_projectors rt ledger_registry) e x = (Inr (), \<lparr>rm_balances = b', rm_statements = s'\<rparr>)"
    using b(1) s(1)
    by (cases x) (simp add: feed_event_def read_model_projectors_def bindM_def on_balances_def on_statements_def)
  with b(2) s(2) show ?thesis by (auto simp: models_of_def)
qed

section \<open>The read models follow the log\<close>

lemma read_models_tail:
  assumes "event_log rt store log invar rely" and "codec_round_trip rt" and "codec_amount_fields rt"
  shows "synced_tail rt store log invar rely memory_checkpoints (\<lambda>n ps. dict_get0 ps n)
    (read_model_projectors rt ledger_registry) 500 (models_of rt) (projectable rt)"
proof (intro synced_tail.intro cursor_tail.intro assms(1) memory_cp.checkpoint_contract_axioms
    cursor_tail_axioms.intro synced_tail_axioms.intro)
  show "\<And>evs rest. projectable rt (evs @ rest) \<Longrightarrow> projectable rt evs" by (rule projectable_prefix)
  show "\<And>evs e x. projectable rt (evs @ [e]) \<Longrightarrow> models_of rt x evs \<Longrightarrow>
      \<exists>x'. feed_event (read_model_projectors rt ledger_registry) e x = (Inr (), x') \<and> models_of rt x' (evs @ [e])"
    by (rule models_absorb [OF _ assms(2,3)])
qed (simp_all add: memory_checkpoints_def memory_checkpoint_save_def)

lemma memory_event_log: "event_log rt (memory_store rt ledger_registry) (\<lambda>s. s) memory_invar (=)"
  by (rule reliable_event_log.axioms(1) [OF memory.reliable_event_log_axioms])

lemma memory_read_models_tail:
  assumes "codec_round_trip rt" and "codec_amount_fields rt"
  shows "reliable_tail rt (memory_store rt ledger_registry) (\<lambda>s. s) memory_invar memory_checkpoints
    (\<lambda>n ps. dict_get0 ps n) (read_model_projectors rt ledger_registry) 500 (models_of rt) (projectable rt)"
  by (intro reliable_tail.intro read_models_tail assms memory_event_log memory.reliable_event_log_axioms
      reliable_tail_axioms.intro) (simp add: memory_checkpoints_def memory_checkpoint_load_def)

interpretation plain_read_models: reliable_tail plain_runtime "memory_store plain_runtime ledger_registry" "\<lambda>s. s"
  memory_invar memory_checkpoints "\<lambda>n ps. dict_get0 ps n" RUNNER_NAME
  "read_model_projectors plain_runtime ledger_registry" 500 "models_of plain_runtime" "projectable plain_runtime"
  by (rule memory_read_models_tail) simp_all

text \<open>
  The life of the container: created on a store, queried, and in between the store changes under it.
\<close>

inductive read_models_reachable ::
  "runtime \<Rightarrow> 's event_store \<Rightarrow> ('s \<Rightarrow> event_list) \<Rightarrow> ('s \<Rightarrow> bool) \<Rightarrow> (event_list \<Rightarrow> event_list \<Rightarrow> bool) \<Rightarrow>
   ('s, positions, read_models) tail_world \<Rightarrow> bool"
  for rt store log invar rely where
  created: "invar s \<Longrightarrow> read_models_reachable rt store log invar rely (read_models_init s)"
| queried: "read_models_reachable rt store log invar rely w \<Longrightarrow>
    catch_up (read_models_runner rt store ledger_registry) w = Some (r, w') \<Longrightarrow> ledger_ok rt (log (tw_store w')) \<Longrightarrow>
    read_models_reachable rt store log invar rely w'"
| written: "read_models_reachable rt store log invar rely w \<Longrightarrow> invar s \<Longrightarrow> rely (log (tw_store w)) (log s) \<Longrightarrow>
    read_models_reachable rt store log invar rely (w\<lparr>tw_store := s\<rparr>)"

lemma catch_up_drain:
  "catch_up R w = Some (r, w') \<longleftrightarrow> (\<exists>q. runner_drain R 0 w = Some (q, w') \<and> r = map_sum id (\<lambda>_. ()) q)"
  by (auto simp: catch_up_def)

abbreviation models_synced ::
  "('s \<Rightarrow> event_list) \<Rightarrow> ('s \<Rightarrow> bool) \<Rightarrow> runtime \<Rightarrow> ('s, positions, read_models) tail_world \<Rightarrow> bool" where
  "models_synced log invar rt \<equiv>
     synced_tail.synced log invar (\<lambda>n ps. dict_get0 ps n) RUNNER_NAME (models_of rt)"

lemma query_drained:
  assumes "event_log rt store log invar rely" and "codec_round_trip rt" and "codec_amount_fields rt"
    and "catch_up (read_models_runner rt store ledger_registry) w = Some (r, w')"
    and "models_synced log invar rt w" and "ledger_ok rt (log (tw_store w'))"
  shows "models_synced log invar rt w'" and "r = Inr () \<Longrightarrow> models_of rt (tw_sink w') (log (tw_store w'))"
proof -
  note tail = read_models_tail [OF assms(1-3)]
  note cur = synced_tail.axioms(1) [OF tail]
  have R: "read_models_runner rt store ledger_registry =
      cursor_tail.runner store memory_checkpoints RUNNER_NAME (read_model_projectors rt ledger_registry) 500"
    by (simp add: read_models_runner_def cursor_tail.runner_def [OF cur])
  from assms(4) obtain q where q: "runner_drain (read_models_runner rt store ledger_registry) 0 w = Some (q, w')"
    "r = map_sum id (\<lambda>_. ()) q" by (auto simp: catch_up_drain)
  from synced_tail.drain_drained [OF tail q(1) [unfolded R]] assms(5) ledger_ok_projectable [OF assms(6)]
  show "models_synced log invar rt w'" and "r = Inr () \<Longrightarrow> models_of rt (tw_sink w') (log (tw_store w'))"
    using q(2) by (cases q; simp add: synced_tail.drained_def [OF tail] cursor_tail.tail_log_def [OF cur])+
qed

lemma reachable_synced:
  assumes "event_log rt store log invar rely" and "codec_round_trip rt" and "codec_amount_fields rt"
  shows "read_models_reachable rt store log invar rely w \<Longrightarrow> models_synced log invar rt w"
proof (induction rule: read_models_reachable.induct)
  case (created s)
  note tail = read_models_tail [OF assms]
  note cur = synced_tail.axioms(1) [OF tail]
  have "passed 0 (log s) = []"
    using event_log.invar_wf [OF assms(1) created] by (auto simp: passed_def log_wf_def filter_empty_conv not_le)
  then show ?case
    unfolding synced_tail.synced_def [OF tail] cursor_tail.cursor_def [OF cur] cursor_tail.tail_log_def [OF cur]
    using created by (simp add: read_models_init_def cursor_ok_def dict_get0_def models_of_def account_at_def
        statement_at_def stream_of_def)
next
  case (queried w r w')
  with query_drained(1) [OF assms] show ?case by blast
next
  case (written w s)
  note tail = read_models_tail [OF assms]
  note cur = synced_tail.axioms(1) [OF tail]
  from synced_tail.synced_stable [OF tail written.IH, of s] written.hyps show ?case
    by (simp add: cursor_tail.tail_log_def [OF cur])
qed

section \<open>Properties\<close>

definition account_view :: "uuid \<Rightarrow> account \<Rightarrow> account_balance_view" where
  "account_view aid a = \<lparr>abv_account_id = aid, abv_currency = acc_currency a, abv_available = amount (acc_available a),
     abv_reserved = amount (acc_reserved a), abv_status = acc_status a\<rparr>"

lemma returned_query:
  "map_option (\<lambda>(r, w'). (map_sum id (\<lambda>_. f w') r, w')) (catch_up R w) = Some (Inr v, w') \<Longrightarrow>
     catch_up R w = Some (Inr (), w') \<and> v = f w'"
proof (cases "catch_up R w")
  case (Some y)
  then show "map_option (\<lambda>(r, w'). (map_sum id (\<lambda>_. f w') r, w')) (catch_up R w) = Some (Inr v, w') \<Longrightarrow> ?thesis"
    by (cases "fst y"; cases y) auto
qed simp

lemma balance_of_models:
  "models_of rt x log \<Longrightarrow> balance_of aid (rm_balances x) = map_option (account_view aid) (account_at rt log aid)"
  by (simp add: models_of_def balance_of_def account_view_def account_balance_def split: option.splits)

text \<open>
  C16. Read your writes: whatever the history of the read models, whoever writes to the store in
  between and whichever earlier queries failed, a balance query that returns answers with the
  currency, buckets and status of the account that loading its stream gives, on the log as it is
  when the query returns; and with nothing exactly if there is no such account.
\<close>

theorem balance_query_reads_the_aggregate:
  assumes "event_log rt store log invar rely" and "codec_round_trip rt" and "codec_amount_fields rt"
    and "read_models_reachable rt store log invar rely w"
    and "read_models_balance_of (read_models_runner rt store ledger_registry) aid w = Some (Inr v, w')"
    and "ledger_ok rt (log (tw_store w'))"
  shows "v = map_option (account_view aid) (account_at rt (log (tw_store w')) aid)"
proof -
  have q: "catch_up (read_models_runner rt store ledger_registry) w = Some (Inr (), w')"
    "v = balance_of aid (rm_balances (tw_sink w'))"
    using returned_query [OF assms(5) [unfolded read_models_balance_of_def]] by simp_all
  with query_drained(2) [OF assms(1-3) q(1) reachable_synced [OF assms(1-4)] assms(6)] balance_of_models
  show ?thesis by blast
qed

text \<open>On the in-memory store every query returns.\<close>

lemma memory_synced_catch_up:
  assumes "codec_round_trip rt" and "codec_amount_fields rt" and "models_synced (\<lambda>s. s) memory_invar rt w"
    and "ledger_ok rt (tw_store w)"
  shows "\<exists>w'. catch_up (read_models_runner rt (memory_store rt ledger_registry) ledger_registry) w = Some (Inr (), w') \<and>
    tw_store w' = tw_store w \<and> models_synced (\<lambda>s. s) memory_invar rt w' \<and> models_of rt (tw_sink w') (tw_store w)"
proof -
  let ?store = "memory_store rt ledger_registry"
  note ev = memory_event_log [of rt]
  note tail = memory_read_models_tail [OF assms(1,2)]
  note cur = synced_tail.axioms(1) [OF read_models_tail [OF ev assms(1,2)]]
  have R: "read_models_runner rt ?store ledger_registry =
      cursor_tail.runner ?store memory_checkpoints RUNNER_NAME (read_model_projectors rt ledger_registry) 500"
    by (simp add: read_models_runner_def cursor_tail.runner_def [OF cur])
  have "projectable rt (cursor_tail.tail_log (\<lambda>s. s) w)"
    using ledger_ok_projectable [OF assms(4)] by (simp add: cursor_tail.tail_log_def [OF cur])
  from reliable_tail.drain_returns [OF tail assms(3) this, of 0] obtain w' where
    w': "catch_up (read_models_runner rt ?store ledger_registry) w = Some (Inr (), w')" "tw_store w' = tw_store w"
    by (auto simp: catch_up_drain R cursor_tail.tail_log_def [OF cur])
  with query_drained [OF ev assms(1,2) w'(1) assms(3)] assms(4) show ?thesis by simp
qed

text \<open>The sample ledger, queried.\<close>

abbreviation sample_runner :: "(event_list, positions, read_models) projection_runner" where
  "sample_runner \<equiv> read_models_runner plain_runtime (memory_store plain_runtime ledger_registry) ledger_registry"

lemma sample_query:
  obtains log a w' where "ledger_ok plain_runtime log" and "account_at plain_runtime log 1 = Some a"
    and "acc_status a = OPEN" and "acc_currency a = ''USD''" and "amount (acc_available a) = 100" and "amount (acc_reserved a) = 0"
    and "read_models_reachable plain_runtime (memory_store plain_runtime ledger_registry) (\<lambda>s. s) memory_invar log_grows
      (read_models_init log)"
    and "catch_up sample_runner (read_models_init log) = Some (Inr (), w')" and "tw_store w' = log"
proof -
  obtain log a b where log: "memory_invar log" "ledger_ok plain_runtime log"
    and at: "account_at plain_runtime log = [1 \<mapsto> a, 2 \<mapsto> b]"
    and a: "acc_status a = OPEN" "acc_currency a = ''USD''" "amount (acc_available a) = 100" "amount (acc_reserved a) = 0"
    by (rule sample_ledger)
  have reach: "read_models_reachable plain_runtime (memory_store plain_runtime ledger_registry) (\<lambda>s. s) memory_invar log_grows
      (read_models_init log)" using log(1) by (rule read_models_reachable.created)
  from memory_synced_catch_up [OF _ _ reachable_synced [OF memory_shared.event_log_axioms _ _ reach]] log(2) obtain w' where
    "catch_up sample_runner (read_models_init log) = Some (Inr (), w')" "tw_store w' = log"
    by (auto simp: read_models_init_def)
  with log(2) at a reach show thesis by (intro that [of log a w']) simp_all
qed

theorem balance_query_reads_the_aggregate_witness:
  "\<exists>log w'. read_models_balance_of sample_runner 1 (read_models_init log) = Some (Inr (Some
     \<lparr>abv_account_id = 1, abv_currency = ''USD'', abv_available = 100, abv_reserved = 0, abv_status = OPEN\<rparr>), w')"
proof (rule sample_query)
  fix log a w'
  assume log: "ledger_ok plain_runtime log" "account_at plain_runtime log 1 = Some a" "acc_status a = OPEN"
      "acc_currency a = ''USD''" "amount (acc_available a) = 100" "amount (acc_reserved a) = 0"
    and reach: "read_models_reachable plain_runtime (memory_store plain_runtime ledger_registry) (\<lambda>s. s) memory_invar log_grows
      (read_models_init log)"
    and w': "catch_up sample_runner (read_models_init log) = Some (Inr (), w')" "tw_store w' = log"
  then obtain v where v: "read_models_balance_of sample_runner 1 (read_models_init log) = Some (Inr v, w')"
    by (auto simp: read_models_balance_of_def)
  from balance_query_reads_the_aggregate [OF memory_shared.event_log_axioms _ _ reach v] log w'(2) v show ?thesis
    by (auto simp: account_view_def)
qed

text \<open>
  C25. Queries terminate: on the in-memory store, from every state of the read models that queries and
  other clients' writes lead to, the catch-up loop ends without an error after finitely many batches, and the balance query returns the
  account's balance as the aggregate has it.
\<close>

theorem balance_query_terminates:
  assumes "codec_round_trip rt" and "codec_amount_fields rt"
    and "read_models_reachable rt (memory_store rt ledger_registry) (\<lambda>s. s) memory_invar log_grows w"
    and "ledger_ok rt (tw_store w)"
  shows "\<exists>w'. read_models_balance_of (read_models_runner rt (memory_store rt ledger_registry) ledger_registry) aid w =
      Some (Inr (map_option (account_view aid) (account_at rt (tw_store w) aid)), w') \<and> tw_store w' = tw_store w"
proof -
  let ?R = "read_models_runner rt (memory_store rt ledger_registry) ledger_registry"
  from memory_synced_catch_up [OF assms(1,2) reachable_synced [OF memory_shared.event_log_axioms assms(1-3)] assms(4)]
  obtain w' where "catch_up ?R w = Some (Inr (), w')" "tw_store w' = tw_store w" "models_of rt (tw_sink w') (tw_store w)"
    by blast
  then show ?thesis by (auto simp: read_models_balance_of_def balance_of_models)
qed

theorem balance_query_terminates_witness:
  "\<exists>log view w'. read_models_balance_of (read_models_runner plain_runtime (memory_store plain_runtime ledger_registry) ledger_registry)
     1 (read_models_init log) = Some (Inr (Some view), w') \<and> abv_available view = 100"
proof -
  obtain log a b where log: "memory_invar log" "ledger_ok plain_runtime log" "account_at plain_runtime log = [1 \<mapsto> a, 2 \<mapsto> b]"
    "amount (acc_available a) = 100" by (rule sample_ledger)
  have "read_models_reachable plain_runtime (memory_store plain_runtime ledger_registry) (\<lambda>s. s) memory_invar log_grows (read_models_init log)"
    using log(1) by (rule read_models_reachable.created)
  from balance_query_terminates [OF _ _ this, of 1] log obtain w' where
    "read_models_balance_of (read_models_runner plain_runtime (memory_store plain_runtime ledger_registry) ledger_registry) 1
      (read_models_init log) = Some (Inr (Some (account_view 1 a)), w')"
    by (auto simp: read_models_init_def)
  then show ?thesis using log(4) by (intro exI [of _ log] exI [of _ "account_view 1 a"] exI [of _ w']) (simp add: account_view_def)
qed

section \<open>Statements and balances agree\<close>

definition line_total :: "statement_line \<Rightarrow> int" where
  "line_total l =
     (case sl_amount l of
        JInt n \<Rightarrow> if sl_kind l \<in> {''FundsDeposited'', ''AccountCredited''} then n
          else if sl_kind l = ''AccountDebited'' then - n else 0
      | _ \<Rightarrow> 0)"

definition line_reserved :: "statement_line \<Rightarrow> int" where
  "line_reserved l =
     (case sl_amount l of
        JInt n \<Rightarrow> if sl_kind l = ''FundsHeld'' then n
          else if sl_kind l \<in> {''HoldReleased'', ''AccountDebited''} then - n else 0
      | _ \<Rightarrow> 0)"

lemma line_deltas:
  assumes "se_event_type e = class_name (class_of (decoded rt e))"
  shows "(case line_of rt e of None \<Rightarrow> 0 | Some l \<Rightarrow> line_total l) = total_delta (decoded rt e)"
    and "(case line_of rt e of None \<Rightarrow> 0 | Some l \<Rightarrow> line_reserved l) = reserved_delta (decoded rt e)"
  using assms
  by (cases "decoded rt e" rule: class_of.cases; simp add: line_of_def line_total_def line_reserved_def)+

lemma sum_map_filter:
  "sum_list (map f (List.map_filter g xs)) = sum_list (map (\<lambda>x. case g x of None \<Rightarrow> 0 | Some y \<Rightarrow> f y) xs)"
  by (induction xs) (simp_all add: List.map_filter_def split: option.splits)

lemma statement_sums:
  assumes ok: "ledger_ok rt log" and codec: "codec_round_trip rt" and a: "account_at rt log aid = Some a"
  defines "lines \<equiv> List.map_filter (line_of rt) (stream_of ACCOUNT_STREAM aid log)"
  shows "sum_list (map line_total lines) = account_total a"
    and "sum_list (map line_reserved lines) = amount (acc_reserved a)"
proof -
  have ty: "se_event_type e = class_name (class_of (decoded rt e))" if "e \<in> set (stream_of ACCOUNT_STREAM aid log)" for e
  proof -
    from that ok obtain d where d: "stored_as rt d e"
      by (auto simp: ledger_ok_def log_decodes_def stream_of_def)
    with runtime_codec.decoded_stored_as [OF runtime_codec.intro [OF codec] d] show ?thesis
      by (simp add: stored_as_def)
  qed
  have "sum_list (map line_total lines) = sum_list (map total_delta (stream_events rt ACCOUNT_STREAM aid log))"
    "sum_list (map line_reserved lines) = sum_list (map reserved_delta (stream_events rt ACCOUNT_STREAM aid log))"
    unfolding lines_def sum_map_filter stream_events_def map_map
    by (intro arg_cong [where f = sum_list] map_cong; simp add: line_deltas ty)+
  with account_lived_balance [OF account_at_ok(2) [OF ok a]]
  show "sum_list (map line_total lines) = account_total a"
    "sum_list (map line_reserved lines) = amount (acc_reserved a)" by simp_all
qed

text \<open>
  C24. The statement is the ledger of the account: a statement query that returns lists exactly the
  account's deposits, holds, releases, debits and credits in log order, with their positions,
  amounts, currencies and times, as of the log when it returns. The signed sums of its lines are
  the account's total and its reserved balance.
\<close>

theorem statement_query_reconciles:
  assumes "event_log rt store log invar rely" and "codec_round_trip rt" and "codec_amount_fields rt"
    and "read_models_reachable rt store log invar rely w"
    and "read_models_statement_of (read_models_runner rt store ledger_registry) aid w = Some (Inr lines, w')"
    and "ledger_ok rt (log (tw_store w'))"
  shows "lines = List.map_filter (line_of rt) (stream_of ACCOUNT_STREAM aid (log (tw_store w'))) \<and>
    (case account_at rt (log (tw_store w')) aid of
       None \<Rightarrow> lines = []
     | Some a \<Rightarrow> sum_list (map line_total lines) = account_total a \<and>
         sum_list (map line_reserved lines) = amount (acc_reserved a))"
proof -
  let ?log = "log (tw_store w')"
  have q: "catch_up (read_models_runner rt store ledger_registry) w = Some (Inr (), w')"
    "lines = statement_of aid (rm_statements (tw_sink w'))"
    using returned_query [OF assms(5) [unfolded read_models_statement_of_def]] by simp_all
  from query_drained(2) [OF assms(1-3) q(1) reachable_synced [OF assms(1-4)] assms(6)]
  have "map_of (rm_statements (tw_sink w')) aid = statement_at rt ?log aid" by (simp add: models_of_def)
  then have lines: "lines = List.map_filter (line_of rt) (stream_of ACCOUNT_STREAM aid ?log)"
    by (auto simp: q(2) statement_of_def statement_at_def Let_def List.map_filter_def split: if_splits)
  have "account_at rt ?log aid = None \<Longrightarrow> lines = []"
    by (auto simp: lines account_at_def stream_events_def Let_def List.map_filter_def split: if_splits)
  with lines statement_sums [OF assms(6,2), of aid] show ?thesis by (auto split: option.splits)
qed

theorem statement_query_reconciles_witness:
  "\<exists>log lines w'. read_models_statement_of sample_runner 1 (read_models_init log) = Some (Inr lines, w') \<and>
     sum_list (map line_total lines) = 100"
proof (rule sample_query)
  fix log a w'
  assume log: "ledger_ok plain_runtime log" "account_at plain_runtime log 1 = Some a"
      "amount (acc_available a) = 100" "amount (acc_reserved a) = 0"
    and reach: "read_models_reachable plain_runtime (memory_store plain_runtime ledger_registry) (\<lambda>s. s) memory_invar log_grows
      (read_models_init log)"
    and w': "catch_up sample_runner (read_models_init log) = Some (Inr (), w')" "tw_store w' = log"
  then obtain ls where ls: "read_models_statement_of sample_runner 1 (read_models_init log) = Some (Inr ls, w')"
    by (auto simp: read_models_statement_of_def)
  from statement_query_reconciles [OF memory_shared.event_log_axioms _ _ reach ls] log w'(2)
  have "sum_list (map line_total ls) = 100" by (auto simp: account_total_def)
  with ls show ?thesis by blast
qed

end
