(* ===== verification/Idempotency.thy ===== *)
theory Idempotency
  imports Runtime
begin

text \<open>
  The idempotency store of the HTTP layer, \<^verbatim>\<open>src/src/ledger/api/idempotency.py\<close>: the protocol, the
  in-memory store, and the Postgres store with its table as a parameter (four SQL statements). The
  locale \<open>idempotency_table\<close> states what those statements do; under it the Postgres store is shown
  to implement the in-memory one step by step, and the properties hold of both.
\<close>

section \<open>The protocol\<close>

datatype claim_result = NEW | IN_PROGRESS | MISMATCH | REPLAY

record stored_response =
  sr_status_code :: int
  sr_body :: json

record 'i idempotency_store =
  is_claim :: "string \<Rightarrow> string \<Rightarrow> string \<Rightarrow> ('i, exn, claim_result \<times> stored_response option) action"
  is_complete :: "string \<Rightarrow> string \<Rightarrow> int \<Rightarrow> json \<Rightarrow> ('i, exn, unit) action"
  is_discard :: "string \<Rightarrow> string \<Rightarrow> ('i, exn, unit) action"

section \<open>The in-memory store\<close>

record idem_entry =
  ie_fingerprint :: string
  ie_response :: "stored_response option"

type_synonym idem_entries = "(string \<times> string) \<Rightarrow> idem_entry option"

definition memory_claim ::
  "string \<Rightarrow> string \<Rightarrow> string \<Rightarrow> (idem_entries, exn, claim_result \<times> stored_response option) action" where
  "memory_claim key route fp =
     (\<lambda>es. case es (key, route) of
        None \<Rightarrow> (Inr (NEW, None), es((key, route) \<mapsto> \<lparr>ie_fingerprint = fp, ie_response = None\<rparr>))
      | Some entry \<Rightarrow>
          if ie_fingerprint entry \<noteq> fp then (Inr (MISMATCH, None), es)
          else (case ie_response entry of
              None \<Rightarrow> (Inr (IN_PROGRESS, None), es)
            | Some r \<Rightarrow> (Inr (REPLAY, Some r), es)))"

definition memory_complete :: "string \<Rightarrow> string \<Rightarrow> int \<Rightarrow> json \<Rightarrow> (idem_entries, exn, unit) action" where
  "memory_complete key route status_code body =
     (\<lambda>es. case es (key, route) of
        None \<Rightarrow> (Inr (), es)
      | Some entry \<Rightarrow> (Inr (), es((key, route) \<mapsto>
          entry\<lparr>ie_response := Some \<lparr>sr_status_code = status_code, sr_body = body\<rparr>\<rparr>)))"

definition memory_discard :: "string \<Rightarrow> string \<Rightarrow> (idem_entries, exn, unit) action" where
  "memory_discard key route =
     (\<lambda>es. case es (key, route) of
        None \<Rightarrow> (Inr (), es)
      | Some entry \<Rightarrow> (Inr (), if ie_response entry = None then es((key, route) := None) else es))"

definition memory_idempotency :: "idem_entries idempotency_store" where
  "memory_idempotency = \<lparr>is_claim = memory_claim, is_complete = memory_complete, is_discard = memory_discard\<rparr>"

section \<open>The Postgres store\<close>

text \<open>
  A row of \<open>idempotency_keys\<close> without its key, and the statements: the insert with
  \<open>ON CONFLICT DO NOTHING RETURNING\<close>, the select, the update and the guarded delete. The body
  column is JSON, decoded by the driver or by \<open>json.loads\<close>.
\<close>

record idem_row =
  ir_fingerprint :: string
  ir_status_code :: "int option"
  ir_body :: json

record 'd idem_statements =
  st_insert :: "string \<Rightarrow> string \<Rightarrow> string \<Rightarrow> ('d, exn, string option) action"
  st_select :: "string \<Rightarrow> string \<Rightarrow> ('d, exn, idem_row option) action"
  st_update :: "string \<Rightarrow> string \<Rightarrow> int \<Rightarrow> json \<Rightarrow> ('d, exn, unit) action"
  st_delete :: "string \<Rightarrow> string \<Rightarrow> ('d, exn, unit) action"

definition pg_claim ::
  "'d idem_statements \<Rightarrow> string \<Rightarrow> string \<Rightarrow> string \<Rightarrow> ('d, exn, claim_result \<times> stored_response option) action" where
  "pg_claim db key route fp =
     bindM (st_insert db key route fp) (\<lambda>inserted.
       if inserted \<noteq> None then returnM (NEW, None)
       else bindM (st_select db key route) (\<lambda>row.
         case row of
           None \<Rightarrow> returnM (MISMATCH, None)
         | Some r \<Rightarrow>
             if ir_fingerprint r \<noteq> fp then returnM (MISMATCH, None)
             else (case ir_status_code r of
                 None \<Rightarrow> returnM (IN_PROGRESS, None)
               | Some code \<Rightarrow> returnM (REPLAY, Some \<lparr>sr_status_code = code, sr_body = ir_body r\<rparr>))))"

definition pg_complete :: "'d idem_statements \<Rightarrow> string \<Rightarrow> string \<Rightarrow> int \<Rightarrow> json \<Rightarrow> ('d, exn, unit) action" where
  "pg_complete db key route status_code body = st_update db key route status_code body"

definition pg_discard :: "'d idem_statements \<Rightarrow> string \<Rightarrow> string \<Rightarrow> ('d, exn, unit) action" where
  "pg_discard db key route = st_delete db key route"

definition pg_idempotency :: "'d idem_statements \<Rightarrow> 'd idempotency_store" where
  "pg_idempotency db = \<lparr>is_claim = pg_claim db, is_complete = pg_complete db, is_discard = pg_discard db\<rparr>"

text \<open>What the statements do to the table, one after the other on one connection.\<close>

type_synonym idem_table = "(string \<times> string) \<Rightarrow> idem_row option"

definition entries_of :: "idem_table \<Rightarrow> idem_entries" where
  "entries_of t kr = map_option (\<lambda>r. \<lparr>ie_fingerprint = ir_fingerprint r,
     ie_response = map_option (\<lambda>code. \<lparr>sr_status_code = code, sr_body = ir_body r\<rparr>) (ir_status_code r)\<rparr>) (t kr)"

locale idempotency_table =
  fixes db :: "'d idem_statements" and table :: "'d \<Rightarrow> idem_table"
  assumes insert_new: "table d (key, route) = None \<Longrightarrow> \<exists>d'. st_insert db key route fp d = (Inr (Some key), d') \<and>
      table d' = (table d)((key, route) \<mapsto> \<lparr>ir_fingerprint = fp, ir_status_code = None, ir_body = JNull\<rparr>)"
    and insert_conflict: "table d (key, route) \<noteq> None \<Longrightarrow>
      \<exists>d'. st_insert db key route fp d = (Inr None, d') \<and> table d' = table d"
    and select_row: "\<exists>d'. st_select db key route d = (Inr (table d (key, route)), d') \<and> table d' = table d"
    and update_row: "\<exists>d'. st_update db key route code body d = (Inr (), d') \<and>
      table d' = (case table d (key, route) of None \<Rightarrow> table d
        | Some r \<Rightarrow> (table d)((key, route) \<mapsto> r\<lparr>ir_status_code := Some code, ir_body := body\<rparr>))"
    and delete_row: "\<exists>d'. st_delete db key route d = (Inr (), d') \<and>
      table d' = (case table d (key, route) of None \<Rightarrow> table d
        | Some r \<Rightarrow> if ir_status_code r = None then (table d)((key, route) := None) else table d)"
begin

definition implements :: "('d, exn, 'a) action \<Rightarrow> (idem_entries, exn, 'a) action \<Rightarrow> bool" where
  "implements m m' \<longleftrightarrow> (\<forall>d. \<exists>r d'. m d = (r, d') \<and> m' (entries_of (table d)) = (r, entries_of (table d')))"

lemma claim_implements: "implements (pg_claim db key route fp) (memory_claim key route fp)"
  unfolding implements_def
proof
  fix d
  show "\<exists>r d'. pg_claim db key route fp d = (r, d') \<and> memory_claim key route fp (entries_of (table d)) = (r, entries_of (table d'))"
  proof (cases "table d (key, route)")
    case None
    then obtain d' where "st_insert db key route fp d = (Inr (Some key), d')"
      "table d' = (table d)((key, route) \<mapsto> \<lparr>ir_fingerprint = fp, ir_status_code = None, ir_body = JNull\<rparr>)"
      using insert_new by blast
    with None show ?thesis
      by (auto simp: pg_claim_def bindM_Inr memory_claim_def entries_of_def fun_eq_iff)
  next
    case (Some r)
    then obtain d1 where d1: "st_insert db key route fp d = (Inr None, d1)" "table d1 = table d"
      using insert_conflict [of d key route fp] by auto
    obtain d2 where d2: "st_select db key route d1 = (Inr (Some r), d2)" "table d2 = table d"
      using select_row [of key route d1] d1(2) Some by auto
    have "entries_of (table d2) = entries_of (table d)" by (simp add: entries_of_def d2(2) fun_eq_iff)
    with Some d1 d2 show ?thesis
      by (simp add: pg_claim_def bindM_Inr memory_claim_def split: option.splits) (auto simp: entries_of_def)
  qed
qed

lemma complete_implements: "implements (pg_complete db key route code body) (memory_complete key route code body)"
  unfolding implements_def
proof
  fix d
  obtain d' where "st_update db key route code body d = (Inr (), d')"
    "table d' = (case table d (key, route) of None \<Rightarrow> table d
        | Some r \<Rightarrow> (table d)((key, route) \<mapsto> r\<lparr>ir_status_code := Some code, ir_body := body\<rparr>))"
    using update_row by blast
  then show "\<exists>r d'. pg_complete db key route code body d = (r, d') \<and>
      memory_complete key route code body (entries_of (table d)) = (r, entries_of (table d'))"
    by (auto simp: pg_complete_def memory_complete_def entries_of_def fun_eq_iff split: option.splits)
qed

lemma discard_implements: "implements (pg_discard db key route) (memory_discard key route)"
  unfolding implements_def
proof
  fix d
  obtain d' where "st_delete db key route d = (Inr (), d')"
    "table d' = (case table d (key, route) of None \<Rightarrow> table d
        | Some r \<Rightarrow> if ir_status_code r = None then (table d)((key, route) := None) else table d)"
    using delete_row by blast
  then show "\<exists>r d'. pg_discard db key route d = (r, d') \<and> memory_discard key route (entries_of (table d)) = (r, entries_of (table d'))"
    by (auto simp: pg_discard_def memory_discard_def entries_of_def fun_eq_iff split: option.splits)
qed

end

section \<open>Sequences of operations\<close>

datatype idem_op =
    Claim string string string
  | Complete string string int json
  | Discard string string

type_synonym idem_answer = "(claim_result \<times> stored_response option) option"

fun run_idem :: "'i idempotency_store \<Rightarrow> idem_op \<Rightarrow> ('i, exn, idem_answer) action" where
  "run_idem st (Claim key route fp) = bindM (is_claim st key route fp) (\<lambda>a. returnM (Some a))"
| "run_idem st (Complete key route code body) = bindM (is_complete st key route code body) (\<lambda>_. returnM None)"
| "run_idem st (Discard key route) = bindM (is_discard st key route) (\<lambda>_. returnM None)"

primrec run_idems :: "'i idempotency_store \<Rightarrow> idem_op list \<Rightarrow> ('i, exn, idem_answer list) action" where
  "run_idems st [] = returnM []"
| "run_idems st (op # ops) =
     bindM (run_idem st op) (\<lambda>a. bindM (run_idems st ops) (\<lambda>rest. returnM (a # rest)))"

context idempotency_table
begin

lemma implements_bindM:
  assumes "implements m m'" and "\<And>x. implements (f x) (f' x)"
  shows "implements (bindM m f) (bindM m' f')"
  unfolding implements_def
proof
  fix d
  obtain r d1 where m: "m d = (r, d1)" "m' (entries_of (table d)) = (r, entries_of (table d1))"
    using assms(1) unfolding implements_def by metis
  show "\<exists>r d'. bindM m f d = (r, d') \<and> bindM m' f' (entries_of (table d)) = (r, entries_of (table d'))"
  proof (cases r)
    case (Inr x)
    with m assms(2) [of x, unfolded implements_def] show ?thesis by (simp add: bindM_Inr)
  qed (use m in \<open>simp add: bindM_Inl\<close>)
qed

lemma implements_return: "implements (returnM x) (returnM x)"
  by (simp add: implements_def)

lemma run_idems_implements: "implements (run_idems (pg_idempotency db) ops) (run_idems memory_idempotency ops)"
proof (induction ops)
  case (Cons op ops)
  have "implements (run_idem (pg_idempotency db) op) (run_idem memory_idempotency op)"
    using claim_implements complete_implements discard_implements
    by (cases op) (auto simp: pg_idempotency_def memory_idempotency_def intro!: implements_bindM implements_return)
  with Cons.IH show ?case by (auto intro!: implements_bindM implements_return)
qed (simp only: run_idems.simps implements_return)

end

text \<open>A table held in memory.\<close>

definition plain_statements :: "idem_table idem_statements" where
  "plain_statements =
     \<lparr>st_insert = \<lambda>key route fp t. if t (key, route) = None
        then (Inr (Some key), t((key, route) \<mapsto> \<lparr>ir_fingerprint = fp, ir_status_code = None, ir_body = JNull\<rparr>))
        else (Inr None, t),
      st_select = \<lambda>key route t. (Inr (t (key, route)), t),
      st_update = \<lambda>key route code body t. (Inr (), case t (key, route) of None \<Rightarrow> t
        | Some r \<Rightarrow> t((key, route) \<mapsto> r\<lparr>ir_status_code := Some code, ir_body := body\<rparr>)),
      st_delete = \<lambda>key route t. (Inr (), case t (key, route) of None \<Rightarrow> t
        | Some r \<Rightarrow> if ir_status_code r = None then t((key, route) := None) else t)\<rparr>"

interpretation plain_table: idempotency_table plain_statements "\<lambda>t. t"
  by unfold_locales (auto simp: plain_statements_def split: option.splits)

section \<open>A claimed key\<close>

text \<open>The response the operations leave at a key, if any.\<close>

fun completion :: "string \<times> string \<Rightarrow> idem_op list \<Rightarrow> stored_response option \<Rightarrow> stored_response option" where
  "completion kr [] r = r"
| "completion kr (Complete key route code body # ops) r =
     completion kr ops (if kr = (key, route) then Some \<lparr>sr_status_code = code, sr_body = body\<rparr> else r)"
| "completion kr (_ # ops) r = completion kr ops r"

text \<open>No operation gives the key up while it is claimed and not completed.\<close>

fun never_given_up :: "string \<times> string \<Rightarrow> bool \<Rightarrow> idem_op list \<Rightarrow> bool" where
  "never_given_up kr done [] = True"
| "never_given_up kr done (Complete key route code body # ops) = never_given_up kr (done \<or> kr = (key, route)) ops"
| "never_given_up kr done (Discard key route # ops) = ((done \<or> kr \<noteq> (key, route)) \<and> never_given_up kr done ops)"
| "never_given_up kr done (Claim _ _ _ # ops) = never_given_up kr done ops"

lemma held_entry:
  assumes "es kr = Some \<lparr>ie_fingerprint = fp, ie_response = r\<rparr>" and "never_given_up kr (r \<noteq> None) ops"
  shows "\<exists>as es'. run_idems memory_idempotency ops es = (Inr as, es') \<and>
    es' kr = Some \<lparr>ie_fingerprint = fp, ie_response = completion kr ops r\<rparr>"
  using assms
proof (induction ops arbitrary: es r)
  case (Cons op ops)
  have "\<exists>a es1 r1. run_idem memory_idempotency op es = (Inr a, es1) \<and>
      es1 kr = Some \<lparr>ie_fingerprint = fp, ie_response = r1\<rparr> \<and> never_given_up kr (r1 \<noteq> None) ops \<and>
      completion kr (op # ops) r = completion kr ops r1"
  proof (cases op)
    case (Claim key route fp')
    then show ?thesis
      using Cons.prems by (auto simp: memory_idempotency_def memory_claim_def bindM_def split: option.splits)
  next
    case (Complete key route code body)
    then show ?thesis
      using Cons.prems by (cases "kr = (key, route)")
        (auto simp: memory_idempotency_def memory_complete_def bindM_def split: option.splits)
  next
    case (Discard key route)
    then show ?thesis
      using Cons.prems by (cases "kr = (key, route)")
        (auto simp: memory_idempotency_def memory_discard_def bindM_def split: option.splits)
  qed
  then obtain a es1 r1 where "run_idem memory_idempotency op es = (Inr a, es1)"
    and e: "es1 kr = Some \<lparr>ie_fingerprint = fp, ie_response = r1\<rparr>" "never_given_up kr (r1 \<noteq> None) ops"
    and "completion kr (op # ops) r = completion kr ops r1" by blast
  with Cons.IH [of es1 r1, OF e] show ?case by (auto simp: bindM_Inr)
qed simp

section \<open>Properties\<close>

text \<open>
  C23. The Postgres store is the in-memory store: if the four SQL statements behave as documented,
  every sequence of claims, completions and discards gives the same answers on both, and leaves
  corresponding entries.
\<close>

theorem pg_idempotency_refines_memory:
  assumes "idempotency_table db table"
  shows "\<exists>as d'. run_idems (pg_idempotency db) ops d = (as, d') \<and>
    run_idems memory_idempotency ops (entries_of (table d)) = (as, entries_of (table d'))"
  using idempotency_table.run_idems_implements [OF assms, of ops]
  unfolding idempotency_table.implements_def [OF assms] by blast

theorem pg_idempotency_refines_memory_witness:
  "\<exists>as d'. run_idems (pg_idempotency plain_statements) [Claim ''k'' ''r'' ''f'', Claim ''k'' ''r'' ''f''] Map.empty = (as, d') \<and>
     run_idems memory_idempotency [Claim ''k'' ''r'' ''f'', Claim ''k'' ''r'' ''f''] Map.empty = (as, entries_of d')"
proof -
  have "entries_of Map.empty = Map.empty" by (simp add: entries_of_def fun_eq_iff)
  with pg_idempotency_refines_memory [OF plain_table.idempotency_table_axioms,
      of "[Claim ''k'' ''r'' ''f'', Claim ''k'' ''r'' ''f'']" Map.empty]
  show ?thesis by simp
qed

text \<open>
  C22. One holder per key: after a claim was answered \<open>NEW\<close>, whatever operations follow, as long as
  the key is not discarded before it is completed, no claim of it is ever \<open>NEW\<close> again: a claim with
  another fingerprint is a \<open>MISMATCH\<close>, one with the same is \<open>IN_PROGRESS\<close> until the first completion
  and from then on, discards notwithstanding, replays the last completed response.
\<close>

theorem claimed_key_has_one_holder:
  assumes "memory_claim key route fp es = (Inr (NEW, None), es1)" and "never_given_up (key, route) False ops"
  shows "\<exists>as es2. run_idems memory_idempotency ops es1 = (Inr as, es2) \<and>
    memory_claim key route fp' es2 = (Inr (
      if fp' \<noteq> fp then (MISMATCH, None)
      else case completion (key, route) ops None of
          None \<Rightarrow> (IN_PROGRESS, None)
        | Some r \<Rightarrow> (REPLAY, Some r)), es2)"
proof -
  have "es1 (key, route) = Some \<lparr>ie_fingerprint = fp, ie_response = None\<rparr>"
    using assms(1) by (auto simp: memory_claim_def split: option.splits if_splits)
  from held_entry [of es1 "(key, route)" fp None ops, OF this] assms(2) obtain as es2 where
    run: "run_idems memory_idempotency ops es1 = (Inr as, es2)"
    and "es2 (key, route) = Some \<lparr>ie_fingerprint = fp, ie_response = completion (key, route) ops None\<rparr>" by auto
  then have "memory_claim key route fp' es2 = (Inr (if fp' \<noteq> fp then (MISMATCH, None)
      else case completion (key, route) ops None of None \<Rightarrow> (IN_PROGRESS, None) | Some r \<Rightarrow> (REPLAY, Some r)), es2)"
    by (simp add: memory_claim_def split: option.splits)
  with run show ?thesis by blast
qed

theorem claimed_key_has_one_holder_witness:
  "\<exists>as es1 es2. memory_claim ''k'' ''r'' ''f'' Map.empty = (Inr (NEW, None), es1) \<and>
     run_idems memory_idempotency [Complete ''k'' ''r'' 200 JNull, Discard ''k'' ''r''] es1 = (Inr as, es2) \<and>
     memory_claim ''k'' ''r'' ''f'' es2 = (Inr (REPLAY, Some \<lparr>sr_status_code = 200, sr_body = JNull\<rparr>), es2)"
proof -
  obtain es1 where "memory_claim ''k'' ''r'' ''f'' Map.empty = (Inr (NEW, None), es1)"
    by (auto simp: memory_claim_def)
  with claimed_key_has_one_holder [OF this, of "[Complete ''k'' ''r'' 200 JNull, Discard ''k'' ''r'']" "''f''"]
  show ?thesis by auto
qed

end
