(* ===== verification/Http.thy ===== *)
theory Http
  imports Activities Read_Models Idempotency
begin

text \<open>
  The HTTP layer around the routes: request and response models (\<^verbatim>\<open>src/src/ledger/api/schemas.py\<close>),
  problem details (\<^verbatim>\<open>problem_details.py\<close>), the API key check (\<^verbatim>\<open>auth.py\<close>), the gateway protocol
  (\<^verbatim>\<open>gateway.py\<close>) and the application context (\<^verbatim>\<open>context.py\<close>). FastAPI is a parameter: it validates
  requests before a handler sees them, and it turns an exception a handler is registered for into
  that handler's response. What routes share (claiming an idempotency key, doing the work under
  it) is defined here.
\<close>

section \<open>Problem details\<close>

definition STATUS_BY_CODE :: "(string \<times> int) list" where
  "STATUS_BY_CODE =
     [(''insufficient_funds'', 422), (''invalid_amount'', 422), (''currency_mismatch'', 422),
      (''unbalanced_entry'', 422), (''account_not_active'', 409), (''invalid_transition'', 409),
      (''account_not_empty'', 409), (''same_account_transfer'', 422), (''unknown_account'', 404),
      (''not_found'', 404), (''concurrency_conflict'', 409), (''duplicate_request_in_progress'', 409),
      (''idempotency_key_reused'', 422), (''domain_error'', 400)]"

record problem_detail =
  pd_type :: string
  pd_title :: string
  pd_status :: int
  pd_detail :: string
  pd_code :: string

text \<open>\<open>str.title\<close> on ASCII text: a letter after a non-letter is upper case, one after a letter lower case.\<close>

definition is_letter :: "char \<Rightarrow> bool" where
  "is_letter ch \<longleftrightarrow> (let c = of_char ch :: nat in 65 \<le> c \<and> c \<le> 90 \<or> 97 \<le> c \<and> c \<le> 122)"

definition upper_char :: "char \<Rightarrow> char" where
  "upper_char ch = (let c = of_char ch :: nat in if 97 \<le> c \<and> c \<le> 122 then char_of (c - 32) else ch)"

definition lower_char :: "char \<Rightarrow> char" where
  "lower_char ch = (let c = of_char ch :: nat in if 65 \<le> c \<and> c \<le> 90 then char_of (c + 32) else ch)"

fun title_from :: "bool \<Rightarrow> string \<Rightarrow> string" where
  "title_from in_word [] = []"
| "title_from in_word (ch # cs) =
     (if is_letter ch then (if in_word then lower_char ch else upper_char ch) # title_from True cs
      else ch # title_from False cs)"

definition problem :: "string \<Rightarrow> string \<Rightarrow> int \<times> problem_detail" where
  "problem code detail =
     (let status = (case map_of STATUS_BY_CODE code of Some n \<Rightarrow> n | None \<Rightarrow> 400)
      in (status, \<lparr>pd_type = ''https://errors.ledger.local/'' @ code,
           pd_title = title_from False (map (\<lambda>ch. if ch = CHR ''_'' then CHR '' '' else ch) code),
           pd_status = status, pd_detail = detail, pd_code = code\<rparr>))"

text \<open>What a route answers: its model with its status, a stored JSON response, or a problem.\<close>

datatype 'a http_reply =
    Reply int 'a
  | JSONResponse int json
  | Problem int problem_detail

definition problem_response :: "string \<Rightarrow> string \<Rightarrow> 'a http_reply" where
  "problem_response code detail = (case problem code detail of (status, p) \<Rightarrow> Problem status p)"

text \<open>The message of \<open>ConcurrencyConflict\<close>; the dash is U+2014 in UTF-8.\<close>

definition conflict_message :: "string \<Rightarrow> uuid \<Rightarrow> int \<Rightarrow> int \<Rightarrow> string" where
  "conflict_message st sid expected actual =
     ''concurrency conflict on '' @ st @ '':'' @ str_uuid sid @ '' '' @
     [char_of (226 :: nat), char_of (128 :: nat), char_of (148 :: nat)] @
     '' expected v'' @ str_int expected @ '', actual v'' @ str_int actual"

text \<open>The installed handlers; any other exception is left to the framework.\<close>

fun handle_exception :: "exn \<Rightarrow> 'a http_reply option" where
  "handle_exception (DomainError c msg) = Some (problem_response (error_code c) msg)"
| "handle_exception (ConcurrencyConflict st sid expected actual) =
     Some (problem_response ''concurrency_conflict'' (conflict_message st sid expected actual))"
| "handle_exception _ = None"

section \<open>Authentication\<close>

datatype auth_outcome = Admitted | Unauthorized | AuthTypeError

definition is_ascii :: "string \<Rightarrow> bool" where
  "is_ascii txt \<longleftrightarrow> list_all (\<lambda>ch. (of_char ch :: nat) < 128) txt"

text \<open>\<open>hmac.compare_digest\<close> on two \<open>str\<close>: equality, but a non-ASCII argument raises \<open>TypeError\<close>.\<close>

definition require_api_key :: "string \<Rightarrow> string option \<Rightarrow> auth_outcome" where
  "require_api_key expected x_api_key =
     (case x_api_key of
        None \<Rightarrow> Unauthorized
      | Some key \<Rightarrow>
          if \<not> is_ascii key \<or> \<not> is_ascii expected then AuthTypeError
          else if key = expected then Admitted else Unauthorized)"

section \<open>Requests and responses\<close>

record open_account_request =
  oa_currency :: string

record deposit_request =
  dr_amount :: int
  dr_currency :: string

record account_response =
  ar_account_id :: uuid
  ar_currency :: string
  ar_status :: account_status
  ar_available :: int
  ar_reserved :: int
  ar_total :: int

record statement_line_response =
  slr_global_position :: int
  slr_kind :: string
  slr_amount :: int
  slr_currency :: string
  slr_occurred_at :: int

record event_response =
  er_global_position :: int
  er_version :: int
  er_event_type :: string
  er_occurred_at :: int
  er_payload :: json_object

record global_event_response =
  ger_global_position :: int
  ger_stream_type :: string
  ger_stream_id :: uuid
  ger_event_type :: string
  ger_occurred_at :: int

record create_transfer_request =
  ct_source_account_id :: uuid
  ct_destination_account_id :: uuid
  ct_amount :: int
  ct_currency :: string

record transfer_accepted =
  ta_transfer_id :: uuid
  ta_status :: string

record transfer_response =
  tr_resp_transfer_id :: uuid
  tr_resp_status :: transfer_status
  tr_resp_source :: "uuid option"
  tr_resp_destination :: "uuid option"
  tr_resp_amount :: "int option"
  tr_resp_currency :: "string option"
  tr_resp_journal_entry_id :: "uuid option"
  tr_resp_failure_reason :: "failure_reason option"

text \<open>What pydantic checks of a request body before the handler runs.\<close>

definition deposit_request_ok :: "deposit_request \<Rightarrow> bool" where
  "deposit_request_ok b \<longleftrightarrow> 0 < dr_amount b \<and> currency_ok (dr_currency b)"

definition create_transfer_request_ok :: "create_transfer_request \<Rightarrow> bool" where
  "create_transfer_request_ok b \<longleftrightarrow> 0 < ct_amount b \<and> currency_ok (ct_currency b)"

text \<open>A statement line as a response: pydantic refuses an amount or currency of another type.\<close>

definition statement_line_response_of :: "statement_line \<Rightarrow> statement_line_response result" where
  "statement_line_response_of l =
     (case (sl_amount l, sl_currency l) of
        (JInt n, JStr c) \<Rightarrow> Inr \<lparr>slr_global_position = sl_global_position l, slr_kind = sl_kind l, slr_amount = n,
          slr_currency = c, slr_occurred_at = sl_occurred_at l\<rparr>
      | _ \<Rightarrow> Inl ValidationError)"

section \<open>The context\<close>

record 'g transfer_gateway =
  gw_start :: "transfer_input \<Rightarrow> ('g, exn, unit) action"
  gw_resolve :: "uuid \<Rightarrow> reconciliation_resolution \<Rightarrow> ('g, exn, unit) action"
  gw_check_health :: "('g, exn, bool) action"

text \<open>The Temporal client's calls: starting the workflow under an id on a task queue, signalling one, its health check.\<close>

record 'g temporal_client =
  tc_start_workflow :: "transfer_input \<Rightarrow> string \<Rightarrow> string \<Rightarrow> ('g, exn, unit) action"
  tc_signal :: "string \<Rightarrow> reconciliation_resolution \<Rightarrow> ('g, exn, unit) action"
  tc_check_health :: "('g, exn, bool) action"

definition workflow_id :: "uuid \<Rightarrow> string" where
  "workflow_id tid = ''transfer-'' @ str_uuid tid"

definition temporal_gateway :: "'g temporal_client \<Rightarrow> string \<Rightarrow> 'g transfer_gateway" where
  "temporal_gateway client task_queue =
     \<lparr>gw_start = \<lambda>d. tc_start_workflow client d (workflow_id (ti_transfer_id d)) task_queue,
      gw_resolve = \<lambda>tid decision. tc_signal client (workflow_id tid) decision,
      gw_check_health = tc_check_health client\<rparr>"

text \<open>
  What the routes take from outside: the SHA-256 digest of a canonical JSON text and pydantic's
  JSON dump of the two models that are stored for replay.
\<close>

record web =
  web_digest :: "json \<Rightarrow> string"
  web_dump_account :: "account_response \<Rightarrow> json"
  web_dump_accepted :: "transfer_accepted \<Rightarrow> json"

record ('s, 'i, 'g) app_context =
  ctx_store :: "'s event_store"
  ctx_repositories :: "'s repositories"
  ctx_gateway :: "'g transfer_gateway"
  ctx_idempotency :: "'i idempotency_store"
  ctx_read_models :: "('s, positions, read_models) projection_runner"

definition build_context ::
  "runtime \<Rightarrow> 's event_store \<Rightarrow> event_registry \<Rightarrow> 'g transfer_gateway \<Rightarrow> 'i idempotency_store \<Rightarrow>
   ('s, 'i, 'g) app_context" where
  "build_context rt store reg gateway idem =
     \<lparr>ctx_store = store, ctx_repositories = build_repositories rt store reg, ctx_gateway = gateway,
      ctx_idempotency = idem, ctx_read_models = read_models_runner rt store reg\<rparr>"

text \<open>The state behind a context; the store is the one the read models tail.\<close>

record ('s, 'i, 'g) api_world =
  aw_models :: "('s, positions, read_models) tail_world"
  aw_idempotency :: 'i
  aw_gateway :: 'g

abbreviation aw_store :: "('s, 'i, 'g) api_world \<Rightarrow> 's" where
  "aw_store w \<equiv> tw_store (aw_models w)"

definition at_store :: "('s, exn, 'a) action \<Rightarrow> (('s, 'i, 'g) api_world, exn, 'a) action" where
  "at_store m = (\<lambda>w. case m (aw_store w) of (r, s) \<Rightarrow> (r, w\<lparr>aw_models := (aw_models w)\<lparr>tw_store := s\<rparr>\<rparr>))"

definition at_idempotency :: "('i, exn, 'a) action \<Rightarrow> (('s, 'i, 'g) api_world, exn, 'a) action" where
  "at_idempotency m = (\<lambda>w. case m (aw_idempotency w) of (r, i) \<Rightarrow> (r, w\<lparr>aw_idempotency := i\<rparr>))"

definition at_gateway :: "('g, exn, 'a) action \<Rightarrow> (('s, 'i, 'g) api_world, exn, 'a) action" where
  "at_gateway m = (\<lambda>w. case m (aw_gateway w) of (r, g) \<Rightarrow> (r, w\<lparr>aw_gateway := g\<rparr>))"

section \<open>Idempotent routes\<close>

text \<open>
  The claim at the head of a route: \<open>None\<close> lets the request through. A replay without a stored
  response falls through to the last case as well.
\<close>

definition claim_reply :: "string \<Rightarrow> claim_result \<times> stored_response option \<Rightarrow> 'a http_reply option" where
  "claim_reply in_progress_detail answer =
     (case answer of
        (REPLAY, Some stored) \<Rightarrow> Some (JSONResponse (sr_status_code stored) (sr_body stored))
      | (IN_PROGRESS, _) \<Rightarrow> Some (problem_response ''duplicate_request_in_progress'' in_progress_detail)
      | (MISMATCH, _) \<Rightarrow> Some (problem_response ''idempotency_key_reused''
          ''idempotency key was reused with a different request'')
      | _ \<Rightarrow> None)"

definition claim_key ::
  "('s, 'i, 'g) app_context \<Rightarrow> string option \<Rightarrow> string \<Rightarrow> string \<Rightarrow> string \<Rightarrow>
   (('s, 'i, 'g) api_world, exn, 'a http_reply option) action" where
  "claim_key ctx key route fp in_progress_detail =
     (case key of
        None \<Rightarrow> returnM None
      | Some k \<Rightarrow> bindM (at_idempotency (is_claim (ctx_idempotency ctx) k route fp)) (\<lambda>answer.
          returnM (claim_reply in_progress_detail answer)))"

definition discard_key ::
  "('s, 'i, 'g) app_context \<Rightarrow> string option \<Rightarrow> string \<Rightarrow> (('s, 'i, 'g) api_world, exn, unit) action" where
  "discard_key ctx key route =
     (case key of None \<Rightarrow> returnM () | Some k \<Rightarrow> at_idempotency (is_discard (ctx_idempotency ctx) k route))"

text \<open>\<open>try: work except Exception: discard the key; raise\<close>.\<close>

definition discarding ::
  "('s, 'i, 'g) app_context \<Rightarrow> string option \<Rightarrow> string \<Rightarrow> (('s, 'i, 'g) api_world, exn, 'a) action \<Rightarrow>
   (('s, 'i, 'g) api_world, exn, 'a) action" where
  "discarding ctx key route work =
     catchM work (\<lambda>e. bindM (discard_key ctx key route) (\<lambda>_. raiseM e))"

definition complete_key ::
  "('s, 'i, 'g) app_context \<Rightarrow> string option \<Rightarrow> string \<Rightarrow> int \<Rightarrow> json \<Rightarrow> (('s, 'i, 'g) api_world, exn, unit) action" where
  "complete_key ctx key route status_code body =
     (case key of
        None \<Rightarrow> returnM ()
      | Some k \<Rightarrow> at_idempotency (is_complete (ctx_idempotency ctx) k route status_code body))"

section \<open>A concrete instance\<close>

text \<open>A Temporal service that keeps its workflows in a list, and a context on the in-memory stores.\<close>

definition plain_client :: "(string \<times> transfer_input) list temporal_client" where
  "plain_client =
     \<lparr>tc_start_workflow = \<lambda>d wid q g. if wid \<in> fst ` set g then (Inl (InfrastructureError ''already started''), g)
        else (Inr (), g @ [(wid, d)]),
      tc_signal = \<lambda>_ _. returnM (), tc_check_health = returnM True\<rparr>"

definition plain_web :: web where
  "plain_web = \<lparr>web_digest = (\<lambda>_. ''digest''), web_dump_account = (\<lambda>r. JObj [(''total'', JInt (ar_total r))]),
     web_dump_accepted = (\<lambda>r. JObj [(''transfer_id'', JStr (str_uuid (ta_transfer_id r)))])\<rparr>"

type_synonym plain_api = "(event_list, idem_entries, (string \<times> transfer_input) list) api_world"

definition plain_context :: "(event_list, idem_entries, (string \<times> transfer_input) list) app_context" where
  "plain_context = build_context plain_runtime (memory_store plain_runtime ledger_registry) ledger_registry
     (temporal_gateway plain_client ''ledger'') memory_idempotency"

definition plain_world :: "event_list \<Rightarrow> plain_api" where
  "plain_world log = \<lparr>aw_models = read_models_init log, aw_idempotency = Map.empty, aw_gateway = []\<rparr>"

lemma plain_context_sel [simp]:
  "ctx_repositories plain_context = memory_repositories plain_runtime" "ctx_idempotency plain_context = memory_idempotency"
  "ctx_store plain_context = memory_store plain_runtime ledger_registry" "ctx_gateway plain_context = temporal_gateway plain_client ''ledger''"
  "ctx_read_models plain_context = sample_runner"
  by (simp_all add: plain_context_def build_context_def)

lemma plain_world_sel [simp]:
  "aw_models (plain_world log) = read_models_init log" "tw_store (read_models_init s) = s"
  "aw_idempotency (plain_world log) = Map.empty" "aw_gateway (plain_world log) = []"
  by (simp_all add: plain_world_def read_models_init_def)

end
