(* ===== verification/Account_Routes.thy ===== *)
theory Account_Routes
  imports Http
begin

text \<open>
  The account endpoints, \<^verbatim>\<open>src/src/ledger/api/routers/accounts.py\<close>. A route is an action over the
  state behind the context; what it raises goes to the exception handlers of \<open>Http\<close>. The new
  identifier of \<open>open_account\<close> is an argument. The queries on the read models are partial like the
  catch-up they start with. Every route that writes is shown to move the ledger along legal steps,
  and a deposit under an idempotency key to be applied once.
\<close>

section \<open>Helpers\<close>

definition DEPOSIT_ROUTE :: string where
  "DEPOSIT_ROUTE = ''POST /api/accounts/{id}/deposit''"

definition deposit_fingerprint :: "web \<Rightarrow> uuid \<Rightarrow> deposit_request \<Rightarrow> string" where
  "deposit_fingerprint web aid body =
     web_digest web (JObj [(''account_id'', JStr (str_uuid aid)), (''amount'', JInt (dr_amount body)),
       (''currency'', JStr (dr_currency body))])"

definition account_response_of :: "uuid \<Rightarrow> account \<Rightarrow> account_response" where
  "account_response_of aid a =
     \<lparr>ar_account_id = aid, ar_currency = acc_currency a, ar_status = acc_status a,
      ar_available = amount (acc_available a), ar_reserved = amount (acc_reserved a),
      ar_total = amount (acc_available a) + amount (acc_reserved a)\<rparr>"

definition event_response_of :: "stored_event \<Rightarrow> event_response" where
  "event_response_of e =
     \<lparr>er_global_position = se_global_position e, er_version = se_version e, er_event_type = se_event_type e,
      er_occurred_at = se_occurred_at e, er_payload = se_payload e\<rparr>"

definition load_or_404 :: "'s repositories \<Rightarrow> uuid \<Rightarrow> ('s, exn, account) action" where
  "load_or_404 R aid =
     bindM (repo_load (accounts R) aid) (\<lambda>found.
       case found of
         None \<Rightarrow> raiseM (DomainError NotFound (''account '' @ str_uuid aid @ '' not found''))
       | Some a \<Rightarrow> returnM a)"

text \<open>Saving with the metadata of the request; the object that was saved has an empty buffer.\<close>

definition save_account :: "'s repositories \<Rightarrow> uuid \<Rightarrow> string option \<Rightarrow> account \<Rightarrow> ('s, exn, account) action" where
  "save_account R aid tp a =
     bindM (repo_save (accounts R) aid a
       (Some \<lparr>md_correlation_id = Some aid, md_causation_id = None, md_traceparent = tp\<rparr>)) (\<lambda>(_, a'). returnM a')"

text \<open>Load, run a command, save: the passage the three writing routes share.\<close>

definition change_account ::
  "'s repositories \<Rightarrow> uuid \<Rightarrow> string option \<Rightarrow> (account \<Rightarrow> account result) \<Rightarrow> ('s, exn, account) action" where
  "change_account R aid tp cmd =
     bindM (load_or_404 R aid) (\<lambda>a. bindM (liftE (cmd a)) (\<lambda>a'. save_account R aid tp a'))"

section \<open>The routes\<close>

definition open_account ::
  "('s, 'i, 'g) app_context \<Rightarrow> uuid \<Rightarrow> open_account_request \<Rightarrow> string option \<Rightarrow>
   (('s, 'i, 'g) api_world, exn, account_response http_reply) action" where
  "open_account ctx aid body tp =
     bindM (liftE (account_open aid (oa_currency body))) (\<lambda>a.
     bindM (at_store (save_account (ctx_repositories ctx) aid tp a)) (\<lambda>a'.
     returnM (Reply 201 (account_response_of aid a'))))"

definition deposit_work ::
  "'s repositories \<Rightarrow> uuid \<Rightarrow> deposit_request \<Rightarrow> string option \<Rightarrow> ('s, exn, account) action" where
  "deposit_work R aid body tp =
     change_account R aid tp (\<lambda>a. bindE (Money (dr_amount body) (dr_currency body)) (\<lambda>m. account_deposit m a))"

definition deposit ::
  "web \<Rightarrow> ('s, 'i, 'g) app_context \<Rightarrow> uuid \<Rightarrow> deposit_request \<Rightarrow> string option \<Rightarrow> string option \<Rightarrow>
   (('s, 'i, 'g) api_world, exn, account_response http_reply) action" where
  "deposit web ctx aid body key tp =
     bindM (claim_key ctx key DEPOSIT_ROUTE (deposit_fingerprint web aid body)
       ''a deposit with this idempotency key is already in progress'') (\<lambda>early.
     case early of
       Some reply \<Rightarrow> returnM reply
     | None \<Rightarrow>
         bindM (discarding ctx key DEPOSIT_ROUTE (at_store (deposit_work (ctx_repositories ctx) aid body tp))) (\<lambda>a.
         let response = account_response_of aid a
         in bindM (complete_key ctx key DEPOSIT_ROUTE 200 (web_dump_account web response)) (\<lambda>_.
            returnM (Reply 200 response))))"

definition get_account ::
  "('s, 'i, 'g) app_context \<Rightarrow> uuid \<Rightarrow> (('s, 'i, 'g) api_world, exn, account_response http_reply) action" where
  "get_account ctx aid =
     bindM (at_store (load_or_404 (ctx_repositories ctx) aid)) (\<lambda>a. returnM (Reply 200 (account_response_of aid a)))"

definition freeze_account ::
  "('s, 'i, 'g) app_context \<Rightarrow> uuid \<Rightarrow> string option \<Rightarrow>
   (('s, 'i, 'g) api_world, exn, account_response http_reply) action" where
  "freeze_account ctx aid tp =
     bindM (at_store (change_account (ctx_repositories ctx) aid tp account_freeze)) (\<lambda>a.
     returnM (Reply 200 (account_response_of aid a)))"

definition close_account ::
  "('s, 'i, 'g) app_context \<Rightarrow> uuid \<Rightarrow> string option \<Rightarrow>
   (('s, 'i, 'g) api_world, exn, account_response http_reply) action" where
  "close_account ctx aid tp =
     bindM (at_store (change_account (ctx_repositories ctx) aid tp account_close)) (\<lambda>a.
     returnM (Reply 200 (account_response_of aid a)))"

text \<open>The queries on the read models; \<open>None\<close> is a catch-up that never ends.\<close>

definition get_balance ::
  "('s, 'i, 'g) app_context \<Rightarrow> uuid \<Rightarrow> ('s, 'i, 'g) api_world \<Rightarrow>
   ((exn + account_response http_reply) \<times> ('s, 'i, 'g) api_world) option" where
  "get_balance ctx aid w =
     map_option (\<lambda>(r, models).
       (bindE r (\<lambda>found. case found of
          None \<Rightarrow> Inl (DomainError NotFound (''account '' @ str_uuid aid @ '' not found''))
        | Some view \<Rightarrow> Inr (Reply 200 \<lparr>ar_account_id = aid, ar_currency = abv_currency view, ar_status = abv_status view,
            ar_available = abv_available view, ar_reserved = abv_reserved view, ar_total = abv_total view\<rparr>)),
        w\<lparr>aw_models := models\<rparr>))
       (read_models_balance_of (ctx_read_models ctx) aid (aw_models w))"

definition get_statement ::
  "('s, 'i, 'g) app_context \<Rightarrow> uuid \<Rightarrow> int \<Rightarrow> int \<Rightarrow> ('s, 'i, 'g) api_world \<Rightarrow>
   ((exn + statement_line_response list http_reply) \<times> ('s, 'i, 'g) api_world) option" where
  "get_statement ctx aid limit offset w =
     (case at_store (load_or_404 (ctx_repositories ctx) aid) w of
        (Inl e, w1) \<Rightarrow> Some (Inl e, w1)
      | (Inr _, w1) \<Rightarrow>
          map_option (\<lambda>(r, models).
            (bindE r (\<lambda>lines. bindE (mapE statement_line_response_of (py_slice offset (offset + limit) lines)) (\<lambda>page.
               Inr (Reply 200 page))),
             w1\<lparr>aw_models := models\<rparr>))
            (read_models_statement_of (ctx_read_models ctx) aid (aw_models w1)))"

definition get_events ::
  "('s, 'i, 'g) app_context \<Rightarrow> uuid \<Rightarrow> int \<Rightarrow> int \<Rightarrow>
   (('s, 'i, 'g) api_world, exn, event_response list http_reply) action" where
  "get_events ctx aid limit offset =
     bindM (at_store (load_or_404 (ctx_repositories ctx) aid)) (\<lambda>_.
     bindM (at_store (es_load_stream (ctx_store ctx) ACCOUNT_STREAM aid)) (\<lambda>events.
     returnM (Reply 200 (map event_response_of (py_slice offset (offset + limit) events)))))"

section \<open>Routes move the ledger along legal steps\<close>

text \<open>
  Lifting a relation on the store to the state behind the context: the read models' checkpoints and
  contents are left alone.
\<close>

definition on_stores :: "('s \<Rightarrow> 's \<Rightarrow> bool) \<Rightarrow> ('s, 'i, 'g) api_world \<Rightarrow> ('s, 'i, 'g) api_world \<Rightarrow> bool" where
  "on_stores P w w' \<longleftrightarrow>
     P (aw_store w) (aw_store w') \<and> tw_checkpoints (aw_models w') = tw_checkpoints (aw_models w) \<and>
     tw_sink (aw_models w') = tw_sink (aw_models w)"

lemma on_stores_preorder: "reflp P \<Longrightarrow> reflp (on_stores P)" "transp P \<Longrightarrow> transp (on_stores P)"
  by (simp add: reflp_def on_stores_def) (auto intro!: transpI simp: on_stores_def dest: transpD)

lemma keeps_at [intro]:
  "keeps P m \<Longrightarrow> keeps (on_stores P) (at_store m)"
  "reflp P \<Longrightarrow> keeps (on_stores P) (at_idempotency n)"
  "reflp P \<Longrightarrow> keeps (on_stores P) (at_gateway k)"
  by (auto simp: keeps_def on_stores_def at_store_def at_idempotency_def at_gateway_def reflp_def split: prod.splits)
    (metis snd_conv)

context ledger_log
begin

lemmas on_stores_evolves = on_stores_preorder(1) [OF evolves_refl] on_stores_preorder(2) [OF evolves_trans]

lemmas keeps_world [intro] =
  keeps_pure [OF on_stores_evolves(1)] keeps_bindM [OF on_stores_evolves(2)] keeps_catchM [OF on_stores_evolves(2)]

lemma keeps_idempotency [intro]:
  "keeps (on_stores evolves) (claim_key ctx key route fp msg)"
  "keeps (on_stores evolves) m \<Longrightarrow> keeps (on_stores evolves) (discarding ctx key route m)"
  "keeps (on_stores evolves) (complete_key ctx key route code body)"
  unfolding claim_key_def discarding_def discard_key_def complete_key_def
  by (cases key; simp only: option.case; intro keeps_world keeps_at(2) evolves_refl, assumption?)+

lemma keeps_load_or_404 [intro]: "keeps evolves (load_or_404 repos aid)"
  unfolding load_or_404_def repositories by (intro keeps_evolves acc.keeps_load) (auto split: option.splits)

lemma keeps_change_account:
  assumes "\<And>a a'. cmd a = Inr a' \<Longrightarrow> \<exists>c. run_account_command c a = Inr a'"
  shows "keeps evolves (change_account repos aid tp cmd)"
proof -
  let ?miss = "raiseM (DomainError NotFound (''account '' @ str_uuid aid @ '' not found''))"
  let ?md = "Some \<lparr>md_correlation_id = Some aid, md_causation_id = None, md_traceparent = tp\<rparr>"
  have "change_account repos aid tp cmd = bindM (repo_load acc.repo aid) (\<lambda>found. case found of None \<Rightarrow> ?miss
      | Some a \<Rightarrow> if True then bindM (liftE (cmd a)) (\<lambda>a'. bindM (repo_save acc.repo aid a' ?md) (\<lambda>(_, a'). returnM a'))
         else ?miss)"
    unfolding change_account_def load_or_404_def save_account_def repositories
    by (rule ext) (simp add: bindM_def split: prod.splits sum.splits option.splits)
  moreover have "keeps evolves \<dots>"
    by (rule acc.keeps_update [OF account_legal_change [of cmd, OF assms]]) (auto simp: case_prod_unfold)
  ultimately show ?thesis by (simp only:)
qed

lemma keeps_deposit_work [intro]: "keeps evolves (deposit_work repos aid body tp)"
  unfolding deposit_work_def
proof (rule keeps_change_account)
  fix a a'
  assume "bindE (Money (dr_amount body) (dr_currency body)) (\<lambda>m. account_deposit m a) = Inr a'"
  then obtain m where "account_deposit m a = Inr a'" by (auto simp: bindE_eq_Inr)
  then have "run_account_command (Deposit m) a = Inr a'" by simp
  then show "\<exists>c. run_account_command c a = Inr a'" ..
qed

lemma keeps_open_account:
  assumes "ctx_repositories ctx = repos"
  shows "keeps (on_stores evolves) (open_account ctx aid body tp)"
proof (cases "account_open aid (oa_currency body)")
  case (Inl e)
  then show ?thesis using on_stores_evolves(1) by (simp add: open_account_def keeps_def reflp_def)
next
  case (Inr a)
  have "keeps evolves (save_account repos aid tp a)"
    unfolding save_account_def repositories
    by (intro keeps_evolves(4) keeps_save_account [OF Inr]) (auto simp: case_prod_unfold)
  then have "keeps (on_stores evolves) (bindM (at_store (save_account repos aid tp a)) (\<lambda>a'. returnM (Reply 201 (account_response_of aid a'))))"
    by auto
  then show ?thesis by (simp add: open_account_def assms Inr keeps_def)
qed

lemma keeps_account_routes:
  assumes "ctx_repositories ctx = repos"
  shows "keeps (on_stores evolves) (deposit web ctx aid body key tp)"
    and "keeps (on_stores evolves) (freeze_account ctx aid tp)"
    and "keeps (on_stores evolves) (close_account ctx aid tp)"
    and "keeps (on_stores evolves) (get_account ctx aid)"
proof -
  have "keeps evolves (change_account repos aid tp account_freeze)" "keeps evolves (change_account repos aid tp account_close)"
    by (rule keeps_change_account, metis run_account_command.simps)+
  then show "keeps (on_stores evolves) (freeze_account ctx aid tp)" "keeps (on_stores evolves) (close_account ctx aid tp)"
    unfolding freeze_account_def close_account_def assms by auto
  show "keeps (on_stores evolves) (deposit web ctx aid body key tp)"
    unfolding deposit_def assms Let_def
    by (intro keeps_world(4) keeps_idempotency) (auto split: option.splits)
  show "keeps (on_stores evolves) (get_account ctx aid)"
    unfolding get_account_def assms by auto
qed

end

section \<open>Deposits on a store of one's own\<close>

context sequential_ledger
begin

lemma change_account_raises:
  assumes "ok s"
  shows "account_at rt (log s) aid = None \<Longrightarrow> change_account repos aid tp cmd s =
      (Inl (DomainError NotFound (''account '' @ str_uuid aid @ '' not found'')), s)"
    and "account_at rt (log s) aid = Some a \<Longrightarrow> cmd a = Inl e \<Longrightarrow> change_account repos aid tp cmd s = (Inl e, s)"
  using load_at(1) [OF assms, of aid]
  by (simp_all add: change_account_def load_or_404_def repositories bindM_def)

lemma change_account_saves:
  assumes "ok s" and "account_at rt (log s) aid = Some a" and "cmd a = Inr a'" and "run_account_command c a = Inr a'"
  shows "\<exists>s'. change_account repos aid tp cmd s = (Inr (a'\<lparr>agg_pending := []\<rparr>), s') \<and> ok s' \<and>
    view_of rt (log s') = put_account aid a' (view_of rt (log s))"
proof -
  have "runs_to (save_account repos aid tp a') (view_of rt (log s)) (Inr (a'\<lparr>agg_pending := []\<rparr>))
      (put_account aid a' (view_of rt (log s)))"
    unfolding save_account_def repositories
    by (rule runs_to_save_account_result [OF _ assms(4)]) (auto simp: view_of_def assms(2))
  with assms(1) obtain s' where "save_account repos aid tp a' s = (Inr (a'\<lparr>agg_pending := []\<rparr>), s')" "ok s'"
    "view_of rt (log s') = put_account aid a' (view_of rt (log s))" unfolding runs_to_def by blast
  with load_at(1) [OF assms(1), of aid] assms(2,3) show ?thesis
    by (simp add: change_account_def load_or_404_def repositories bindM_Inr)
qed

end

text \<open>What the aggregate decides about the money of a valid request.\<close>

lemma deposit_decision:
  assumes "account_inv a" and "deposit_request_ok body"
  defines "cmd \<equiv> \<lambda>a. bindE (Money (dr_amount body) (dr_currency body)) (\<lambda>m. account_deposit m a)"
  shows "acc_status a \<noteq> OPEN \<Longrightarrow> \<exists>msg. cmd a = Inl (DomainError AccountNotActive msg)"
    and "acc_status a = OPEN \<Longrightarrow> acc_currency a \<noteq> dr_currency body \<Longrightarrow> \<exists>msg. cmd a = Inl (DomainError CurrencyMismatch msg)"
    and "acc_status a = OPEN \<Longrightarrow> acc_currency a = dr_currency body \<Longrightarrow> \<exists>m. cmd a = run_account_command (Deposit m) a \<and>
      run_account_command (Deposit m) a = Inr (account_moved (FundsDeposited m) (dr_amount body) 0 {} a)"
proof -
  let ?m = "\<lparr>amount = dr_amount body, currency = dr_currency body\<rparr>"
  have m: "Money (dr_amount body) (dr_currency body) = Inr ?m"
    using assms(2) by (simp add: Money_def deposit_request_ok_def)
  then have cmd: "cmd a = account_deposit ?m a" by (simp add: cmd_def)
  have pos: "assert_positive ?m = Inr ?m" using assms(2) by (simp add: assert_positive_def deposit_request_ok_def)
  show "acc_status a \<noteq> OPEN \<Longrightarrow> \<exists>msg. cmd a = Inl (DomainError AccountNotActive msg)"
    "acc_status a = OPEN \<Longrightarrow> acc_currency a \<noteq> dr_currency body \<Longrightarrow> \<exists>msg. cmd a = Inl (DomainError CurrencyMismatch msg)"
    by (auto simp: cmd account_deposit_def assert_operational_def pos)
  show "acc_status a = OPEN \<Longrightarrow> acc_currency a = dr_currency body \<Longrightarrow> \<exists>m. cmd a = run_account_command (Deposit m) a \<and>
      run_account_command (Deposit m) a = Inr (account_moved (FundsDeposited m) (dr_amount body) 0 {} a)"
    using record_balance_event(1) [OF assms(1), of ?m]
    by (intro exI [of _ ?m]) (simp add: cmd account_deposit_def assert_operational_def pos)
qed

text \<open>The route around the work, on the in-memory idempotency store.\<close>

lemma deposit_claimed:
  assumes "ctx_idempotency ctx = memory_idempotency" and "aw_idempotency w (key, DEPOSIT_ROUTE) = None"
    and "deposit_work (ctx_repositories ctx) aid body tp (aw_store w) = (r, s)"
  shows "r = Inl e \<Longrightarrow> s = aw_store w \<Longrightarrow> deposit web ctx aid body (Some key) tp w = (Inl e, w)"
    and "r = Inr a \<Longrightarrow> deposit web ctx aid body (Some key) tp w =
      (Inr (Reply 200 (account_response_of aid a)),
       w\<lparr>aw_models := (aw_models w)\<lparr>tw_store := s\<rparr>, aw_idempotency := (aw_idempotency w)((key, DEPOSIT_ROUTE) \<mapsto>
          \<lparr>ie_fingerprint = deposit_fingerprint web aid body, ie_response = Some \<lparr>sr_status_code = 200,
             sr_body = web_dump_account web (account_response_of aid a)\<rparr>\<rparr>)\<rparr>)"
  using assms
  by (simp_all add: deposit_def claim_key_def claim_reply_def discarding_def discard_key_def complete_key_def at_idempotency_def
      at_store_def memory_idempotency_def memory_claim_def memory_discard_def memory_complete_def bindM_def
      catchM_def Let_def fun_upd_idem)

lemma deposit_replayed:
  assumes "ctx_idempotency ctx = memory_idempotency" and "aw_idempotency w (key, DEPOSIT_ROUTE) =
      Some \<lparr>ie_fingerprint = deposit_fingerprint web aid body, ie_response = Some \<lparr>sr_status_code = n, sr_body = b\<rparr>\<rparr>"
  shows "deposit web ctx aid body (Some key) tp w = (Inr (JSONResponse n b), w)"
  using assms
  by (simp add: deposit_def claim_key_def claim_reply_def at_idempotency_def memory_idempotency_def memory_claim_def bindM_def)

section \<open>Properties\<close>

text \<open>
  C15. A deposit under a new key, on the in-memory stores and for every valid request: if there is
  no such account, or it is not open, or the currency is another, the request raises exactly that
  domain error and leaves everything as it was, the key included; otherwise it is answered 200
  with the amount added to the available balance and nothing else changed in any account, and from
  then on the same request under the same key, whatever happened to the ledger in between, gets the
  stored response and changes nothing.
\<close>

theorem deposit_applied_once:
  assumes "codec_round_trip rt" and "ctx_repositories ctx = memory_repositories rt"
    and "ctx_idempotency ctx = memory_idempotency" and "deposit_request_ok body"
    and "memory_invar (aw_store w)" and "ledger_ok rt (aw_store w)" and "aw_idempotency w (key, DEPOSIT_ROUTE) = None"
  shows "case account_at rt (aw_store w) aid of
      None \<Rightarrow> \<exists>msg. deposit web ctx aid body (Some key) tp w = (Inl (DomainError NotFound msg), w)
    | Some a \<Rightarrow>
        if acc_status a \<noteq> OPEN
        then \<exists>msg. deposit web ctx aid body (Some key) tp w = (Inl (DomainError AccountNotActive msg), w)
        else if acc_currency a \<noteq> dr_currency body
        then \<exists>msg. deposit web ctx aid body (Some key) tp w = (Inl (DomainError CurrencyMismatch msg), w)
        else \<exists>resp w1 b. deposit web ctx aid body (Some key) tp w = (Inr (Reply 200 resp), w1) \<and>
          resp = \<lparr>ar_account_id = aid, ar_currency = dr_currency body, ar_status = OPEN,
            ar_available = amount (acc_available a) + dr_amount body, ar_reserved = amount (acc_reserved a),
            ar_total = amount (acc_available a) + dr_amount body + amount (acc_reserved a)\<rparr> \<and>
          ledger_ok rt (aw_store w1) \<and> account_at rt (aw_store w1) = (account_at rt (aw_store w))(aid \<mapsto> b) \<and>
          account_response_of aid b = resp \<and>
          (\<forall>w2 tp'. aw_idempotency w2 (key, DEPOSIT_ROUTE) = aw_idempotency w1 (key, DEPOSIT_ROUTE) \<longrightarrow>
             deposit web ctx aid body (Some key) tp' w2 = (Inr (JSONResponse 200 (web_dump_account web resp)), w2))"
proof -
  let ?s = "aw_store w" and ?cmd = "\<lambda>a. bindE (Money (dr_amount body) (dr_currency body)) (\<lambda>m. account_deposit m a)"
  note seq = memory_sequential_ledger [OF assms(1)] and claimed = deposit_claimed [OF assms(3,7)]
  have ok: "ledger_log.ok rt (\<lambda>s. s) memory_invar ?s" using assms(5,6) by (simp add: memory_ok [OF assms(1)])
  have work: "deposit_work (ctx_repositories ctx) aid body tp ?s = change_account (memory_repositories rt) aid tp ?cmd ?s"
    by (simp add: deposit_work_def assms(2))
  note raises = sequential_ledger.change_account_raises [OF seq ok]
  show ?thesis
  proof (cases "account_at rt ?s aid")
    case None
    then show ?thesis using claimed(1) [OF work [unfolded raises(1) [OF None]] refl refl] by auto
  next
    case (Some a)
    note decision = deposit_decision [OF account_at_inv [OF assms(6) Some] assms(4)]
    have raised: "deposit web ctx aid body (Some key) tp w = (Inl e, w)" if "?cmd a = Inl e" for e
      by (rule claimed(1) [OF work [unfolded raises(2) [OF Some, of ?cmd, OF that]] refl refl])
    show ?thesis
    proof (cases "acc_status a = OPEN \<and> acc_currency a = dr_currency body")
      case False
      then show ?thesis
        using Some decision(1,2) raised by (auto split: if_splits)
    next
      case True
      then obtain m where cmd: "?cmd a = run_account_command (Deposit m) a"
        and run: "run_account_command (Deposit m) a = Inr (account_moved (FundsDeposited m) (dr_amount body) 0 {} a)"
        using decision(3) by blast
      let ?a = "account_moved (FundsDeposited m) (dr_amount body) 0 {} a"
      from sequential_ledger.change_account_saves [OF seq ok Some, of ?cmd, OF cmd [unfolded run] run] obtain s' where
        save: "deposit_work (ctx_repositories ctx) aid body tp ?s = (Inr (?a\<lparr>agg_pending := []\<rparr>), s')"
        and s': "ledger_ok rt s'" "view_of rt s' = put_account aid ?a (view_of rt ?s)"
        unfolding work memory_ok [OF assms(1)] by blast
      have "account_at rt s' = (account_at rt ?s)(aid \<mapsto> stored_account ?a)"
        using s'(2) by (metis put_view_simps(1) view_of_sel(1))
      then show ?thesis
        using Some True s'(1) claimed(2) [OF save refl, of web] deposit_replayed [OF assms(3), of _ key web aid body]
        by (auto simp: account_response_of_def intro!: exI [of _ "stored_account ?a"])
    qed
  qed
qed

theorem deposit_applied_once_witness:
  "\<exists>log w1. deposit plain_web plain_context 1 \<lparr>dr_amount = 25, dr_currency = ''USD''\<rparr> (Some ''k'') None (plain_world log) =
       (Inr (Reply 200 \<lparr>ar_account_id = 1, ar_currency = ''USD'', ar_status = OPEN, ar_available = 125, ar_reserved = 0,
          ar_total = 125\<rparr>), w1) \<and>
     deposit plain_web plain_context 1 \<lparr>dr_amount = 25, dr_currency = ''USD''\<rparr> (Some ''k'') None w1 =
       (Inr (JSONResponse 200 (JObj [(''total'', JInt 125)])), w1)"
proof (rule sample_ledger)
  fix log a b
  assume log: "memory_invar log" "ledger_ok plain_runtime log" "account_at plain_runtime log = [1 \<mapsto> a, 2 \<mapsto> b]"
    "acc_status a = OPEN" "acc_currency a = ''USD''" "amount (acc_available a) = 100" "amount (acc_reserved a) = 0"
  have "deposit_request_ok \<lparr>dr_amount = 25, dr_currency = ''USD''\<rparr>" (is "deposit_request_ok ?body")
    by (simp add: deposit_request_ok_def currency_ok_def)
  from deposit_applied_once [OF _ _ _ this, of plain_runtime plain_context "plain_world log" "''k''" plain_web 1 None] log
  obtain w1 where "deposit plain_web plain_context 1 ?body (Some ''k'') None (plain_world log) =
       (Inr (Reply 200 \<lparr>ar_account_id = 1, ar_currency = ''USD'', ar_status = OPEN, ar_available = 125, ar_reserved = 0,
          ar_total = 125\<rparr>), w1)"
    and "deposit plain_web plain_context 1 ?body (Some ''k'') None w1 = (Inr (JSONResponse 200 (web_dump_account plain_web
       \<lparr>ar_account_id = 1, ar_currency = ''USD'', ar_status = OPEN, ar_available = 125, ar_reserved = 0, ar_total = 125\<rparr>)), w1)"
    by auto
  then show ?thesis by (auto simp: plain_web_def)
qed

end
