(* ===== verification/Transfer_Routes.thy ===== *)
theory Transfer_Routes
  imports Account_Routes
begin

text \<open>
  The transfer endpoints and the global feed, \<^verbatim>\<open>src/src/ledger/api/routers/transfers.py\<close> and
  \<^verbatim>\<open>events.py\<close>. \<open>create_transfer\<close> checks the accounts, claims the idempotency key, starts the saga
  through the gateway and stores its answer under the key; the minted identifier is an argument.
\<close>

section \<open>Helpers\<close>

definition TRANSFER_ROUTE :: string where
  "TRANSFER_ROUTE = ''POST /api/transfers''"

definition transfer_fingerprint :: "web \<Rightarrow> create_transfer_request \<Rightarrow> string" where
  "transfer_fingerprint web body =
     web_digest web (JObj [(''amount'', JInt (ct_amount body)), (''currency'', JStr (ct_currency body)),
       (''destination_account_id'', JStr (str_uuid (ct_destination_account_id body))),
       (''source_account_id'', JStr (str_uuid (ct_source_account_id body)))])"

definition transfer_response_of :: "uuid \<Rightarrow> transfer \<Rightarrow> transfer_response" where
  "transfer_response_of tid t =
     \<lparr>tr_resp_transfer_id = tid, tr_resp_status = tr_status t, tr_resp_source = tr_source_account_id t,
      tr_resp_destination = tr_destination_account_id t, tr_resp_amount = map_option amount (tr_amount t),
      tr_resp_currency = map_option currency (tr_amount t), tr_resp_journal_entry_id = tr_journal_entry_id t,
      tr_resp_failure_reason = tr_failure_reason t\<rparr>"

definition load_transfer_or_404 :: "'s repositories \<Rightarrow> uuid \<Rightarrow> ('s, exn, transfer) action" where
  "load_transfer_or_404 R tid =
     bindM (repo_load (transfers R) tid) (\<lambda>found.
       case found of
         None \<Rightarrow> raiseM (DomainError NotFound (''transfer '' @ str_uuid tid @ '' not found''))
       | Some t \<Rightarrow> returnM t)"

section \<open>The routes\<close>

definition start_transfer ::
  "'g transfer_gateway \<Rightarrow> uuid \<Rightarrow> create_transfer_request \<Rightarrow> string option \<Rightarrow> ('g, exn, unit) action" where
  "start_transfer gateway tid body tp =
     bindM (liftE (Money (ct_amount body) (ct_currency body))) (\<lambda>m.
     gw_start gateway \<lparr>ti_transfer_id = tid, ti_source_account_id = ct_source_account_id body,
       ti_destination_account_id = ct_destination_account_id body, ti_amount = m, ti_reversal_of = None,
       ti_traceparent = tp\<rparr>)"

definition create_transfer ::
  "web \<Rightarrow> ('s, 'i, 'g) app_context \<Rightarrow> uuid \<Rightarrow> create_transfer_request \<Rightarrow> string option \<Rightarrow> string option \<Rightarrow>
   (('s, 'i, 'g) api_world, exn, transfer_accepted http_reply) action" where
  "create_transfer web ctx tid body key tp =
     (if ct_source_account_id body = ct_destination_account_id body
      then raiseM (DomainError SameAccountTransfer ''source and destination must be different accounts'')
      else
        bindM (claim_key ctx key TRANSFER_ROUTE (transfer_fingerprint web body)
          ''a request with this idempotency key is already in progress'') (\<lambda>early.
        case early of
          Some reply \<Rightarrow> returnM reply
        | None \<Rightarrow>
            bindM (discarding ctx key TRANSFER_ROUTE (at_gateway (start_transfer (ctx_gateway ctx) tid body tp))) (\<lambda>_.
            let accepted = \<lparr>ta_transfer_id = tid, ta_status = ''initiated''\<rparr>
            in bindM (complete_key ctx key TRANSFER_ROUTE 202 (web_dump_accepted web accepted)) (\<lambda>_.
               returnM (Reply 202 accepted)))))"

definition resolve_transfer ::
  "('s, 'i, 'g) app_context \<Rightarrow> uuid \<Rightarrow> reconciliation_resolution \<Rightarrow>
   (('s, 'i, 'g) api_world, exn, transfer_accepted http_reply) action" where
  "resolve_transfer ctx tid resolution =
     bindM (at_store (load_transfer_or_404 (ctx_repositories ctx) tid)) (\<lambda>t.
     if tr_status t \<noteq> NEEDS_RECONCILIATION
     then raiseM (DomainError InvalidTransition
       (''transfer '' @ str_uuid tid @ '' is '' @ transfer_status_value (tr_status t) @ '', not needs_reconciliation''))
     else bindM (at_gateway (gw_resolve (ctx_gateway ctx) tid resolution)) (\<lambda>_.
       returnM (Reply 202 \<lparr>ta_transfer_id = tid, ta_status = ''resolving''\<rparr>)))"

definition get_transfer ::
  "('s, 'i, 'g) app_context \<Rightarrow> uuid \<Rightarrow> (('s, 'i, 'g) api_world, exn, transfer_response http_reply) action" where
  "get_transfer ctx tid =
     bindM (at_store (load_transfer_or_404 (ctx_repositories ctx) tid)) (\<lambda>t.
     returnM (Reply 200 (transfer_response_of tid t)))"

definition get_transfer_events ::
  "('s, 'i, 'g) app_context \<Rightarrow> uuid \<Rightarrow> int \<Rightarrow> int \<Rightarrow>
   (('s, 'i, 'g) api_world, exn, event_response list http_reply) action" where
  "get_transfer_events ctx tid limit offset =
     bindM (at_store (es_load_stream (ctx_store ctx) TRANSFER_STREAM tid)) (\<lambda>events.
     if events = [] then raiseM (DomainError NotFound (''transfer '' @ str_uuid tid @ '' not found''))
     else returnM (Reply 200 (map event_response_of (py_slice offset (offset + limit) events))))"

definition read_events ::
  "('s, 'i, 'g) app_context \<Rightarrow> int \<Rightarrow> int \<Rightarrow>
   (('s, 'i, 'g) api_world, exn, global_event_response list http_reply) action" where
  "read_events ctx from_position limit =
     bindM (at_store (es_read_all (ctx_store ctx) from_position limit)) (\<lambda>events.
     returnM (Reply 200 (map (\<lambda>e. \<lparr>ger_global_position = se_global_position e, ger_stream_type = se_stream_type e,
       ger_stream_id = se_stream_id e, ger_event_type = se_event_type e, ger_occurred_at = se_occurred_at e\<rparr>) events)))"

section \<open>The event feed\<close>

lemma in_take_of_sorted:
  fixes f :: "'a \<Rightarrow> int"
  assumes "sorted_wrt (<) (map f xs)" and "x \<in> set xs" and "length xs \<le> n \<or> take n xs \<noteq> [] \<and> f x \<le> f (last (take n xs))"
  shows "x \<in> set (take n xs)"
proof (rule ccontr)
  assume "x \<notin> set (take n xs)"
  with assms(2) have x: "x \<in> set (drop n xs)" by (metis Un_iff append_take_drop_id set_append)
  with assms(3) have ne: "take n xs \<noteq> []" "f x \<le> f (last (take n xs))" by auto
  have "sorted_wrt (<) (map f (take n xs) @ map f (drop n xs))"
    using assms(1) by (metis append_take_drop_id map_append)
  with x last_in_set [OF ne(1)] have "f (last (take n xs)) < f x" by (auto simp: sorted_wrt_append)
  with ne(2) show False by simp
qed

text \<open>
  C35. Pages of the event feed: whatever store is behind it and whoever writes to it, a page asked
  for with a positive limit has at most that many entries, all from the log and beyond the given
  position, strictly ordered by position; and no event is skipped: every event of the log after
  the given position and up to the last one of the page is on the page, and a page that is shorter
  than the limit has all of them. So a client that asks again from the last position it saw reads
  the whole log.
\<close>

theorem event_feed_page_bounded:
  assumes "event_log rt (ctx_store ctx) log invar rely" and "invar (aw_store w)" and "1 \<le> limit"
    and "read_events ctx from_position limit w = (Inr reply, w')"
  shows "\<exists>page. reply = Reply 200 page \<and> int (length page) \<le> limit \<and>
    sorted_wrt (<) (map ger_global_position page) \<and> (\<forall>x \<in> set page. from_position < ger_global_position x) \<and>
    ger_global_position ` set page \<subseteq> se_global_position ` set (log (aw_store w')) \<and>
    (\<forall>e \<in> set (log (aw_store w')). from_position < se_global_position e \<and>
       (int (length page) < limit \<or> se_global_position e \<le> ger_global_position (last page)) \<longrightarrow>
       se_global_position e \<in> ger_global_position ` set page)"
proof -
  obtain q s where read: "es_read_all (ctx_store ctx) from_position limit (aw_store w) = (q, s)" by fastforce
  with assms(4) obtain evs where q: "q = Inr evs" and w': "aw_store w' = s"
    and reply: "reply = Reply 200 (map (\<lambda>e. \<lparr>ger_global_position = se_global_position e, ger_stream_type = se_stream_type e,
       ger_stream_id = se_stream_id e, ger_event_type = se_event_type e, ger_occurred_at = se_occurred_at e\<rparr>) evs)"
    (is "_ = Reply 200 (map ?resp evs)")
    by (auto simp: read_events_def at_store_def bindM_def split: sum.splits)
  let ?F = "filter (\<lambda>e. from_position < se_global_position e) (log s)" and ?n = "nat limit"
  have evs: "evs = take ?n ?F"
    using event_log.read_result [OF assms(1,2) read [unfolded q]] assms(3) by (simp add: py_take_take)
  have "log_wf (log s)"
    using event_log.invar_wf [OF assms(1)] event_log.read_log [OF assms(1,2) read] by blast
  then have sorted: "sorted_wrt (<) (map se_global_position ?F)"
    by (auto simp: log_wf_def sorted_wrt_map intro: sorted_wrt_filter)
  have last: "evs \<noteq> [] \<Longrightarrow> ger_global_position (last (map ?resp evs)) = se_global_position (last evs)"
    by (simp add: last_map)
  have all: "e \<in> set evs" if "e \<in> set (log s)" "from_position < se_global_position e"
    "int (length evs) < limit \<or> se_global_position e \<le> ger_global_position (last (map ?resp evs))" for e
  proof -
    have e: "e \<in> set ?F" using that by simp
    then have "?F \<noteq> []" by (metis empty_iff empty_set)
    then have "evs \<noteq> []" using evs assms(3) by simp
    with that(3) last have "length ?F \<le> ?n \<or> take ?n ?F \<noteq> [] \<and> se_global_position e \<le> se_global_position (last (take ?n ?F))"
      using evs by auto
    from in_take_of_sorted [OF sorted e this] show ?thesis using evs by simp
  qed
  have "int (length evs) \<le> limit" using evs assms(3) by simp
  moreover have "sorted_wrt (<) (map se_global_position evs)"
    using sorted unfolding evs by (metis sorted_wrt_take take_map)
  moreover have "set evs \<subseteq> {e \<in> set (log s). from_position < se_global_position e}"
    unfolding evs by (auto dest: in_set_takeD)
  ultimately show ?thesis
    using reply all w' by (intro exI [of _ "map ?resp evs"]) (auto simp: image_image comp_def)
qed

theorem event_feed_page_bounded_witness:
  "\<exists>log page. fst (read_events plain_context 0 2 (plain_world log)) = Inr (Reply 200 page) \<and> page \<noteq> [] \<and> length page \<le> 2"
proof -
  obtain log a b where log: "memory_invar log" "account_at plain_runtime log = [1 \<mapsto> a, 2 \<mapsto> b]" by (rule sample_ledger)
  have "log \<noteq> []" using fun_cong [OF log(2), of 1] by (auto simp: account_at_def)
  then obtain e where e: "e \<in> set log" by (cases log) auto
  obtain r w' where run: "read_events plain_context 0 2 (plain_world log) = (r, w')" by fastforce
  then obtain reply where r: "r = Inr reply" and w': "aw_store w' = log"
    by (auto simp: read_events_def at_store_def bindM_def memory_store_def memory_read_all_def)
  from event_feed_page_bounded [OF _ _ _ run [unfolded r], of plain_runtime "\<lambda>s. s" memory_invar "(=)"]
    memory.event_log_axioms [of plain_runtime] log(1) obtain page where page: "reply = Reply 200 page" "int (length page) \<le> 2"
    and skip: "\<forall>e \<in> set log. 0 < se_global_position e \<and>
      (int (length page) < 2 \<or> se_global_position e \<le> ger_global_position (last page)) \<longrightarrow> se_global_position e \<in> ger_global_position ` set page"
    by (auto simp: w')
  have "0 < se_global_position e" using e log(1) by (auto simp: memory_invar_def log_wf_def)
  with skip e have "page \<noteq> []" by auto
  with page run r show ?thesis by (intro exI [of _ log] exI [of _ page]) auto
qed

end
