(* ===== verification/Transfer_Requests.thy ===== *)
theory Transfer_Requests
  imports Transfer_Routes
begin

text \<open>
  Concurrent \<open>create_transfer\<close> requests. Between two awaits of the route other requests run, so a
  request is a process with a phase, and \<open>create_step\<close> interleaves the phases of any number of them
  with everything else the service does. The abstract relation \<open>key_step\<close> keeps only what matters
  for the keys: the entries of the route, the phases and the sagas started; \<open>create_step\<close> refines
  it, and its invariant gives at most one saga per key, those of requests that raised apart. The locale \<open>gateway_log\<close> is the contract
  of the gateway, \<open>temporal_service\<close> that of Temporal's client, from which it follows.
\<close>

section \<open>The gateway's contract\<close>

text \<open>A start that returns has started the saga; one that raises may have started it, for its answer may be lost.\<close>

locale gateway_log =
  fixes gateway :: "'g transfer_gateway" and started :: "'g \<Rightarrow> transfer_input list"
  assumes start_ok: "gw_start gateway d g = (Inr u, g') \<Longrightarrow> started g' = started g @ [d]"
    and start_raises: "gw_start gateway d g = (Inl e, g') \<Longrightarrow> started g' = started g \<or> started g' = started g @ [d]"

text \<open>
  The Temporal service: workflows by their identifiers; a start that is acknowledged created the
  workflow under an identifier that was not in use. A start that raises was refused, never arrived,
  or created the workflow and lost the acknowledgement.
\<close>

locale temporal_service =
  fixes client :: "'g temporal_client" and workflows :: "'g \<Rightarrow> (string \<times> transfer_input) list"
  assumes started_workflow: "tc_start_workflow client d wid q g = (Inr u, g') \<Longrightarrow>
      wid \<notin> fst ` set (workflows g) \<and> workflows g' = workflows g @ [(wid, d)]"
    and unacknowledged: "tc_start_workflow client d wid q g = (Inl e, g') \<Longrightarrow>
      workflows g' = workflows g \<or> workflows g' = workflows g @ [(wid, d)]"

context temporal_service
begin

lemma temporal_gateway_log: "gateway_log (temporal_gateway client queue) (\<lambda>g. map snd (workflows g))"
  by unfold_locales (auto simp: temporal_gateway_def dest: started_workflow unacknowledged)

end

sublocale temporal_service \<subseteq> gateway_log "temporal_gateway client queue" "\<lambda>g. map snd (workflows g)" for queue
  by (rule temporal_gateway_log)

interpretation plain_temporal: temporal_service plain_client "\<lambda>g. g"
  by unfold_locales (auto simp: plain_client_def split: if_splits)

section \<open>Requests and their phases\<close>

record transfer_call =
  call_id :: uuid
  call_body :: create_transfer_request
  call_key :: "string option"
  call_traceparent :: "string option"

datatype phase =
    Arrived
  | Claimed
  | Raised exn
  | Started
  | Answered "exn + transfer_accepted http_reply"

definition call_input :: "transfer_call \<Rightarrow> transfer_input" where
  "call_input c =
     \<lparr>ti_transfer_id = call_id c, ti_source_account_id = ct_source_account_id (call_body c),
      ti_destination_account_id = ct_destination_account_id (call_body c),
      ti_amount = \<lparr>amount = ct_amount (call_body c), currency = ct_currency (call_body c)\<rparr>,
      ti_reversal_of = None, ti_traceparent = call_traceparent c\<rparr>"

definition call_accepted :: "transfer_call \<Rightarrow> transfer_accepted" where
  "call_accepted c = \<lparr>ta_transfer_id = call_id c, ta_status = ''initiated''\<rparr>"

definition call_response :: "web \<Rightarrow> transfer_call \<Rightarrow> stored_response" where
  "call_response web c = \<lparr>sr_status_code = 202, sr_body = web_dump_accepted web (call_accepted c)\<rparr>"

abbreviation call_fingerprint :: "web \<Rightarrow> transfer_call \<Rightarrow> string" where
  "call_fingerprint web c \<equiv> transfer_fingerprint web (call_body c)"

definition call_claim ::
  "web \<Rightarrow> ('s, 'i, 'g) app_context \<Rightarrow> transfer_call \<Rightarrow>
   (('s, 'i, 'g) api_world, exn, transfer_accepted http_reply option) action" where
  "call_claim web ctx c = claim_key ctx (call_key c) TRANSFER_ROUTE (call_fingerprint web c)
     ''a request with this idempotency key is already in progress''"

definition call_start :: "('s, 'i, 'g) app_context \<Rightarrow> transfer_call \<Rightarrow> (('s, 'i, 'g) api_world, exn, unit) action" where
  "call_start ctx c =
     at_gateway (start_transfer (ctx_gateway ctx) (call_id c) (call_body c) (call_traceparent c))"

definition call_complete ::
  "web \<Rightarrow> ('s, 'i, 'g) app_context \<Rightarrow> transfer_call \<Rightarrow> (('s, 'i, 'g) api_world, exn, unit) action" where
  "call_complete web ctx c =
     complete_key ctx (call_key c) TRANSFER_ROUTE 202 (web_dump_accepted web (call_accepted c))"

fun after_claim :: "exn + transfer_accepted http_reply option \<Rightarrow> phase" where
  "after_claim (Inl e) = Answered (Inl e)"
| "after_claim (Inr (Some reply)) = Answered (Inr reply)"
| "after_claim (Inr None) = Claimed"

text \<open>
  Requests are told apart by an index of any type. One step of one request, or anything else
  that leaves the gateway and the route's keys alone.
\<close>

inductive create_step ::
  "web \<Rightarrow> ('s, 'i, 'g) app_context \<Rightarrow> ('n \<Rightarrow> transfer_call) \<Rightarrow> ('s, 'i, 'g) api_world \<times> ('n \<Rightarrow> phase) \<Rightarrow>
   ('s, 'i, 'g) api_world \<times> ('n \<Rightarrow> phase) \<Rightarrow> bool"
  for web ctx calls where
  refuse: "ph i = Arrived \<Longrightarrow>
    ct_source_account_id (call_body (calls i)) = ct_destination_account_id (call_body (calls i)) \<Longrightarrow>
    create_step web ctx calls (w, ph) (w, ph(i := Answered (Inl
      (DomainError SameAccountTransfer ''source and destination must be different accounts''))))"
| claim: "ph i = Arrived \<Longrightarrow>
    ct_source_account_id (call_body (calls i)) \<noteq> ct_destination_account_id (call_body (calls i)) \<Longrightarrow>
    call_claim web ctx (calls i) w = (r, w') \<Longrightarrow> create_step web ctx calls (w, ph) (w', ph(i := after_claim r))"
| start: "ph i = Claimed \<Longrightarrow> call_start ctx (calls i) w = (r, w') \<Longrightarrow>
    create_step web ctx calls (w, ph) (w', ph(i := (case r of Inl e \<Rightarrow> Raised e | Inr _ \<Rightarrow> Started)))"
| discard: "ph i = Raised e \<Longrightarrow> discard_key ctx (call_key (calls i)) TRANSFER_ROUTE w = (r, w') \<Longrightarrow>
    create_step web ctx calls (w, ph) (w', ph(i := Answered (Inl (case r of Inl e' \<Rightarrow> e' | Inr _ \<Rightarrow> e))))"
| complete: "ph i = Started \<Longrightarrow> call_complete web ctx (calls i) w = (r, w') \<Longrightarrow>
    create_step web ctx calls (w, ph)
      (w', ph(i := Answered (case r of Inl e \<Rightarrow> Inl e | Inr _ \<Rightarrow> Inr (Reply 202 (call_accepted (calls i))))))"
| elsewhere: "create_step web ctx calls (w, ph) (w\<lparr>aw_models := models\<rparr>, ph)"

text \<open>Run without interruption, the phases are the route.\<close>

lemma create_transfer_phases:
  assumes "ph i = Arrived" and "create_transfer web ctx (call_id (calls i)) (call_body (calls i)) (call_key (calls i))
      (call_traceparent (calls i)) w = (r, w')"
  shows "(create_step web ctx calls)\<^sup>*\<^sup>* (w, ph) (w', ph(i := Answered r))"
proof (cases "ct_source_account_id (call_body (calls i)) = ct_destination_account_id (call_body (calls i))")
  case True
  then show ?thesis using assms create_step.refuse [of ph i calls web ctx w] by (auto simp: create_transfer_def)
next
  case distinct: False
  let ?c = "calls i" and ?step = "create_step web ctx calls"
  obtain r1 w1 where r1: "call_claim web ctx ?c w = (r1, w1)" by fastforce
  from assms(1) distinct r1 have s1: "?step (w, ph) (w1, ph(i := after_claim r1))" by (rule create_step.claim)
  show ?thesis
  proof (cases "r1 = Inr None")
    case False
    then show ?thesis
      using assms(2) s1 r1 distinct
      by (cases r1 rule: after_claim.cases) (auto simp: create_transfer_def call_claim_def bindM_def)
  next
    case True
    obtain r2 w2 where r2: "call_start ctx ?c w1 = (r2, w2)" by fastforce
    let ?ph2 = "ph(i := (case r2 of Inl e \<Rightarrow> Raised e | Inr _ \<Rightarrow> Started))"
    have s2: "?step (w1, ph(i := Claimed)) (w2, ?ph2)"
      using create_step.start [of "ph(i := Claimed)" i ctx calls w1 r2 w2 web] r2 by simp
    have s3: "?step (w2, ?ph2) (w', ph(i := Answered r))"
    proof (cases r2)
      case (Inl e)
      obtain r3 w3 where r3: "discard_key ctx (call_key ?c) TRANSFER_ROUTE w2 = (r3, w3)" by fastforce
      have "r = Inl (case r3 of Inl e' \<Rightarrow> e' | Inr _ \<Rightarrow> e) \<and> w' = w3"
        using assms(2) distinct r1 True r2 Inl r3
        by (auto simp: create_transfer_def call_claim_def call_start_def discarding_def bindM_def catchM_def split: sum.splits)
      then show ?thesis
        using create_step.discard [of "ph(i := Raised e)" i e ctx calls w2 r3 w3 web] r3 Inl by simp
    next
      case (Inr u)
      obtain r3 w3 where r3: "call_complete web ctx ?c w2 = (r3, w3)" by fastforce
      have "r = (case r3 of Inl e \<Rightarrow> Inl e | Inr _ \<Rightarrow> Inr (Reply 202 (call_accepted ?c))) \<and> w' = w3"
        using assms(2) distinct r1 True r2 Inr r3
        by (auto simp: create_transfer_def call_claim_def call_start_def call_complete_def call_accepted_def discarding_def
            bindM_def catchM_def Let_def split: sum.splits)
      then show ?thesis
        using create_step.complete [of "ph(i := Started)" i web ctx calls w2 r3 w3] r3 Inr by simp
    qed
    from s1 s2 s3 True show ?thesis by (simp add: converse_rtranclp_into_rtranclp)
  qed
qed

section \<open>What happens to the keys\<close>

type_synonym 'n key_state = "(string \<Rightarrow> idem_entry option) \<times> ('n \<Rightarrow> phase) \<times> transfer_input list"

text \<open>
  The entries of the route, the phases and the sagas started. A request is turned away with
  something that is not an acceptance of its own; a replay carries what is stored under its key.
\<close>

inductive key_step :: "web \<Rightarrow> ('n \<Rightarrow> transfer_call) \<Rightarrow> 'n key_state \<Rightarrow> 'n key_state \<Rightarrow> bool" for web calls where
  turned_away: "ph i = Arrived \<Longrightarrow> (\<And>n a. r \<noteq> Inr (Reply n a)) \<Longrightarrow>
    (\<And>n b. r = Inr (JSONResponse n b) \<Longrightarrow> \<exists>k. call_key (calls i) = Some k \<and>
       E k = Some \<lparr>ie_fingerprint = call_fingerprint web (calls i), ie_response = Some \<lparr>sr_status_code = n, sr_body = b\<rparr>\<rparr>) \<Longrightarrow>
    key_step web calls (E, ph, S) (E, ph(i := Answered r), S)"
| let_through: "ph i = Arrived \<Longrightarrow> (\<And>k. call_key (calls i) = Some k \<Longrightarrow> E k = None) \<Longrightarrow>
    E' = (case call_key (calls i) of None \<Rightarrow> E
      | Some k \<Rightarrow> E(k \<mapsto> \<lparr>ie_fingerprint = call_fingerprint web (calls i), ie_response = None\<rparr>)) \<Longrightarrow>
    key_step web calls (E, ph, S) (E', ph(i := Claimed), S)"
| saga_started: "ph i = Claimed \<Longrightarrow> key_step web calls (E, ph, S) (E, ph(i := Started), S @ [call_input (calls i)])"
| start_raised: "ph i = Claimed \<Longrightarrow> S' = S \<or> S' = S @ [call_input (calls i)] \<Longrightarrow>
    key_step web calls (E, ph, S) (E, ph(i := Raised e), S')"
| given_up: "ph i = Raised e \<Longrightarrow>
    E' = (case call_key (calls i) of None \<Rightarrow> E
      | Some k \<Rightarrow> (case E k of None \<Rightarrow> E | Some x \<Rightarrow> if ie_response x = None then E(k := None) else E)) \<Longrightarrow>
    key_step web calls (E, ph, S) (E', ph(i := Answered (Inl e)), S)"
| completed: "ph i = Started \<Longrightarrow>
    E' = (case call_key (calls i) of None \<Rightarrow> E
      | Some k \<Rightarrow> E(k := map_option (ie_response_update (\<lambda>_. Some (call_response web (calls i)))) (E k))) \<Longrightarrow>
    key_step web calls (E, ph, S) (E', ph(i := Answered (Inr (Reply 202 (call_accepted (calls i))))), S)"
| idle: "key_step web calls (E, ph, S) (E, ph, S)"

definition key_view :: "('g \<Rightarrow> transfer_input list) \<Rightarrow> ('s, idem_entries, 'g) api_world \<times> ('n \<Rightarrow> phase) \<Rightarrow> 'n key_state" where
  "key_view started c = (\<lambda>k. aw_idempotency (fst c) (k, TRANSFER_ROUTE), snd c, started (aw_gateway (fst c)))"

lemma start_transfer_eq:
  "start_transfer gateway (call_id c) (call_body c) (call_traceparent c) g =
     (if currency_ok (ct_currency (call_body c)) then gw_start gateway (call_input c) g else (Inl ValidationError, g))"
  by (simp add: start_transfer_def Money_def call_input_def)

lemma memory_claim_returns: "\<exists>a E'. memory_claim k route fp E = (Inr a, E')"
  by (auto simp: memory_claim_def split: option.split)

context gateway_log
begin

lemma create_step_refines:
  assumes ctx: "ctx_idempotency ctx = memory_idempotency" "ctx_gateway ctx = gateway"
    and "create_step web ctx calls c c'"
  shows "key_step web calls (key_view started c) (key_view started c')"
  using assms(3)
proof cases
  case (refuse ph i w)
  then show ?thesis unfolding key_view_def by (auto intro!: key_step.turned_away)
next
  case (claim ph i w r w')
  let ?c = "calls i"
  show ?thesis
  proof (cases "call_key ?c")
    case None
    with claim have "w' = w" "after_claim r = Claimed" by (auto simp: call_claim_def claim_key_def)
    with claim None key_step.let_through [of ph i calls _ _ web] show ?thesis
      unfolding key_view_def by auto
  next
    case (Some k)
    let ?E = "aw_idempotency w"
    obtain a E' where mc: "memory_claim k TRANSFER_ROUTE (call_fingerprint web ?c) ?E = (Inr a, E')"
      using memory_claim_returns by blast
    then have w': "w' = w\<lparr>aw_idempotency := E'\<rparr>"
      and r: "r = Inr (claim_reply ''a request with this idempotency key is already in progress'' a)"
      using claim(5) Some ctx(1)
      by (auto simp: call_claim_def claim_key_def at_idempotency_def memory_idempotency_def bindM_def)
    show ?thesis
    proof (cases "?E (k, TRANSFER_ROUTE)")
      case None
      then have "after_claim r = Claimed" "E' = ?E((k, TRANSFER_ROUTE) \<mapsto> \<lparr>ie_fingerprint = call_fingerprint web ?c, ie_response = None\<rparr>)"
        using mc r by (auto simp: memory_claim_def claim_reply_def)
      with claim(1-3) Some None w' show ?thesis
        unfolding key_view_def by (auto simp: fun_eq_iff intro!: key_step.let_through)
    next
      case entry: (Some e)
      then have "E' = ?E" using mc by (auto simp: memory_claim_def split: if_splits option.splits)
      moreover obtain q where q: "after_claim r = Answered q" "\<And>n x. q \<noteq> Inr (Reply n x)"
        "\<And>n b. q = Inr (JSONResponse n b) \<Longrightarrow> e = \<lparr>ie_fingerprint = call_fingerprint web ?c,
           ie_response = Some \<lparr>sr_status_code = n, sr_body = b\<rparr>\<rparr>"
        using mc entry r
        by (cases e) (auto simp: memory_claim_def claim_reply_def problem_response_def problem_def Let_def split: if_splits option.splits)
      ultimately show ?thesis
        using claim(1-3) Some entry w' unfolding key_view_def by (auto intro!: key_step.turned_away)
    qed
  qed
next
  case (start ph i w r w')
  obtain g' where g: "start_transfer gateway (call_id (calls i)) (call_body (calls i)) (call_traceparent (calls i)) (aw_gateway w) = (r, g')"
    and w': "w' = w\<lparr>aw_gateway := g'\<rparr>"
    using start(4) ctx(2) by (auto simp: call_start_def at_gateway_def split: prod.splits)
  show ?thesis
  proof (cases r)
    case (Inl e)
    then have "started g' = started (aw_gateway w) \<or> started g' = started (aw_gateway w) @ [call_input (calls i)]"
      using g by (auto simp: start_transfer_eq dest: start_raises split: if_splits)
    with start(1-3) Inl w' show ?thesis unfolding key_view_def by (auto intro: key_step.start_raised)
  next
    case (Inr u)
    then have "started g' = started (aw_gateway w) @ [call_input (calls i)]"
      using g by (auto simp: start_transfer_eq dest: start_ok split: if_splits)
    with start(1-3) Inr w' show ?thesis unfolding key_view_def by (auto intro: key_step.saga_started)
  qed
next
  case (discard ph i e w r w')
  then show ?thesis
    unfolding key_view_def using ctx(1)
    by (auto simp: discard_key_def at_idempotency_def memory_idempotency_def memory_discard_def fun_eq_iff
        intro!: key_step.given_up split: option.splits)
next
  case (complete ph i w r w')
  then show ?thesis
    unfolding key_view_def using ctx(1)
    by (auto simp: call_complete_def complete_key_def at_idempotency_def memory_idempotency_def memory_complete_def
        call_response_def fun_eq_iff intro!: key_step.completed split: option.splits)
next
  case (elsewhere w ph models)
  then show ?thesis unfolding key_view_def by (auto intro: key_step.idle)
qed

end

section \<open>The invariant\<close>

text \<open>A request that holds its key or has been answered with an acceptance of its own.\<close>

fun active :: "phase \<Rightarrow> bool" where
  "active Arrived = False"
| "active (Answered r) = (case r of Inr (Reply _ _) \<Rightarrow> True | _ \<Rightarrow> False)"
| "active _ = True"

fun has_started :: "phase \<Rightarrow> bool" where
  "has_started Started = True"
| "has_started (Answered r) = (case r of Inr (Reply _ _) \<Rightarrow> True | _ \<Rightarrow> False)"
| "has_started _ = False"

text \<open>A request whose start, or whatever came before it, raised.\<close>

fun has_raised :: "phase \<Rightarrow> bool" where
  "has_raised (Raised _) = True"
| "has_raised (Answered r) = isl r"
| "has_raised _ = False"

definition held_response :: "web \<Rightarrow> transfer_call \<Rightarrow> phase \<Rightarrow> stored_response option" where
  "held_response web c p = (if has_started p \<and> p \<noteq> Started then Some (call_response web c) else None)"

fun keys_ok :: "web \<Rightarrow> ('n \<Rightarrow> transfer_call) \<Rightarrow> 'n key_state \<Rightarrow> bool" where
  "keys_ok web calls (E, ph, S) \<longleftrightarrow>
     (\<forall>i j k. active (ph i) \<longrightarrow> active (ph j) \<longrightarrow> call_key (calls i) = Some k \<longrightarrow> call_key (calls j) = Some k \<longrightarrow> i = j) \<and>
     (\<forall>i k. active (ph i) \<longrightarrow> call_key (calls i) = Some k \<longrightarrow>
        E k = Some \<lparr>ie_fingerprint = call_fingerprint web (calls i), ie_response = held_response web (calls i) (ph i)\<rparr>) \<and>
     (\<forall>k e. E k = Some e \<longrightarrow> (\<exists>i. active (ph i) \<and> call_key (calls i) = Some k))"

definition replayed_from :: "web \<Rightarrow> ('n \<Rightarrow> transfer_call) \<Rightarrow> ('n \<Rightarrow> phase) \<Rightarrow> 'n \<Rightarrow> stored_response \<Rightarrow> bool" where
  "replayed_from web calls ph j r \<longleftrightarrow>
     (\<exists>i k. call_key (calls j) = Some k \<and> call_key (calls i) = Some k \<and>
        call_fingerprint web (calls i) = call_fingerprint web (calls j) \<and>
        ph i = Answered (Inr (Reply 202 (call_accepted (calls i)))) \<and> r = call_response web (calls i))"

fun replies_ok :: "web \<Rightarrow> ('n \<Rightarrow> transfer_call) \<Rightarrow> 'n key_state \<Rightarrow> bool" where
  "replies_ok web calls (E, ph, S) \<longleftrightarrow>
     (\<forall>i n a. ph i = Answered (Inr (Reply n a)) \<longrightarrow> n = 202 \<and> a = call_accepted (calls i)) \<and>
     (\<forall>j n b. ph j = Answered (Inr (JSONResponse n b)) \<longrightarrow> replayed_from web calls ph j \<lparr>sr_status_code = n, sr_body = b\<rparr>)"

fun sagas_ok :: "('n \<Rightarrow> transfer_call) \<Rightarrow> 'n key_state \<Rightarrow> bool" where
  "sagas_ok calls (E, ph, S) \<longleftrightarrow>
     (\<forall>i. has_started (ph i) \<longrightarrow> call_input (calls i) \<in> set S) \<and>
     (\<forall>d \<in> set S. \<exists>i. d = call_input (calls i) \<and> (has_started (ph i) \<or> has_raised (ph i))) \<and> distinct S"

lemma has_started_active: "has_started p \<Longrightarrow> active p"
  by (cases p) (auto split: sum.splits http_reply.splits)

text \<open>One request changes its phase and the entry under its own key.\<close>

lemma keys_ok_update:
  assumes inv: "keys_ok web calls (E, ph, S)"
    and other: "\<And>k. call_key (calls i) \<noteq> Some k \<Longrightarrow> E' k = E k"
    and holds: "\<And>k. call_key (calls i) = Some k \<Longrightarrow> active p \<Longrightarrow> (active (ph i) \<or> E k = None) \<and>
      E' k = Some \<lparr>ie_fingerprint = call_fingerprint web (calls i), ie_response = held_response web (calls i) p\<rparr>"
    and gone: "\<And>k. call_key (calls i) = Some k \<Longrightarrow> \<not> active p \<Longrightarrow> E' k = (if active (ph i) then None else E k)"
  shows "keys_ok web calls (E', ph(i := p), S')"
proof -
  let ?key = "\<lambda>j. call_key (calls j)"
  have uniq: "j = j'" if "active (ph j)" "active (ph j')" "?key j = Some k" "?key j' = Some k" for j j' k
    using inv that by auto
  have entry: "E k = Some \<lparr>ie_fingerprint = call_fingerprint web (calls j), ie_response = held_response web (calls j) (ph j)\<rparr>"
    if "active (ph j)" "?key j = Some k" for j k using inv that by auto
  have owner: "\<exists>j. active (ph j) \<and> ?key j = Some k" if "E k = Some e" for k e using inv that by auto
  have alone: False if "j \<noteq> i" "active (ph j)" "?key j = Some k" "?key i = Some k" "active p" for j k
    using holds [OF that(4,5)] uniq [OF that(2) _ that(3,4)] that(1) entry [OF that(2,3)] by auto
  have other_entry: "E' k = E k" if "j \<noteq> i" "active (ph j)" "?key j = Some k" for j k
  proof (cases "?key i = Some k")
    case True
    have "\<not> active p" using alone [OF that True] by blast
    moreover have "\<not> active (ph i)" using uniq [OF that(2) _ that(3) True] that(1) by blast
    ultimately show ?thesis using gone [OF True] by simp
  qed (rule other)
  show ?thesis
    unfolding keys_ok.simps
  proof (intro conjI allI impI)
    fix j j' k
    assume "active ((ph(i := p)) j)" "active ((ph(i := p)) j')" "?key j = Some k" "?key j' = Some k"
    then show "j = j'" by (cases "j = i"; cases "j' = i") (simp_all, (blast intro: uniq dest: alone)+)
  next
    fix j k
    assume a: "active ((ph(i := p)) j)" "?key j = Some k"
    show "E' k = Some \<lparr>ie_fingerprint = call_fingerprint web (calls j),
        ie_response = held_response web (calls j) ((ph(i := p)) j)\<rparr>"
      using a holds [of k] other_entry [of j k] entry [of j k] by (cases "j = i") auto
  next
    fix k e
    assume e: "E' k = Some e"
    show "\<exists>j. active ((ph(i := p)) j) \<and> ?key j = Some k"
    proof (cases "?key i = Some k")
      case True
      show ?thesis
      proof (cases "active p")
        case False
        with gone [OF True False] e have "\<not> active (ph i)" "E k = Some e" by (auto split: if_splits)
        with owner obtain j where "active (ph j)" "?key j = Some k" by blast
        with \<open>\<not> active (ph i)\<close> show ?thesis by (intro exI [of _ j]) auto
      qed (use True in auto)
    next
      case False
      with other e owner obtain j where "active (ph j)" "?key j = Some k" by metis
      with False show ?thesis by (intro exI [of _ j]) auto
    qed
  qed
qed

lemma busy_entry:
  assumes "keys_ok web calls (E, ph, S)" and "active (ph i)" and "has_started (ph i) \<Longrightarrow> ph i = Started"
    and "call_key (calls i) = Some k"
  shows "E k = Some \<lparr>ie_fingerprint = call_fingerprint web (calls i), ie_response = None\<rparr>"
proof -
  have "E k = Some \<lparr>ie_fingerprint = call_fingerprint web (calls i), ie_response = held_response web (calls i) (ph i)\<rparr>"
    using assms(1,2,4) unfolding keys_ok.simps by blast
  then show ?thesis using assms(3) by (auto simp: held_response_def)
qed

lemma key_step_keys_ok:
  assumes "key_step web calls s s'" and "keys_ok web calls s"
  shows "keys_ok web calls s'"
  using assms(1)
proof cases
  case (turned_away ph i r E S)
  have "\<not> active (Answered r)" using turned_away(4) by (auto split: sum.splits http_reply.splits)
  then show ?thesis
    unfolding turned_away(2) using turned_away(3)
    by (intro keys_ok_update [OF assms(2) [unfolded turned_away(1)]]) simp_all
next
  case (let_through ph i E E' S)
  show ?thesis
    unfolding let_through(2)
    by (rule keys_ok_update [OF assms(2) [unfolded let_through(1)]])
      (simp_all add: held_response_def let_through(4,5) split: option.split)
next
  case (saga_started ph i E S)
  note entry = busy_entry [OF assms(2) [unfolded saga_started(1)], of i, unfolded saga_started(3), simplified]
  show ?thesis
    unfolding saga_started(2) using saga_started(3) entry
    by (intro keys_ok_update [OF assms(2) [unfolded saga_started(1)]]) (simp_all add: held_response_def)
next
  case (start_raised ph i S' S E e)
  note entry = busy_entry [OF assms(2) [unfolded start_raised(1)], of i, unfolded start_raised(3), simplified]
  show ?thesis
    unfolding start_raised(2) using start_raised(3) entry
    by (intro keys_ok_update [OF assms(2) [unfolded start_raised(1)]]) (simp_all add: held_response_def)
next
  case (given_up ph i e E' E S)
  note entry = busy_entry [OF assms(2) [unfolded given_up(1)], of i, unfolded given_up(3), simplified]
  show ?thesis
    unfolding given_up(2) using given_up(3) entry
    by (intro keys_ok_update [OF assms(2) [unfolded given_up(1)]]) (auto simp: given_up(4) split: option.split)
next
  case (completed ph i E' E S)
  note entry = busy_entry [OF assms(2) [unfolded completed(1)], of i, unfolded completed(3), simplified]
  show ?thesis
    unfolding completed(2) using completed(3) entry
    by (intro keys_ok_update [OF assms(2) [unfolded completed(1)]])
      (auto simp: completed(4) held_response_def split: option.split)
next
  case (idle E ph S)
  then show ?thesis using assms(2) by simp
qed

lemma replied_phase: "has_started p \<Longrightarrow> p \<noteq> Started \<Longrightarrow> \<exists>n a. p = Answered (Inr (Reply n a))"
  by (cases p) (auto split: sum.splits http_reply.splits)

text \<open>The owner of a completed entry.\<close>

lemma completed_entry:
  assumes "keys_ok web calls (E, ph, S)" and "replies_ok web calls (E, ph, S)"
    and "E k = Some \<lparr>ie_fingerprint = fp, ie_response = Some r\<rparr>"
  shows "\<exists>i. call_key (calls i) = Some k \<and> call_fingerprint web (calls i) = fp \<and>
    ph i = Answered (Inr (Reply 202 (call_accepted (calls i)))) \<and> r = call_response web (calls i)"
proof -
  obtain i where i: "active (ph i)" "call_key (calls i) = Some k" using assms(1,3) by auto
  have "E k = Some \<lparr>ie_fingerprint = call_fingerprint web (calls i), ie_response = held_response web (calls i) (ph i)\<rparr>"
    using assms(1) i unfolding keys_ok.simps by blast
  with assms(3) have *: "call_fingerprint web (calls i) = fp" "r = call_response web (calls i)"
    "has_started (ph i)" "ph i \<noteq> Started" by (auto simp: held_response_def split: if_splits)
  obtain n a where "ph i = Answered (Inr (Reply n a))" using replied_phase [OF *(3,4)] by blast
  moreover from this have "n = 202 \<and> a = call_accepted (calls i)" using assms(2) by simp
  ultimately show ?thesis using i(2) * by blast
qed

lemma replayed_from_update:
  "replayed_from web calls ph j r \<Longrightarrow> (\<And>n a. ph i \<noteq> Answered (Inr (Reply n a))) \<Longrightarrow> replayed_from web calls (ph(i := p)) j r"
  unfolding replayed_from_def by (metis fun_upd_other)

lemma replies_ok_update:
  assumes inv: "replies_ok web calls (E, ph, S)" and change: "\<And>n a. ph i \<noteq> Answered (Inr (Reply n a))"
    and "\<And>n a. p = Answered (Inr (Reply n a)) \<Longrightarrow> n = 202 \<and> a = call_accepted (calls i)"
    and "\<And>n b. p = Answered (Inr (JSONResponse n b)) \<Longrightarrow> replayed_from web calls ph i \<lparr>sr_status_code = n, sr_body = b\<rparr>"
  shows "replies_ok web calls (E', ph(i := p), S')"
  unfolding replies_ok.simps
proof (intro conjI allI impI)
  fix j n b
  assume "(ph(i := p)) j = Answered (Inr (JSONResponse n b))"
  then have "replayed_from web calls ph j \<lparr>sr_status_code = n, sr_body = b\<rparr>"
    using inv assms(4) by (cases "j = i") auto
  then show "replayed_from web calls (ph(i := p)) j \<lparr>sr_status_code = n, sr_body = b\<rparr>"
    using change by (rule replayed_from_update)
next
  fix j n a
  assume "(ph(i := p)) j = Answered (Inr (Reply n a))"
  then show "n = 202" "a = call_accepted (calls j)" using inv assms(3) by (auto split: if_splits)
qed

lemma key_step_replies_ok:
  assumes "key_step web calls s s'" and "keys_ok web calls s" and "replies_ok web calls s"
  shows "replies_ok web calls s'"
  using assms(1)
proof cases
  case (turned_away ph i r E S)
  show ?thesis
    unfolding turned_away(2)
  proof (rule replies_ok_update [OF assms(3) [unfolded turned_away(1)]])
    fix n b
    assume "Answered r = Answered (Inr (JSONResponse n b))"
    then obtain k where k: "call_key (calls i) = Some k" "E k = Some \<lparr>ie_fingerprint = call_fingerprint web (calls i),
        ie_response = Some \<lparr>sr_status_code = n, sr_body = b\<rparr>\<rparr>" using turned_away(5) by auto
    from completed_entry [OF assms(2,3) [unfolded turned_away(1)] k(2)] k(1)
    show "replayed_from web calls ph i \<lparr>sr_status_code = n, sr_body = b\<rparr>" unfolding replayed_from_def by metis
  qed (use turned_away(3,4) in auto)
next
  case (completed ph i E' E S)
  show ?thesis
    unfolding completed(2) using completed(3)
    by (intro replies_ok_update [OF assms(3) [unfolded completed(1)]]) simp_all
qed (use assms(3) in \<open>auto simp del: replies_ok.simps intro: replies_ok_update\<close>)

lemma call_input_inj: "inj (\<lambda>i. call_id (calls i)) \<Longrightarrow> call_input (calls i) = call_input (calls j) \<longleftrightarrow> i = j"
  by (auto simp: call_input_def dest: injD)

text \<open>A request moves on, and with it at most its own saga is added.\<close>

lemma sagas_ok_update:
  assumes inv: "sagas_ok calls (E, ph, S)" and inj: "inj (\<lambda>i. call_id (calls i))"
    and kept: "has_started (ph i) \<or> has_raised (ph i) \<Longrightarrow> S' = S \<and> (has_started p \<or> has_raised p)"
    and new: "S' = S \<or> S' = S @ [call_input (calls i)] \<and> (has_started p \<or> has_raised p)"
    and started: "has_started p \<Longrightarrow> has_started (ph i) \<or> S' = S @ [call_input (calls i)]"
  shows "sagas_ok calls (E', ph(i := p), S')"
proof -
  have own: "call_input (calls i) \<in> set S \<Longrightarrow> has_started (ph i) \<or> has_raised (ph i)"
    using inv by (auto simp: call_input_inj [OF inj])
  have "distinct S'" using inv new own kept by auto
  moreover have "\<forall>j. has_started ((ph(i := p)) j) \<longrightarrow> call_input (calls j) \<in> set S'"
    using inv new started by auto
  moreover have "\<exists>j. d = call_input (calls j) \<and> (has_started ((ph(i := p)) j) \<or> has_raised ((ph(i := p)) j))"
    if "d \<in> set S'" for d
  proof (cases "d = call_input (calls i)")
    case True
    then have "has_started p \<or> has_raised p" using that new own kept by auto
    with True show ?thesis by (intro exI [of _ i]) simp
  next
    case False
    then have "d \<in> set S" using that new by auto
    with inv obtain j where "d = call_input (calls j)" "has_started (ph j) \<or> has_raised (ph j)" by auto
    with False show ?thesis by (intro exI [of _ j]) auto
  qed
  ultimately show ?thesis by simp
qed

lemma key_step_sagas_ok:
  assumes "key_step web calls s s'" and "sagas_ok calls s" and "inj (\<lambda>i. call_id (calls i))"
  shows "sagas_ok calls s'"
  using assms(1)
proof cases
  case (turned_away ph i r E S)
  have "\<not> has_started (Answered r)" using turned_away(4) by (auto split: sum.splits http_reply.splits)
  then show ?thesis
    unfolding turned_away(2) using turned_away(3)
    by (intro sagas_ok_update [OF assms(2) [unfolded turned_away(1)] assms(3)]) auto
next
  case (idle E ph S)
  then show ?thesis using assms(2) by simp
qed (use assms(2,3) in \<open>auto simp del: sagas_ok.simps intro!: sagas_ok_update\<close>)

lemma key_steps_ok:
  assumes "(key_step web calls)\<^sup>*\<^sup>* s s'" and "inj (\<lambda>i. call_id (calls i))"
    and "keys_ok web calls s" and "replies_ok web calls s" and "sagas_ok calls s"
  shows "keys_ok web calls s' \<and> replies_ok web calls s' \<and> sagas_ok calls s'"
  using assms(1)
proof (induction rule: rtranclp_induct)
  case (step s1 s2)
  then show ?case using key_step_keys_ok key_step_replies_ok key_step_sagas_ok [OF step.hyps(2) _ assms(2)] by blast
qed (use assms(3-5) in simp)

text \<open>What the invariant says to a client of the route.\<close>

lemma one_saga:
  assumes "keys_ok web calls (E, ph, S)" and "replies_ok web calls (E, ph, S)" and "sagas_ok calls (E, ph, S)"
    and "inj (\<lambda>i. call_id (calls i))"
  shows "call_input (calls i) \<in> set S \<Longrightarrow> \<not> has_raised (ph i) \<Longrightarrow> has_started (ph i)"
    and "call_key (calls i) = Some k \<Longrightarrow> call_key (calls j) = Some k \<Longrightarrow> call_input (calls i) \<in> set S \<Longrightarrow>
      call_input (calls j) \<in> set S \<Longrightarrow> \<not> has_raised (ph i) \<Longrightarrow> \<not> has_raised (ph j) \<Longrightarrow> i = j"
    and "ph i = Answered (Inr (JSONResponse n b)) \<Longrightarrow> \<exists>j. call_key (calls j) = call_key (calls i) \<and>
      call_fingerprint web (calls j) = call_fingerprint web (calls i) \<and> call_input (calls j) \<in> set S \<and>
      ph j = Answered (Inr (Reply 202 (call_accepted (calls j)))) \<and>
      n = 202 \<and> b = web_dump_accepted web (call_accepted (calls j))"
proof -
  show mem: "has_started (ph i)" if "call_input (calls i) \<in> set S" "\<not> has_raised (ph i)" for i
    using assms(3) that by (auto simp: call_input_inj [OF assms(4)])
  show "i = j" if "call_key (calls i) = Some k" "call_key (calls j) = Some k" "call_input (calls i) \<in> set S"
    "call_input (calls j) \<in> set S" "\<not> has_raised (ph i)" "\<not> has_raised (ph j)"
    using assms(1) that(1,2) has_started_active [OF mem [OF that(3,5)]] has_started_active [OF mem [OF that(4,6)]]
    unfolding keys_ok.simps by blast
  show "\<exists>j. call_key (calls j) = call_key (calls i) \<and> call_fingerprint web (calls j) = call_fingerprint web (calls i) \<and>
      call_input (calls j) \<in> set S \<and> ph j = Answered (Inr (Reply 202 (call_accepted (calls j)))) \<and>
      n = 202 \<and> b = web_dump_accepted web (call_accepted (calls j))"
    if "ph i = Answered (Inr (JSONResponse n b))"
  proof -
    have "replayed_from web calls ph i \<lparr>sr_status_code = n, sr_body = b\<rparr>" using assms(2) that by simp
    then obtain j where j: "call_key (calls j) = call_key (calls i)"
      "call_fingerprint web (calls j) = call_fingerprint web (calls i)"
      "ph j = Answered (Inr (Reply 202 (call_accepted (calls j))))"
      "\<lparr>sr_status_code = n, sr_body = b\<rparr> = call_response web (calls j)" unfolding replayed_from_def by metis
    then have "call_input (calls j) \<in> set S" using assms(3) by simp
    with j show ?thesis by (intro exI [of _ j]) (simp add: call_response_def)
  qed
qed

context gateway_log
begin

lemma requests_ok:
  assumes "ctx_idempotency ctx = memory_idempotency" and "ctx_gateway ctx = gateway" and "inj (\<lambda>i. call_id (calls i))"
    and "\<And>k. aw_idempotency w0 (k, TRANSFER_ROUTE) = None" and "started (aw_gateway w0) = []"
    and "(create_step web ctx calls)\<^sup>*\<^sup>* (w0, \<lambda>_. Arrived) c"
  shows "keys_ok web calls (key_view started c) \<and> replies_ok web calls (key_view started c) \<and>
    sagas_ok calls (key_view started c)"
proof -
  have "(key_step web calls)\<^sup>*\<^sup>* (key_view started (w0, \<lambda>_. Arrived)) (key_view started c)"
    using assms(6)
    by (induction rule: rtranclp_induct) (auto intro: rtranclp.rtrancl_into_rtrancl create_step_refines [OF assms(1,2)])
  then show ?thesis
    by (rule key_steps_ok [OF _ assms(3)]) (simp_all add: key_view_def assms(4,5))
qed

end

section \<open>Properties\<close>

text \<open>
  C14. One saga per key: let any number of \<open>create_transfer\<close> requests run concurrently, interleaved at
  their awaits in any way, against a service that may also lose the acknowledgement of a start. At
  every moment each saga started belongs to one request and was started once. Of all requests with the
  same key at most one has started a saga without raising. A request that is turned away with a
  problem, still waits for its key, or replays has started none; one that is accepted with 202 has;
  and a replayed answer is the one of an accepted request under the same key and with the same
  fingerprint. (A request that raised may have started a saga nobody learns of; then the key is free
  again.) The route itself is one such run of its phases.
\<close>

theorem one_saga_per_key:
  assumes "temporal_service client workflows" and "ctx_gateway ctx = temporal_gateway client queue"
    and "ctx_idempotency ctx = memory_idempotency" and "inj (\<lambda>i. call_id (calls i))"
    and "\<forall>k. aw_idempotency w0 (k, TRANSFER_ROUTE) = None" and "workflows (aw_gateway w0) = []"
    and run: "(create_step web ctx calls)\<^sup>*\<^sup>* (w0, \<lambda>_. Arrived) (w, ph)"
  shows "let sagas = map snd (workflows (aw_gateway w)); started = \<lambda>i. call_input (calls i) \<in> set sagas;
        raised = \<lambda>i. \<exists>e. ph i = Raised e \<or> ph i = Answered (Inl e) in
     distinct sagas \<and> (\<forall>d \<in> set sagas. \<exists>i. d = call_input (calls i)) \<and>
     (\<forall>i j k. call_key (calls i) = Some k \<and> call_key (calls j) = Some k \<and> started i \<and> started j \<and>
        \<not> raised i \<and> \<not> raised j \<longrightarrow> i = j) \<and>
     (\<forall>i. ph i \<in> {Arrived, Claimed} \<or> (\<exists>n p. ph i = Answered (Inr (Problem n p))) \<or>
        (\<exists>n b. ph i = Answered (Inr (JSONResponse n b))) \<longrightarrow> \<not> started i) \<and>
     (\<forall>i n a. ph i = Answered (Inr (Reply n a)) \<longrightarrow>
        started i \<and> n = 202 \<and> a = \<lparr>ta_transfer_id = call_id (calls i), ta_status = ''initiated''\<rparr>) \<and>
     (\<forall>i n b. ph i = Answered (Inr (JSONResponse n b)) \<longrightarrow>
        (\<exists>j. call_key (calls j) = call_key (calls i) \<and> call_fingerprint web (calls j) = call_fingerprint web (calls i) \<and>
           started j \<and> ph j = Answered (Inr (Reply 202 (call_accepted (calls j)))) \<and>
           n = 202 \<and> b = web_dump_accepted web (call_accepted (calls j)))) \<and>
     (\<forall>i r w'. ph i = Arrived \<and> create_transfer web ctx (call_id (calls i)) (call_body (calls i)) (call_key (calls i))
          (call_traceparent (calls i)) w = (r, w') \<longrightarrow>
        (create_step web ctx calls)\<^sup>*\<^sup>* (w0, \<lambda>_. Arrived) (w', ph(i := Answered r)))"
proof -
  define sagas where "sagas = map snd (workflows (aw_gateway w))"
  note gw = temporal_service.temporal_gateway_log [OF assms(1), of queue]
  obtain E where ok: "keys_ok web calls (E, ph, sagas)" "replies_ok web calls (E, ph, sagas)" "sagas_ok calls (E, ph, sagas)"
    using gateway_log.requests_ok [OF gw assms(3,2,4) _ _ run] assms(5,6) by (auto simp: key_view_def sagas_def)
  note one = one_saga [OF ok assms(4)]
  have raised: "has_raised (ph i) \<longleftrightarrow> (\<exists>e. ph i = Raised e \<or> ph i = Answered (Inl e))" for i
    by (cases "ph i") (auto simp: isl_def)
  have idle: "call_input (calls i) \<notin> set sagas" if "\<not> has_started (ph i)" "\<not> has_raised (ph i)" for i
    using one(1) that by blast
  have "distinct sagas \<and> (\<forall>d \<in> set sagas. \<exists>i. d = call_input (calls i))" using ok(3) by auto
  moreover have "\<forall>i. ph i \<in> {Arrived, Claimed} \<or> (\<exists>n p. ph i = Answered (Inr (Problem n p))) \<or>
      (\<exists>n b. ph i = Answered (Inr (JSONResponse n b))) \<longrightarrow> call_input (calls i) \<notin> set sagas"
    using idle by fastforce
  moreover have "\<forall>i n a. ph i = Answered (Inr (Reply n a)) \<longrightarrow> call_input (calls i) \<in> set sagas \<and> n = 202 \<and>
      a = \<lparr>ta_transfer_id = call_id (calls i), ta_status = ''initiated''\<rparr>"
    using ok(2,3) by (simp add: call_accepted_def)
  moreover note one(2,3) create_transfer_phases [THEN rtranclp_trans [OF run]]
  ultimately show ?thesis unfolding Let_def sagas_def [symmetric] raised [symmetric] by blast
qed

lemma plain_create_transfer:
  fixes w :: plain_api
  assumes "ct_source_account_id body \<noteq> ct_destination_account_id body" and "currency_ok (ct_currency body)"
  shows "aw_idempotency w (key, TRANSFER_ROUTE) = None \<Longrightarrow> aw_gateway w = [] \<Longrightarrow>
      create_transfer plain_web plain_context tid body (Some key) tp w =
        (Inr (Reply 202 \<lparr>ta_transfer_id = tid, ta_status = ''initiated''\<rparr>),
         w\<lparr>aw_idempotency := (aw_idempotency w)((key, TRANSFER_ROUTE) \<mapsto> \<lparr>ie_fingerprint = ''digest'', ie_response =
             Some \<lparr>sr_status_code = 202, sr_body = JObj [(''transfer_id'', JStr (str_uuid tid))]\<rparr>\<rparr>),
           aw_gateway := [(workflow_id tid, call_input \<lparr>call_id = tid, call_body = body, call_key = Some key, call_traceparent = tp\<rparr>)]\<rparr>)"
    and "aw_idempotency w (key, TRANSFER_ROUTE) = Some \<lparr>ie_fingerprint = ''digest'', ie_response = Some \<lparr>sr_status_code = n, sr_body = b\<rparr>\<rparr> \<Longrightarrow>
      create_transfer plain_web plain_context tid body (Some key) tp w = (Inr (JSONResponse n b), w)"
  using assms
  by (simp_all add: create_transfer_def claim_key_def claim_reply_def discarding_def complete_key_def at_idempotency_def
      at_gateway_def memory_idempotency_def memory_claim_def memory_complete_def bindM_def catchM_def start_transfer_def
      Money_def temporal_gateway_def plain_client_def call_input_def transfer_fingerprint_def plain_web_def Let_def)

theorem one_saga_per_key_witness:
  "\<exists>w1 w2 :: plain_api. let body = \<lparr>ct_source_account_id = 1, ct_destination_account_id = 2, ct_amount = 5, ct_currency = ''USD''\<rparr> in
     create_transfer plain_web plain_context 7 body (Some ''k'') None (plain_world []) =
       (Inr (Reply 202 \<lparr>ta_transfer_id = 7, ta_status = ''initiated''\<rparr>), w1) \<and>
     create_transfer plain_web plain_context 8 body (Some ''k'') None w1 =
       (Inr (JSONResponse 202 (JObj [(''transfer_id'', JStr (str_uuid 7))])), w2) \<and>
     ti_transfer_id ` set (map snd (aw_gateway w2)) = {7}"
proof -
  let ?body = "\<lparr>ct_source_account_id = 1, ct_destination_account_id = 2, ct_amount = 5, ct_currency = ''USD''\<rparr>"
  define calls where "calls = (\<lambda>b. \<lparr>call_id = if b then 7 else 8, call_body = ?body, call_key = Some ''k'', call_traceparent = None\<rparr>)"
  have calls [simp]: "call_id (calls b) = (if b then 7 else 8)" "call_body (calls b) = ?body" "call_key (calls b) = Some ''k''"
    "call_traceparent (calls b) = None" for b by (simp_all add: calls_def)
  have "currency_ok ''USD''" by (simp add: currency_ok_def)
  then obtain w1 w2 where w1: "create_transfer plain_web plain_context 7 ?body (Some ''k'') None (plain_world []) =
       (Inr (Reply 202 \<lparr>ta_transfer_id = 7, ta_status = ''initiated''\<rparr>), w1)"
    and w2: "create_transfer plain_web plain_context 8 ?body (Some ''k'') None w1 =
       (Inr (JSONResponse 202 (JObj [(''transfer_id'', JStr (str_uuid 7))])), w2)"
    using plain_create_transfer [of ?body] by simp
  let ?run = "(create_step plain_web plain_context calls)\<^sup>*\<^sup>* (plain_world [], \<lambda>_. Arrived)"
  have inj: "inj (\<lambda>b. call_id (calls b))" by (auto simp: inj_def)
  note one = one_saga_per_key [OF plain_temporal.temporal_service_axioms plain_context_sel(4,2) inj, of "plain_world []"]
  have phases: "?run (w', ph(i := Answered r))" if "?run (w, ph)" "ph i = Arrived"
    "create_transfer plain_web plain_context (call_id (calls i)) ?body (Some ''k'') None w = (r, w')" for w w' ph i r
    using one [OF _ _ that(1)] that(2,3) by (simp add: Let_def)
  let ?ph = "((\<lambda>_. Arrived)(True := Answered (Inr (Reply 202 \<lparr>ta_transfer_id = 7, ta_status = ''initiated''\<rparr>))))
      (False := Answered (Inr (JSONResponse 202 (JObj [(''transfer_id'', JStr (str_uuid 7))]))))"
  have run: "?run (w2, ?ph)"
    by (rule phases [OF phases [OF rtranclp.rtrancl_refl]]) (use w1 w2 in simp_all)
  define sagas where "sagas = map snd (aw_gateway w2)"
  note all = one [OF _ _ run, simplified plain_world_sel, unfolded Let_def, folded sagas_def, OF allI, OF refl refl]
  have reply: "?ph True = Answered (Inr (Reply 202 \<lparr>ta_transfer_id = 7, ta_status = ''initiated''\<rparr>))" by simp
  have True: "call_input (calls True) \<in> set sagas"
    using all [THEN conjunct2, THEN conjunct2, THEN conjunct2, THEN conjunct2, THEN conjunct1] reply by blast
  have False: "call_input (calls False) \<notin> set sagas"
    using all [THEN conjunct2, THEN conjunct2, THEN conjunct2, THEN conjunct1, THEN spec [of _ False]] by simp
  have "d = call_input (calls True)" if "d \<in> set sagas" for d
  proof -
    obtain i where i: "d = call_input (calls i)" using all [THEN conjunct2, THEN conjunct1] \<open>d \<in> set sagas\<close> by blast
    with False \<open>d \<in> set sagas\<close> show ?thesis by (cases i) simp_all
  qed
  with True have "set sagas = {call_input (calls True)}" by blast
  then have "ti_transfer_id ` set sagas = {ti_transfer_id (call_input (calls True))}" by (simp only: image_insert image_empty)
  then have "ti_transfer_id ` set (map snd (aw_gateway w2)) = {7}"
    by (simp add: sagas_def call_input_def)
  with w1 w2 show ?thesis by (auto simp: Let_def)
qed

text \<open>
  C39. A lost answer starts two sagas: if starting the workflow took effect but the answer was lost,
  the route discards the key and raises; the client's retry under the same key mints a new
  identifier, so the service has nothing to recognise it by, and a second saga for the same accounts
  and amount is started and accepted.
\<close>

theorem ambiguous_start_starts_two_sagas:
  fixes tid tid' body key tp
  defines "d \<equiv> call_input \<lparr>call_id = tid, call_body = body, call_key = Some key, call_traceparent = tp\<rparr>"
    and "d' \<equiv> call_input \<lparr>call_id = tid', call_body = body, call_key = Some key, call_traceparent = tp\<rparr>"
  assumes "ctx_gateway ctx = temporal_gateway client queue" and "ctx_idempotency ctx = memory_idempotency"
    and "ct_source_account_id body \<noteq> ct_destination_account_id body" and "currency_ok (ct_currency body)"
    and "aw_idempotency w (key, TRANSFER_ROUTE) = None"
    and "tc_start_workflow client d (workflow_id tid) queue (aw_gateway w) = (Inl e, g')"
    and "workflows g' = workflows (aw_gateway w) @ [(workflow_id tid, d)]"
    and "tc_start_workflow client d' (workflow_id tid') queue g' = (Inr (), g'')"
    and "workflows g'' = workflows g' @ [(workflow_id tid', d')]"
  shows "\<exists>w1 w2. create_transfer web ctx tid body (Some key) tp w = (Inl e, w1) \<and>
     create_transfer web ctx tid' body (Some key) tp w1 = (Inr (Reply 202 \<lparr>ta_transfer_id = tid', ta_status = ''initiated''\<rparr>), w2) \<and>
     workflows (aw_gateway w2) = workflows (aw_gateway w) @ [(workflow_id tid, d), (workflow_id tid', d')]"
proof -
  have "create_transfer web ctx tid body (Some key) tp w = (Inl e, w\<lparr>aw_gateway := g'\<rparr>)"
    using assms
    by (simp add: create_transfer_def claim_key_def claim_reply_def discarding_def discard_key_def at_idempotency_def
        at_gateway_def memory_idempotency_def memory_claim_def memory_discard_def bindM_def catchM_def start_transfer_def
        Money_def temporal_gateway_def call_input_def fun_upd_idem)
  moreover obtain w2 where "create_transfer web ctx tid' body (Some key) tp (w\<lparr>aw_gateway := g'\<rparr>) =
      (Inr (Reply 202 \<lparr>ta_transfer_id = tid', ta_status = ''initiated''\<rparr>), w2)" "aw_gateway w2 = g''"
    using assms
    by (simp add: create_transfer_def claim_key_def claim_reply_def discarding_def complete_key_def at_idempotency_def
        at_gateway_def memory_idempotency_def memory_claim_def memory_complete_def bindM_def catchM_def start_transfer_def
        Money_def temporal_gateway_def call_input_def Let_def)
  ultimately show ?thesis using assms(9,11) by auto
qed

text \<open>A client whose first answer is lost.\<close>

definition lossy_client :: "(string \<times> transfer_input) list temporal_client" where
  "lossy_client =
     \<lparr>tc_start_workflow = \<lambda>d wid q g. (if g = [] then Inl (InfrastructureError ''timeout'') else Inr (), g @ [(wid, d)]),
      tc_signal = \<lambda>_ _. returnM (), tc_check_health = returnM True\<rparr>"

theorem ambiguous_start_starts_two_sagas_witness:
  "let ctx = plain_context\<lparr>ctx_gateway := temporal_gateway lossy_client ''ledger''\<rparr>;
       body = \<lparr>ct_source_account_id = 1, ct_destination_account_id = 2, ct_amount = 5, ct_currency = ''USD''\<rparr>
   in \<exists>w1 w2. create_transfer plain_web ctx 7 body (Some ''k'') None (plain_world []) = (Inl (InfrastructureError ''timeout''), w1) \<and>
     create_transfer plain_web ctx 8 body (Some ''k'') None w1 =
       (Inr (Reply 202 \<lparr>ta_transfer_id = 8, ta_status = ''initiated''\<rparr>), w2) \<and>
     map (ti_transfer_id \<circ> snd) (aw_gateway w2) = [7, 8]"
proof -
  let ?ctx = "plain_context\<lparr>ctx_gateway := temporal_gateway lossy_client ''ledger''\<rparr>"
  let ?body = "\<lparr>ct_source_account_id = 1, ct_destination_account_id = 2, ct_amount = 5, ct_currency = ''USD''\<rparr>"
  let ?d = "\<lambda>tid. call_input \<lparr>call_id = tid, call_body = ?body, call_key = Some ''k'', call_traceparent = None\<rparr>"
  have "currency_ok ''USD''" by (simp add: currency_ok_def)
  then have "\<exists>w1 w2. create_transfer plain_web ?ctx 7 ?body (Some ''k'') None (plain_world []) = (Inl (InfrastructureError ''timeout''), w1) \<and>
     create_transfer plain_web ?ctx 8 ?body (Some ''k'') None w1 =
       (Inr (Reply 202 \<lparr>ta_transfer_id = 8, ta_status = ''initiated''\<rparr>), w2) \<and>
     aw_gateway w2 = aw_gateway (plain_world []) @ [(workflow_id 7, ?d 7), (workflow_id 8, ?d 8)]"
    by (intro ambiguous_start_starts_two_sagas [where workflows = "\<lambda>g. g" and client = lossy_client and queue = "''ledger''"
          and g' = "[(workflow_id 7, ?d 7)]" and g'' = "[(workflow_id 7, ?d 7), (workflow_id 8, ?d 8)]"])
      (simp_all add: lossy_client_def)
  then show ?thesis unfolding Let_def by (fastforce simp: call_input_def)
qed

end
