(* ===== verification/Service.thy ===== *)
theory Service
  imports Application Workflow
begin

text \<open>
  The running service: any sequence of requests to the application and of activities executed by the
  worker, on the in-memory stores. The invariant \<open>service_ok\<close> says that the log is a consistent
  ledger and that the read models have absorbed exactly the events before their checkpoint; every
  step keeps it. From it follows that the endpoint that reads the projection and the endpoint that
  loads the aggregate always answer the same, and that the ledger balances at all times.
\<close>

section \<open>Reading routes\<close>

context ledger_log
begin

lemma keeps_reads [intro]:
  "keeps evolves (es_load_stream store st sid)" "keeps evolves (es_read_all store p n)"
proof -
  have "evolves s s'" if "es_load_stream store st sid s = (r, s')" for s r s'
    using load_log [OF _ that] by (intro evolvesI) (auto simp: ok_def dest: rely_steps)
  then show "keeps evolves (es_load_stream store st sid)" by (metis keeps_def surjective_pairing)
  have "evolves s s'" if "es_read_all store p n s = (r, s')" for s r s'
    using read_log [OF _ that] by (intro evolvesI) (auto simp: ok_def dest: rely_steps)
  then show "keeps evolves (es_read_all store p n)" by (metis keeps_def surjective_pairing)
qed

lemma keeps_load_transfer_or_404 [intro]: "keeps evolves (load_transfer_or_404 repos tid)"
  unfolding load_transfer_or_404_def repositories
  by (intro keeps_evolves trf.keeps_load) (auto split: option.splits)

lemma keeps_other_routes:
  assumes "ctx_repositories ctx = repos" and "ctx_store ctx = store"
  shows "keeps (on_stores evolves) (create_transfer web ctx tid tbody key tp)"
    and "keeps (on_stores evolves) (resolve_transfer ctx tid resolution)"
    and "keeps (on_stores evolves) (get_transfer ctx tid)"
    and "keeps (on_stores evolves) (get_transfer_events ctx tid limit offset)"
    and "keeps (on_stores evolves) (get_events ctx aid limit offset)"
    and "keeps (on_stores evolves) (read_events ctx from_position limit)"
proof -
  note gw = keeps_at(3) [OF evolves_refl]
  have body: "keeps (on_stores evolves) (bindM (claim_key ctx key TRANSFER_ROUTE fp msg) (\<lambda>early. case early of
      Some reply \<Rightarrow> returnM reply
    | None \<Rightarrow> bindM (discarding ctx key TRANSFER_ROUTE (at_gateway m)) (\<lambda>_.
        bindM (complete_key ctx key TRANSFER_ROUTE 202 b) (\<lambda>_. returnM (Reply 202 a)))))" for fp msg m b a
  proof (intro keeps_world(4) keeps_idempotency)
    fix early
    show "keeps (on_stores evolves) (case early of Some reply \<Rightarrow> returnM reply
      | None \<Rightarrow> bindM (discarding ctx key TRANSFER_ROUTE (at_gateway m)) (\<lambda>_.
          bindM (complete_key ctx key TRANSFER_ROUTE 202 b) (\<lambda>_. returnM (Reply 202 a))))"
      by (cases early) (simp_all only: option.case, intro keeps_world(4) keeps_world(1) keeps_idempotency gw, rule keeps_world(1))
  qed
  show "keeps (on_stores evolves) (create_transfer web ctx tid tbody key tp)"
  proof (cases "ct_source_account_id tbody = ct_destination_account_id tbody")
    case True
    show ?thesis unfolding create_transfer_def if_P [OF True] by (rule keeps_world(2))
  next
    case False
    show ?thesis unfolding create_transfer_def if_not_P [OF False] Let_def by (rule body)
  qed
  show "keeps (on_stores evolves) (resolve_transfer ctx tid resolution)"
    unfolding resolve_transfer_def assms by (intro keeps_world(4) keeps_at(1) keeps_load_transfer_or_404) (auto intro: gw)
  show "keeps (on_stores evolves) (get_transfer ctx tid)"
    unfolding get_transfer_def assms by auto
  show "keeps (on_stores evolves) (get_transfer_events ctx tid limit offset)"
    unfolding get_transfer_events_def assms by (intro keeps_world(4) keeps_at(1) keeps_reads) auto
  show "keeps (on_stores evolves) (get_events ctx aid limit offset)"
    unfolding get_events_def assms by (intro keeps_world(4) keeps_at(1) keeps_reads keeps_load_or_404) auto
  show "keeps (on_stores evolves) (read_events ctx from_position limit)"
    unfolding read_events_def assms by (intro keeps_world(4) keeps_at(1) keeps_reads) auto
qed

lemma keeps_readyz: "ctx_store ctx = store \<Longrightarrow> keeps (on_stores evolves) (readyz ctx)"
  unfolding readyz_def
  by (simp only:, intro keeps_world(5) keeps_world(4) keeps_at(1) keeps_at(3) [OF evolves_refl] keeps_reads)
    (auto split: if_splits)

end

section \<open>The service\<close>

text \<open>One request served, with whatever key and whatever result, or one activity executed by the worker.\<close>

inductive service_step ::
  "runtime \<Rightarrow> web \<Rightarrow> ('s, 'i, 'g) app_context \<Rightarrow> ('s, 'i, 'g) api_world \<Rightarrow> ('s, 'i, 'g) api_world \<Rightarrow> bool"
  for rt web ctx where
  request: "serve web page cfg ctx x_api_key call w = Some (out, w') \<Longrightarrow> service_step rt web ctx w w'"
| activity: "call_ok act \<Longrightarrow> at_store (run_activity rt (ctx_repositories ctx) act) w = (v, w') \<Longrightarrow> service_step rt web ctx w w'"

definition service_ok :: "runtime \<Rightarrow> (event_list, 'i, 'g) api_world \<Rightarrow> bool" where
  "service_ok rt w \<longleftrightarrow> ledger_ok rt (aw_store w) \<and> models_synced (\<lambda>s. s) memory_invar rt (aw_models w)"

lemma service_ok_invar:
  assumes "codec_round_trip rt" and "codec_amount_fields rt" and "service_ok rt w"
  shows "memory_invar (aw_store w)"
  using assms(3) synced_tail.synced_def [OF read_models_tail [OF memory_event_log assms(1,2)]]
  by (simp add: service_ok_def)

text \<open>A program over the repositories moves the ledger and leaves the read models behind, but in step.\<close>

lemma service_ok_writes:
  assumes codec: "codec_round_trip rt" "codec_amount_fields rt" and "service_ok rt w"
    and "keeps (on_stores (ledger_log.evolves rt (\<lambda>s. s) memory_invar)) m" and "m w = (r, w')"
  shows "service_ok rt w'"
proof -
  note tail = read_models_tail [OF memory_shared.event_log_axioms codec]
  note lg = memory_ledger_log [OF codec(1)]
  have inv: "memory_invar (aw_store w)" by (rule service_ok_invar [OF codec assms(3)])
  from keepsD [OF assms(4,5)] have ev: "ledger_log.evolves rt (\<lambda>s. s) memory_invar (aw_store w) (aw_store w')"
    and same: "tw_checkpoints (aw_models w') = tw_checkpoints (aw_models w)" "tw_sink (aw_models w') = tw_sink (aw_models w)"
    by (simp_all add: on_stores_def)
  have models: "aw_models w' = (aw_models w)\<lparr>tw_store := aw_store w'\<rparr>"
    using same by (intro tail_world.equality) simp_all
  have ok: "memory_invar (aw_store w') \<and> ledger_ok rt (aw_store w') \<and> ledger_steps rt (aw_store w) (aw_store w')"
    using ev inv assms(3) by (simp add: ledger_log.evolves_def [OF lg] ledger_log.ok_def [OF lg] service_ok_def)
  moreover have "models_synced (\<lambda>s. s) memory_invar rt ((aw_models w)\<lparr>tw_store := aw_store w'\<rparr>)"
    using assms(3) ok ledger_steps_grow
    by (intro synced_tail.synced_stable [OF tail])
      (auto simp: service_ok_def cursor_tail.tail_log_def [OF synced_tail.axioms(1) [OF tail]])
  ultimately show ?thesis using models by (simp add: service_ok_def)
qed

text \<open>A query catches up.\<close>

lemma service_ok_query:
  assumes codec: "codec_round_trip rt" "codec_amount_fields rt" and "service_ok rt w"
  obtains models where "catch_up (read_models_runner rt (memory_store rt ledger_registry) ledger_registry) (aw_models w) =
      Some (Inr (), models)" and "tw_store models = aw_store w" and "service_ok rt (w\<lparr>aw_models := models\<rparr>)"
    and "models_of rt (tw_sink models) (aw_store w)"
  using memory_synced_catch_up [OF codec] assms(3) by (auto simp: service_ok_def)

lemma get_balance_answers:
  assumes codec: "codec_round_trip rt" "codec_amount_fields rt" and "service_ok rt w"
    and "ctx_read_models ctx = read_models_runner rt (memory_store rt ledger_registry) ledger_registry"
  shows "\<exists>w'. get_balance ctx aid w = Some (case account_at rt (aw_store w) aid of
        None \<Rightarrow> Inl (DomainError NotFound (''account '' @ str_uuid aid @ '' not found''))
      | Some a \<Rightarrow> Inr (Reply 200 (account_response_of aid a)), w') \<and>
    aw_store w' = aw_store w \<and> service_ok rt w'"
proof -
  obtain models where "catch_up (ctx_read_models ctx) (aw_models w) = Some (Inr (), models)" "tw_store models = aw_store w"
    "service_ok rt (w\<lparr>aw_models := models\<rparr>)" "models_of rt (tw_sink models) (aw_store w)"
    using service_ok_query [OF assms(1-3)] assms(4) by metis
  then show ?thesis
    by (auto simp: get_balance_def read_models_balance_of_def balance_of_models account_view_def account_response_of_def
        abv_total_def split: option.splits)
qed

lemma get_account_answers:
  assumes "codec_round_trip rt" "codec_amount_fields rt" and "service_ok rt w" and "ctx_repositories ctx = memory_repositories rt"
  shows "get_account ctx aid w = (case account_at rt (aw_store w) aid of
        None \<Rightarrow> Inl (DomainError NotFound (''account '' @ str_uuid aid @ '' not found''))
      | Some a \<Rightarrow> Inr (Reply 200 (account_response_of aid a)), w)"
proof -
  note seq = memory_sequential_ledger [OF assms(1)] and lg = memory_ledger_log [OF assms(1)]
  have "ledger_log.ok rt (\<lambda>s. s) memory_invar (aw_store w)"
    using service_ok_invar [OF assms(1-3)] assms(3) by (simp add: memory_ok [OF assms(1)] service_ok_def)
  from sequential_ledger.load_at(1) [OF seq this, of aid, folded ledger_log.repositories [OF lg]]
  show ?thesis
    by (auto simp: get_account_def load_or_404_def at_store_def bindM_def assms(4) split: option.splits)
qed

lemma get_statement_ok:
  assumes codec: "codec_round_trip rt" "codec_amount_fields rt" and "service_ok rt w"
    and ctx: "ctx_repositories ctx = memory_repositories rt"
      "ctx_read_models ctx = read_models_runner rt (memory_store rt ledger_registry) ledger_registry"
    and "get_statement ctx aid limit offset w = Some (q, w')"
  shows "service_ok rt w'"
proof -
  note lg = memory_ledger_log [OF codec(1)]
  obtain r w1 where load: "at_store (load_or_404 (ctx_repositories ctx) aid) w = (r, w1)" by fastforce
  have "keeps (on_stores (ledger_log.evolves rt (\<lambda>s. s) memory_invar)) (at_store (load_or_404 (ctx_repositories ctx) aid) ::
      ((event_list, 'a, 'b) api_world, exn, account) action)"
    unfolding ctx(1) by (rule keeps_at(1) [OF ledger_log.keeps_load_or_404 [OF lg]])
  then have ok: "service_ok rt w1" using load by (rule service_ok_writes [OF codec assms(3)])
  obtain models where "catch_up (ctx_read_models ctx) (aw_models w1) = Some (Inr (), models)"
    "service_ok rt (w1\<lparr>aw_models := models\<rparr>)"
    using service_ok_query [OF codec ok] ctx(2) by metis
  with assms(6) load ok show ?thesis
    by (cases r) (auto simp: get_statement_def read_models_statement_of_def)
qed

lemma run_call_ok:
  assumes codec: "codec_round_trip rt" "codec_amount_fields rt" and ok: "service_ok rt w"
    and run: "run_call web page (build_context rt (memory_store rt ledger_registry) ledger_registry gateway idem) call w =
      Some (r, w')" (is "run_call _ _ ?ctx _ _ = _")
  shows "service_ok rt w'"
proof -
  have ctx: "ctx_repositories ?ctx = memory_repositories rt" "ctx_store ?ctx = memory_store rt ledger_registry"
    "ctx_read_models ?ctx = read_models_runner rt (memory_store rt ledger_registry) ledger_registry"
    by (simp_all add: build_context_def)
  note lg = memory_ledger_log [OF codec(1)]
  note writes = service_ok_writes [OF codec ok]
  note written =
    writes [OF ledger_log.keeps_open_account [OF lg ctx(1)]] writes [OF ledger_log.keeps_account_routes(1) [OF lg ctx(1)]]
    writes [OF ledger_log.keeps_account_routes(2) [OF lg ctx(1)]] writes [OF ledger_log.keeps_account_routes(3) [OF lg ctx(1)]]
    writes [OF ledger_log.keeps_account_routes(4) [OF lg ctx(1)]] writes [OF ledger_log.keeps_other_routes(1) [OF lg ctx(1,2)]]
    writes [OF ledger_log.keeps_other_routes(2) [OF lg ctx(1,2)]] writes [OF ledger_log.keeps_other_routes(3) [OF lg ctx(1,2)]]
    writes [OF ledger_log.keeps_other_routes(4) [OF lg ctx(1,2)]] writes [OF ledger_log.keeps_other_routes(5) [OF lg ctx(1,2)]]
    writes [OF ledger_log.keeps_other_routes(6) [OF lg ctx(1,2)]] writes [OF ledger_log.keeps_readyz [OF lg ctx(2)]]
  show ?thesis
  proof (cases call)
    case (GetBalance aid)
    with run get_balance_answers [OF codec ok ctx(3), of aid] show ?thesis by (auto simp: as_body_eq)
  next
    case (GetStatement aid limit offset)
    with run show ?thesis by (auto simp: as_body_eq intro: get_statement_ok [OF codec ok ctx(1,3)])
  qed (use run ok in \<open>auto simp only: run_call.simps option.inject as_body_eq prod.inject dest!: written\<close>)
qed

lemma service_step_ok:
  assumes codec: "codec_round_trip rt" "codec_amount_fields rt" "set_order_ok rt"
    and "service_step rt web (build_context rt (memory_store rt ledger_registry) ledger_registry gateway idem) w w'"
      (is "service_step _ _ ?ctx _ _")
    and ok: "service_ok rt w"
  shows "service_ok rt w'"
  using assms(4)
proof cases
  case (request page cfg header call out)
  then show ?thesis by (cases rule: serve_cases) (use ok run_call_ok [OF codec(1,2) ok] in auto)
next
  case (activity act v)
  have "ctx_repositories ?ctx = memory_repositories rt" by (simp add: build_context_def)
  with ledger_log.keeps_run_activity [OF memory_ledger_log [OF codec(1)] codec(3) activity(1)]
  have "keeps (ledger_log.evolves rt (\<lambda>s. s) memory_invar) (run_activity rt (ctx_repositories ?ctx) act)" by simp
  then show ?thesis using activity(2) by (intro service_ok_writes [OF codec(1,2) ok keeps_at(1)])
qed

lemma service_reachable_ok:
  assumes "codec_round_trip rt" and "codec_amount_fields rt" and "set_order_ok rt"
    and "ctx = build_context rt (memory_store rt ledger_registry) ledger_registry gateway idem"
    and "aw_models w0 = read_models_init []" and "(service_step rt web ctx)\<^sup>*\<^sup>* w0 w"
  shows "service_ok rt w"
proof -
  have "models_synced (\<lambda>s. s) memory_invar rt (read_models_init [])"
    by (rule reachable_synced [OF memory_event_log assms(1,2)]) (rule read_models_reachable.created, rule memory_invar_Nil)
  then have "service_ok rt w0" by (simp add: service_ok_def assms(5))
  with assms(6) show ?thesis
    by (induction rule: rtranclp_induct) (auto simp: assms(4) intro: service_step_ok [OF assms(1-3)])
qed

section \<open>Properties\<close>

text \<open>
  C19. One truth: whatever requests the application has served, with whatever keys, and whatever
  activities the worker has executed since it started on an empty store, in any order,
  \<open>GET /accounts/{id}/balance\<close>, which reads the projection, terminates and is answered exactly as
  \<open>GET /accounts/{id}\<close>, which replays the aggregate, is for the same key, 404 and 401 included;
  neither changes the log; and the ledger balances in every currency.
\<close>

theorem balance_endpoint_agrees_with_account_endpoint:
  assumes "codec_round_trip rt" and "codec_amount_fields rt" and "set_order_ok rt"
    and "ctx = build_context rt (memory_store rt ledger_registry) ledger_registry gateway idem"
    and "aw_models w0 = read_models_init []" and "(service_step rt web ctx)\<^sup>*\<^sup>* w0 w"
  shows "\<exists>out w'. serve web page cfg ctx x_api_key (GetAccount aid) w = Some (out, w) \<and>
    serve web page cfg ctx x_api_key (GetBalance aid) w = Some (out, w') \<and> aw_store w' = aw_store w \<and>
    currency_net c (posted_legs rt (aw_store w)) = 0"
proof -
  note ok = service_reachable_ok [OF assms]
  have net: "currency_net c (posted_legs rt (aw_store w)) = 0"
    using ok posted_legs_balance by (simp add: service_ok_def)
  obtain r w' where "get_account ctx aid w = (r, w)" "get_balance ctx aid w = Some (r, w')" "aw_store w' = aw_store w"
    using get_balance_answers [OF assms(1,2) ok, of ctx aid] get_account_answers [OF assms(1,2) ok, of ctx aid]
    by (auto simp: assms(4) build_context_def)
  with net show ?thesis by (auto simp: serve_def Let_def as_body_def split: auth_outcome.splits)
qed

lemma plain_open_account:
  "\<exists>log a. open_account plain_context 5 \<lparr>oa_currency = ''USD''\<rparr> None (plain_world []) =
     (Inr (Reply 201 (account_response_of 5 a)), plain_world log) \<and> plain_memory.ok log \<and>
     account_at plain_runtime log 5 = Some (stored_account a) \<and> acc_status a = OPEN \<and> acc_currency a = ''USD'' \<and>
     amount (acc_available a) = 0 \<and> amount (acc_reserved a) = 0"
proof -
  obtain x where x: "account_open 5 ''USD'' = Inr x" by (simp add: account_open_eq_Inr)
  let ?v = "view_of plain_runtime []" and ?x = "x\<lparr>agg_pending := []\<rparr>"
  have "plain_memory.runs_to (save_account (memory_repositories plain_runtime) 5 None x) ?v (Inr ?x) (put_account 5 x ?v)"
    unfolding save_account_def plain_memory.repositories
    by (rule plain_memory.runs_to_save_new_account_result [OF _ x]) (auto simp: account_at_def)
  moreover have "plain_memory.ok []" by (simp add: plain_memory.ok_def memory_invar_Nil)
  ultimately obtain log where log: "save_account (memory_repositories plain_runtime) 5 None x [] = (Inr ?x, log)"
    "plain_memory.ok log" "view_of plain_runtime log = put_account 5 x ?v" unfolding plain_memory.runs_to_def by blast
  have "account_at plain_runtime log = lv_accounts (put_account 5 x ?v)" by (metis log(3) view_of_sel(1))
  then have "account_at plain_runtime log 5 = Some (stored_account ?x)" by (simp add: stored_account_def)
  moreover have "open_account plain_context 5 \<lparr>oa_currency = ''USD''\<rparr> None (plain_world []) =
     (Inr (Reply 201 (account_response_of 5 ?x)), plain_world log)"
    using x log(1) by (simp add: open_account_def at_store_def bindM_def plain_world_def read_models_init_def)
  ultimately show ?thesis
    using x log(2) by (intro exI [of _ log] exI [of _ ?x]) (auto simp: account_open_eq_Inr account_init_def)
qed

text \<open>A history: one account is opened, with the default key.\<close>

definition plain_ask :: "api_call \<Rightarrow> plain_api \<Rightarrow> (served \<times> plain_api) option" where
  "plain_ask = serve plain_web [] default_settings plain_context (Some ''dev-local-key'')"

lemma plain_ask_run: "plain_ask call w = map_option (\<lambda>(r, w'). (served_of r, w')) (run_call plain_web [] plain_context call w)"
proof -
  have "require_api_key (api_key default_settings) (Some ''dev-local-key'') = Admitted"
    by (simp add: default_settings_def require_api_key_def is_ascii_def)
  then show ?thesis by (simp add: plain_ask_def serve_def)
qed

lemma plain_history:
  obtains log a where "plain_ask (OpenAccount 5 \<lparr>oa_currency = ''USD''\<rparr> None) (plain_world []) =
      Some (Answered (Reply 201 (AccountBody (account_response_of 5 a))), plain_world log)"
    and "(service_step plain_runtime plain_web plain_context)\<^sup>*\<^sup>* (plain_world []) (plain_world log)"
    and "plain_memory.ok log" "account_at plain_runtime log 5 = Some (stored_account a)"
    and "account_response_of 5 a = \<lparr>ar_account_id = 5, ar_currency = ''USD'', ar_status = OPEN, ar_available = 0,
      ar_reserved = 0, ar_total = 0\<rparr>"
proof -
  from plain_open_account obtain log a where opened: "open_account plain_context 5 \<lparr>oa_currency = ''USD''\<rparr> None (plain_world []) =
      (Inr (Reply 201 (account_response_of 5 a)), plain_world log)"
    and log: "plain_memory.ok log" "account_at plain_runtime log 5 = Some (stored_account a)"
    and a: "acc_status a = OPEN" "acc_currency a = ''USD''" "amount (acc_available a) = 0" "amount (acc_reserved a) = 0" by blast
  have first: "plain_ask (OpenAccount 5 \<lparr>oa_currency = ''USD''\<rparr> None) (plain_world []) =
      Some (Answered (Reply 201 (AccountBody (account_response_of 5 a))), plain_world log)"
    using opened by (simp add: plain_ask_run as_body_def served_of_def)
  then have "(service_step plain_runtime plain_web plain_context)\<^sup>*\<^sup>* (plain_world []) (plain_world log)"
    unfolding plain_ask_def by (intro r_into_rtranclp service_step.request)
  then show ?thesis by (rule that [OF first _ log]) (simp add: account_response_of_def a)
qed

theorem balance_endpoint_agrees_with_account_endpoint_witness:
  "\<exists>w w'. let r = \<lparr>ar_account_id = 5, ar_currency = ''USD'', ar_status = OPEN, ar_available = 0, ar_reserved = 0, ar_total = 0\<rparr> in
     plain_ask (OpenAccount 5 \<lparr>oa_currency = ''USD''\<rparr> None) (plain_world []) = Some (Answered (Reply 201 (AccountBody r)), w) \<and>
     plain_ask (GetAccount 5) w = Some (Answered (Reply 200 (AccountBody r)), w) \<and>
     plain_ask (GetBalance 5) w = Some (Answered (Reply 200 (AccountBody r)), w')"
proof -
  obtain log a where first: "plain_ask (OpenAccount 5 \<lparr>oa_currency = ''USD''\<rparr> None) (plain_world []) =
      Some (Answered (Reply 201 (AccountBody (account_response_of 5 a))), plain_world log)"
    and steps: "(service_step plain_runtime plain_web plain_context)\<^sup>*\<^sup>* (plain_world []) (plain_world log)"
    and log: "plain_memory.ok log" "account_at plain_runtime log 5 = Some (stored_account a)"
    and a: "account_response_of 5 a = \<lparr>ar_account_id = 5, ar_currency = ''USD'', ar_status = OPEN, ar_available = 0,
      ar_reserved = 0, ar_total = 0\<rparr>" by (rule plain_history)
  from balance_endpoint_agrees_with_account_endpoint [OF _ _ _ plain_context_def _ steps, of "[]" default_settings
      "Some ''dev-local-key''" 5 "''USD''"]
  obtain out w' where out: "plain_ask (GetAccount 5) (plain_world log) = Some (out, plain_world log)"
    "plain_ask (GetBalance 5) (plain_world log) = Some (out, w')" unfolding plain_ask_def by auto
  have "get_account plain_context 5 (plain_world log) = (Inr (Reply 200 (account_response_of 5 a)), plain_world log)"
    using plain_memory.load_at(1) [OF log(1), of 5] log(2)
    by (simp add: get_account_def load_or_404_def at_store_def bindM_def plain_memory.repositories account_response_of_def plain_world_def
        read_models_init_def)
  with out(1) have "out = Answered (Reply 200 (AccountBody (account_response_of 5 a)))"
    by (simp add: plain_ask_run as_body_def served_of_def)
  with first out a show ?thesis by (auto simp: Let_def)
qed

text \<open>
  C20. The log is well typed: after any sequence of requests and activities, every envelope in the
  log carries the name of an event class, its payload deserialises to an event of that class whose
  amounts are \<open>Money\<close> values with a valid currency code, and the event belongs to the bounded context
  whose stream it is on.
\<close>

theorem service_log_well_typed:
  assumes "codec_round_trip rt" and "codec_amount_fields rt" and "set_order_ok rt"
    and "ctx = build_context rt (memory_store rt ledger_registry) ledger_registry gateway idem"
    and "aw_models w0 = read_models_init []" and "(service_step rt web ctx)\<^sup>*\<^sup>* w0 w" and "s \<in> set (aw_store w)"
  shows "\<exists>e. decode_stored rt ledger_registry s = Inr e \<and> event_ok e \<and>
    se_event_type s = class_name (class_of e) \<and> se_stream_type s = event_stream e"
proof -
  have "runtime_codec rt" using assms(1) by unfold_locales
  moreover have "ledger_ok rt (aw_store w)" using service_reachable_ok [OF assms(1-6)] by (simp add: service_ok_def)
  ultimately show ?thesis using assms(7) by (elim runtime_codec.ledger_ok_typed) auto
qed

theorem service_log_well_typed_witness:
  "\<exists>out w s e. plain_ask (OpenAccount 5 \<lparr>oa_currency = ''USD''\<rparr> None) (plain_world []) = Some (out, w) \<and> s \<in> set (aw_store w) \<and>
     decode_stored plain_runtime ledger_registry s = Inr e \<and> event_ok e \<and> se_stream_type s = event_stream e"
proof -
  obtain log a where first: "plain_ask (OpenAccount 5 \<lparr>oa_currency = ''USD''\<rparr> None) (plain_world []) =
      Some (Answered (Reply 201 (AccountBody (account_response_of 5 a))), plain_world log)"
    and steps: "(service_step plain_runtime plain_web plain_context)\<^sup>*\<^sup>* (plain_world []) (plain_world log)"
    and at: "account_at plain_runtime log 5 = Some (stored_account a)" by (rule plain_history)
  have "log \<noteq> []" using at by (auto simp: account_at_def stream_events_def stream_of_def)
  then obtain s where s: "s \<in> set log" using hd_in_set by blast
  from service_log_well_typed [OF _ _ _ plain_context_def _ steps, of s] s first show ?thesis by auto
qed

end
