(* ===== verification/Postgres.thy ===== *)
theory Postgres
  imports Tailing
begin

text \<open>
  The durable store: \<open>PostgresEventStore\<close> of \<^verbatim>\<open>src/src/ledger/eventstore/postgres.py\<close> with its table
  (\<^verbatim>\<open>src/src/ledger/eventstore/schema.py\<close>).
  The database is a parameter, a record with one action per statement the code executes. What
  Postgres documents of them is the locale \<open>event_database\<close>: a transaction sees the committed rows
  and its own, the advisory lock keeps other appends out until commit or rollback, identity values
  grow, the unique constraint holds, a commit whose answer is lost may or may not have happened. The
  store is shown to satisfy the contract \<open>event_log\<close> of the protocol, so everything proved of a
  store with other clients holds of it. A JSON object is a dict, whose key order nothing here
  depends on, so a JSONB column gives back the value that was stored.
\<close>

section \<open>Rows\<close>

text \<open>A row of \<open>events\<close>; the metadata column holds an object.\<close>

record event_row =
  row_global_position :: int
  row_event_id :: uuid
  row_stream_type :: string
  row_stream_id :: uuid
  row_version :: int
  row_event_type :: string
  row_schema_version :: int
  row_payload :: json_object
  row_metadata :: "(string \<times> json) list option"
  row_occurred_at :: int

definition metadata_to_json :: "event_metadata \<Rightarrow> (string \<times> json) list" where
  "metadata_to_json md =
     [(''correlation_id'', case md_correlation_id md of None \<Rightarrow> JNull | Some u \<Rightarrow> JStr (str_uuid u)),
      (''causation_id'', case md_causation_id md of None \<Rightarrow> JNull | Some u \<Rightarrow> JStr (str_uuid u)),
      (''traceparent'', case md_traceparent md of None \<Rightarrow> JNull | Some t \<Rightarrow> JStr t)]"

text \<open>\<open>data.get(key)\<close> as a text or \<open>None\<close>; the column holds nothing else.\<close>

definition get_text :: "(string \<times> json) list \<Rightarrow> string \<Rightarrow> string option result" where
  "get_text data key =
     (case map_of data key of
        None \<Rightarrow> Inr None
      | Some JNull \<Rightarrow> Inr None
      | Some (JStr t) \<Rightarrow> Inr (Some t)
      | Some _ \<Rightarrow> Inl TypeError)"

definition get_uuid :: "(string \<times> json) list \<Rightarrow> string \<Rightarrow> uuid option result" where
  "get_uuid data key =
     bindE (get_text data key) (\<lambda>t.
       case t of
         None \<Rightarrow> Inr None
       | Some t \<Rightarrow> if t = [] then Inr None else bindE (UUID t) (\<lambda>u. Inr (Some u)))"

definition metadata_from_json :: "(string \<times> json) list option \<Rightarrow> event_metadata result" where
  "metadata_from_json raw =
     (case raw of
        None \<Rightarrow> Inr empty_metadata
      | Some data \<Rightarrow>
          bindE (get_uuid data ''correlation_id'') (\<lambda>correlation.
          bindE (get_uuid data ''causation_id'') (\<lambda>causation.
          bindE (get_text data ''traceparent'') (\<lambda>traceparent.
            Inr \<lparr>md_correlation_id = correlation, md_causation_id = causation, md_traceparent = traceparent\<rparr>))))"

definition to_stored :: "event_row \<Rightarrow> stored_event result" where
  "to_stored row =
     bindE (metadata_from_json (row_metadata row)) (\<lambda>md.
       Inr \<lparr>se_global_position = row_global_position row, se_event_id = row_event_id row,
            se_stream_type = row_stream_type row, se_stream_id = row_stream_id row, se_version = row_version row,
            se_event_type = row_event_type row, se_schema_version = row_schema_version row,
            se_payload = row_payload row, se_metadata = md, se_occurred_at = row_occurred_at row\<rparr>)"

section \<open>The event store\<close>

definition APPEND_LOCK_KEY :: int where
  "APPEND_LOCK_KEY = 0x1ED6E12A11000001"

text \<open>
  The statements: begin, commit and rollback of \<open>conn.transaction()\<close>, the advisory lock, the maximal
  version, the insert (its answer is the returned position and time, or that the unique constraint
  was violated), the two selects; and \<open>new_event_id()\<close>.
\<close>

datatype insert_answer = Inserted int int | UniqueViolation

record 'd event_statements =
  ev_begin :: "('d, exn, unit) action"
  ev_commit :: "('d, exn, unit) action"
  ev_rollback :: "('d, exn, unit) action"
  ev_lock :: "int \<Rightarrow> ('d, exn, unit) action"
  ev_version :: "string \<Rightarrow> uuid \<Rightarrow> ('d, exn, int) action"
  ev_insert :: "uuid \<Rightarrow> string \<Rightarrow> uuid \<Rightarrow> int \<Rightarrow> string \<Rightarrow> int \<Rightarrow> json_object \<Rightarrow> json_object \<Rightarrow>
    ('d, exn, insert_answer) action"
  ev_stream :: "string \<Rightarrow> uuid \<Rightarrow> ('d, exn, event_row list) action"
  ev_from :: "int \<Rightarrow> int \<Rightarrow> ('d, exn, event_row list) action"
  ev_new_id :: "('d, exn, uuid) action"

text \<open>\<open>async with conn.transaction()\<close>: an exception rolls back and goes on, otherwise commit.\<close>

definition transaction :: "'d event_statements \<Rightarrow> ('d, exn, 'a) action \<Rightarrow> ('d, exn, 'a) action" where
  "transaction db body =
     bindM (ev_begin db) (\<lambda>_.
     bindM (catchM body (\<lambda>e. bindM (ev_rollback db) (\<lambda>_. raiseM e))) (\<lambda>x.
     bindM (ev_commit db) (\<lambda>_. returnM x)))"

primrec pg_append_loop ::
  "runtime \<Rightarrow> 'd event_statements \<Rightarrow> event_registry \<Rightarrow> string \<Rightarrow> uuid \<Rightarrow> int \<Rightarrow> event_metadata \<Rightarrow> int \<Rightarrow>
   domain_event list \<Rightarrow> ('d, exn, stored_event list) action" where
  "pg_append_loop rt db reg st sid expected md offset [] = returnM []"
| "pg_append_loop rt db reg st sid expected md offset (e # es) =
     (let version = expected + offset
      in bindM (ev_new_id db) (\<lambda>event_id.
         bindM (liftE (name_for reg e)) (\<lambda>name.
         bindM (liftE (schema_version_for reg e)) (\<lambda>schema.
         bindM (ev_insert db event_id st sid version name schema (serialize rt e) (metadata_to_json md)) (\<lambda>answer.
         case answer of
           UniqueViolation \<Rightarrow> raiseM (ConcurrencyConflict st sid expected version)
         | Inserted position at \<Rightarrow>
             bindM (pg_append_loop rt db reg st sid expected md (offset + 1) es) (\<lambda>rest.
             returnM (\<lparr>se_global_position = position, se_event_id = event_id, se_stream_type = st, se_stream_id = sid,
                 se_version = version, se_event_type = name, se_schema_version = schema, se_payload = serialize rt e,
                 se_metadata = md, se_occurred_at = at\<rparr> # rest)))))))"

definition pg_append ::
  "runtime \<Rightarrow> 'd event_statements \<Rightarrow> event_registry \<Rightarrow> string \<Rightarrow> uuid \<Rightarrow> int \<Rightarrow> domain_event list \<Rightarrow>
   event_metadata \<Rightarrow> ('d, exn, stored_event list) action" where
  "pg_append rt db reg st sid expected es md =
     transaction db (
       bindM (ev_lock db APPEND_LOCK_KEY) (\<lambda>_.
       bindM (ev_version db st sid) (\<lambda>current.
       if current \<noteq> expected then raiseM (ConcurrencyConflict st sid expected current)
       else pg_append_loop rt db reg st sid expected md 1 es)))"

definition pg_load_stream :: "'d event_statements \<Rightarrow> string \<Rightarrow> uuid \<Rightarrow> ('d, exn, stored_event list) action" where
  "pg_load_stream db st sid = bindM (ev_stream db st sid) (\<lambda>rows. liftE (mapE to_stored rows))"

definition pg_read_all :: "'d event_statements \<Rightarrow> int \<Rightarrow> int \<Rightarrow> ('d, exn, stored_event list) action" where
  "pg_read_all db from_position limit = bindM (ev_from db from_position limit) (\<lambda>rows. liftE (mapE to_stored rows))"

definition pg_store :: "runtime \<Rightarrow> 'd event_statements \<Rightarrow> event_registry \<Rightarrow> 'd event_store" where
  "pg_store rt db reg =
     \<lparr>es_append = pg_append rt db reg, es_load_stream = pg_load_stream db, es_read_all = pg_read_all db\<rparr>"

section \<open>Metadata come back\<close>

lemma metadata_round_trip [simp]: "metadata_from_json (Some (metadata_to_json md)) = Inr md"
  by (cases md) (auto simp: metadata_from_json_def metadata_to_json_def get_uuid_def get_text_def split: option.splits)

section \<open>What the database promises\<close>

definition stored_of :: "event_row \<Rightarrow> stored_event" where
  "stored_of row = projr (to_stored row)"

definition rows_ok :: "event_row list \<Rightarrow> bool" where
  "rows_ok rows \<longleftrightarrow> (\<forall>row \<in> set rows. \<exists>s. to_stored row = Inr s)"

definition row_in_stream :: "string \<Rightarrow> uuid \<Rightarrow> event_row \<Rightarrow> bool" where
  "row_in_stream st sid row \<longleftrightarrow> row_stream_type row = st \<and> row_stream_id row = sid"

text \<open>What other clients may have done to the committed rows.\<close>

definition disturbed :: "(event_list \<Rightarrow> event_list \<Rightarrow> bool) \<Rightarrow> event_row list \<Rightarrow> event_row list \<Rightarrow> bool" where
  "disturbed rely rows rows' \<longleftrightarrow> (rows_ok rows \<longrightarrow> rows_ok rows') \<and> rely (map stored_of rows) (map stored_of rows')"

text \<open>The connection: idle, in a transaction, or in one that holds the lock and has inserted rows.\<close>

datatype tx_state = Idle | Open | Locked "event_row list"

locale event_database =
  fixes db :: "'d event_statements" and rows :: "'d \<Rightarrow> event_row list" and tx :: "'d \<Rightarrow> tx_state"
    and rely :: "event_list \<Rightarrow> event_list \<Rightarrow> bool"
  assumes others_refl: "rely l l"
    and others_trans: "rely l l' \<Longrightarrow> rely l' l'' \<Longrightarrow> rely l l''"
    and others_append: "rely l l' \<Longrightarrow> \<exists>ss. l' = l @ ss"
    and others_wf: "rely l l' \<Longrightarrow> log_wf l \<Longrightarrow> log_wf l'"
    and begin_tx: "tx d = Idle \<Longrightarrow> ev_begin db d = (r, d') \<Longrightarrow>
      disturbed rely (rows d) (rows d') \<and> tx d' = (if r = Inr () then Open else Idle)"
    and take_lock: "tx d = Open \<Longrightarrow> ev_lock db APPEND_LOCK_KEY d = (r, d') \<Longrightarrow>
      disturbed rely (rows d) (rows d') \<and> tx d' = (if r = Inr () then Locked [] else Open)"
    and roll_back: "tx d \<noteq> Idle \<Longrightarrow> ev_rollback db d = (r, d') \<Longrightarrow>
      disturbed rely (rows d) (rows d') \<and> tx d' = Idle"
    and commit_tx: "tx d = Locked new \<Longrightarrow> ev_commit db d = (r, d') \<Longrightarrow>
      tx d' = Idle \<and> (rows d' = rows d @ new \<or> rows d' = rows d \<and> r \<noteq> Inr ())"
    and max_version: "tx d = Locked new \<Longrightarrow> ev_version db st sid d = (rv, d') \<Longrightarrow>
      rows d' = rows d \<and> tx d' = Locked new \<and>
      (\<forall>v. rv = Inr v \<longrightarrow> v = py_max (map row_version (filter (row_in_stream st sid) (rows d @ new))) 0)"
    and fresh_id: "ev_new_id db d = (ru, d') \<Longrightarrow> rows d' = rows d \<and> tx d' = tx d"
    and insert_row: "tx d = Locked new \<Longrightarrow> ev_insert db eid st sid v name schema payload md d = (ri, d') \<Longrightarrow>
      rows d' = rows d \<and>
      (case ri of
         Inr (Inserted pos at) \<Rightarrow> 0 < pos \<and> (\<forall>x \<in> set (rows d @ new). row_global_position x < pos) \<and>
           tx d' = Locked (new @ [\<lparr>row_global_position = pos, row_event_id = eid, row_stream_type = st, row_stream_id = sid,
             row_version = v, row_event_type = name, row_schema_version = schema, row_payload = payload,
             row_metadata = Some md, row_occurred_at = at\<rparr>])
       | Inr UniqueViolation \<Rightarrow> tx d' = Locked new \<and>
           (\<exists>x \<in> set (rows d @ new). row_in_stream st sid x \<and> row_version x = v)
       | Inl e \<Rightarrow> tx d' = Locked new)"
    and select_stream: "tx d = Idle \<Longrightarrow> ev_stream db st sid d = (rr, d') \<Longrightarrow>
      tx d' = Idle \<and> disturbed rely (rows d) (rows d') \<and>
      (\<forall>rs. rr = Inr rs \<longrightarrow> rs = sort_key row_version (filter (row_in_stream st sid) (rows d')))"
    and select_from: "tx d = Idle \<Longrightarrow> ev_from db p n d = (rr, d') \<Longrightarrow>
      tx d' = Idle \<and> disturbed rely (rows d) (rows d') \<and>
      (\<forall>rs. rr = Inr rs \<longrightarrow> 0 \<le> n \<and>
         rs = take (nat n) (sort_key row_global_position (filter (\<lambda>x. p < row_global_position x) (rows d'))))"
begin

definition pg_log :: "'d \<Rightarrow> event_list" where
  "pg_log d = map stored_of (rows d)"

definition pg_invar :: "'d \<Rightarrow> bool" where
  "pg_invar d \<longleftrightarrow> tx d = Idle \<and> rows_ok (rows d) \<and> log_wf (pg_log d)"

lemma disturbed_invar:
  "disturbed rely (rows d) (rows d') \<Longrightarrow> rows_ok (rows d) \<and> log_wf (pg_log d) \<Longrightarrow>
     rows_ok (rows d') \<and> log_wf (pg_log d') \<and> rely (pg_log d) (pg_log d')"
  using others_wf by (auto simp: disturbed_def pg_log_def)

end

lemma stored_of_sel [simp]:
  assumes "to_stored row = Inr s"
  shows "stored_of row = s" "se_global_position s = row_global_position row" "se_version s = row_version row"
    "se_stream_type s = row_stream_type row" "se_stream_id s = row_stream_id row"
  using assms by (auto simp: stored_of_def to_stored_def result_iffs)

lemma rows_ok_simps [simp]:
  "rows_ok []" "rows_ok (xs @ ys) \<longleftrightarrow> rows_ok xs \<and> rows_ok ys" "rows_ok [row] \<longleftrightarrow> (\<exists>s. to_stored row = Inr s)"
  by (auto simp: rows_ok_def)

lemma rows_ok_stored:
  assumes "rows_ok rows"
  shows "mapE to_stored rows = Inr (map stored_of rows)" and "row \<in> set rows \<Longrightarrow> in_stream st sid (stored_of row) = row_in_stream st sid row"
    and "row \<in> set rows \<Longrightarrow> se_global_position (stored_of row) = row_global_position row"
    and "row \<in> set rows \<Longrightarrow> se_version (stored_of row) = row_version row"
  using assms by (auto simp: rows_ok_def in_stream_def row_in_stream_def intro!: mapE_Inr_map)

lemma rows_ok_filters:
  assumes "rows_ok rows"
  shows "stream_of st sid (map stored_of rows) = map stored_of (filter (row_in_stream st sid) rows)"
    and "filter (\<lambda>e. p < se_global_position e) (map stored_of rows) =
      map stored_of (filter (\<lambda>x. p < row_global_position x) rows)"
    and "current_version st sid (map stored_of rows) = py_max (map row_version (filter (row_in_stream st sid) rows)) 0"
proof -
  have eq: "filter (in_stream st sid \<circ> stored_of) rows = filter (row_in_stream st sid) rows"
    using rows_ok_stored(2) [OF assms] by (intro filter_cong) auto
  then show "stream_of st sid (map stored_of rows) = map stored_of (filter (row_in_stream st sid) rows)"
    by (simp add: stream_of_def filter_map)
  have "filter ((\<lambda>e. p < se_global_position e) \<circ> stored_of) rows = filter (\<lambda>x. p < row_global_position x) rows"
    using rows_ok_stored(3) [OF assms] by (intro filter_cong) auto
  then show "filter (\<lambda>e. p < se_global_position e) (map stored_of rows) =
      map stored_of (filter (\<lambda>x. p < row_global_position x) rows)" by (simp add: filter_map)
  have "map (se_version \<circ> stored_of) (filter (row_in_stream st sid) rows) = map row_version (filter (row_in_stream st sid) rows)"
    using rows_ok_stored(4) [OF assms] by (intro map_cong) auto
  with eq show "current_version st sid (map stored_of rows) = py_max (map row_version (filter (row_in_stream st sid) rows)) 0"
    by (simp only: current_version_def filter_map map_map)
qed

section \<open>The store satisfies the contract\<close>

context event_database
begin

text \<open>Inserting under the lock: the rows of the transaction grow, nothing is visible yet.\<close>

lemma append_loop:
  assumes "tx d = Locked new" and "rows_ok (rows d @ new)"
    and "pg_append_loop rt db ledger_registry st sid v md k es d = (r, d')"
  shows "rows d' = rows d \<and> (\<exists>more_rows. tx d' = Locked (new @ more_rows) \<and>
    (\<forall>ss. r = Inr ss \<longrightarrow> ss = map stored_of more_rows \<and> rows_ok more_rows \<and>
       extends_log rt st sid (v + k - 1) md (map stored_of (rows d @ new)) es ss))"
  using assms
proof (induction es arbitrary: k d new r d')
  case Nil
  then show ?case by (auto intro!: exI [of _ "[]"])
next
  case (Cons e es)
  obtain q1 d1 where id: "ev_new_id db d = (q1, d1)" by fastforce
  then have d1: "rows d1 = rows d" "tx d1 = Locked new" using fresh_id [OF id] Cons.prems(1) by simp_all
  show ?case
  proof (cases q1)
    case (Inl x)
    then show ?thesis using Cons.prems(3) id d1 by (auto simp: bindM_def Let_def intro!: exI [of _ "[]"])
  next
    case (Inr eid)
    obtain q2 d2 where ins: "ev_insert db eid st sid (v + k) (class_name (class_of e)) 1 (serialize rt e) (metadata_to_json md) d1 = (q2, d2)"
      by fastforce
    note row = insert_row [OF d1(2) ins]
    show ?thesis
    proof (cases "\<exists>pos at. q2 = Inr (Inserted pos at)")
      case False
      then have "rows d' = rows d2 \<and> tx d' = tx d2 \<and> isl r"
        using Cons.prems(3) id Inr ins
        by (cases q2) (auto simp: bindM_def Let_def split: insert_answer.splits)
      with False row d1 show ?thesis
        by (cases q2) (auto split: insert_answer.splits intro!: exI [of _ "[]"])
    next
      case True
      then obtain pos at where q2: "q2 = Inr (Inserted pos at)" by blast
      let ?row = "\<lparr>row_global_position = pos, row_event_id = eid, row_stream_type = st, row_stream_id = sid,
             row_version = v + k, row_event_type = class_name (class_of e), row_schema_version = 1, row_payload = serialize rt e,
             row_metadata = Some (metadata_to_json md), row_occurred_at = at\<rparr>"
      let ?s = "\<lparr>se_global_position = pos, se_event_id = eid, se_stream_type = st, se_stream_id = sid,
             se_version = v + k, se_event_type = class_name (class_of e), se_schema_version = 1, se_payload = serialize rt e,
             se_metadata = md, se_occurred_at = at\<rparr>"
      have st: "to_stored ?row = Inr ?s" by (simp add: to_stored_def)
      have d2: "rows d2 = rows d" "tx d2 = Locked (new @ [?row])" "0 < pos"
        and above: "\<forall>x \<in> set (rows d @ new). row_global_position x < pos"
        using row d1 by (auto simp: q2)
      obtain q3 d3 where rest: "pg_append_loop rt db ledger_registry st sid v md (k + 1) es d2 = (q3, d3)" by fastforce
      have r: "d' = d3" "r = map_sum id ((#) ?s) q3"
        using Cons.prems(3) id Inr ins q2 rest by (auto simp: bindM_def Let_def split: sum.splits)
      have ok: "rows_ok (rows d2 @ new @ [?row])" using Cons.prems(2) d2(1) st by simp
      from Cons.IH [OF d2(2) ok rest] obtain more_rows where d3: "rows d3 = rows d" "tx d3 = Locked (new @ ?row # more_rows)"
        and ext: "\<And>ss. q3 = Inr ss \<Longrightarrow> ss = map stored_of more_rows \<and> rows_ok more_rows \<and>
          extends_log rt st sid (v + (k + 1) - 1) md (map stored_of (rows d2 @ new @ [?row])) es ss" using d2(1) by auto
      have env: "envelope_of rt st sid (v + k - 1 + 1) md e ?s" by (simp add: envelope_of_def)
      have below: "\<forall>x \<in> set (map stored_of (rows d @ new)). se_global_position x < se_global_position ?s"
        using above rows_ok_stored(3) [OF Cons.prems(2)] by auto
      show ?thesis
      proof (intro conjI exI [of _ "?row # more_rows"] allI impI)
        show "rows d' = rows d" "tx d' = Locked (new @ ?row # more_rows)" using r d3 by simp_all
        fix ss assume "r = Inr ss"
        then obtain ss' where ss: "q3 = Inr ss'" "ss = ?s # ss'" using r(2) by (cases q3) auto
        with ext [OF ss(1)] st show "ss = map stored_of (?row # more_rows)" "rows_ok (?row # more_rows)"
          by (auto simp: rows_ok_def)
        show "extends_log rt st sid (v + k - 1) md (map stored_of (rows d @ new)) (e # es) ss"
          unfolding ss(2) extends_log.simps using ext [OF ss(1), THEN conjunct2, THEN conjunct2] env below d2(1,3) st
          by (intro conjI) simp_all
      qed
    qed
  qed
qed

end

context event_database
begin

lemma disturbed_trans: "disturbed rely x y \<Longrightarrow> disturbed rely y z \<Longrightarrow> disturbed rely x z"
  unfolding disturbed_def using others_trans by blast

text \<open>The body of the transaction: either it raises and nothing of it is visible, or it holds the lock.\<close>

lemma append_body:
  assumes "tx d = Open" and "rows_ok (rows d)"
    and "bindM (ev_lock db APPEND_LOCK_KEY) (\<lambda>_. bindM (ev_version db st sid) (\<lambda>current.
       if current \<noteq> v then raiseM (ConcurrencyConflict st sid v current)
       else pg_append_loop rt db ledger_registry st sid v md 1 es)) d = (q, d')" (is "?body d = _")
  shows "disturbed rely (rows d) (rows d') \<and> (isl q \<and> tx d' \<noteq> Idle \<or>
    (\<exists>new. q = Inr (map stored_of new) \<and> tx d' = Locked new \<and> rows_ok new \<and>
       current_version st sid (pg_log d') = v \<and> extends_log rt st sid v md (pg_log d') es (map stored_of new)))"
proof -
  obtain q1 d1 where lock: "ev_lock db APPEND_LOCK_KEY d = (q1, d1)" by fastforce
  note l = take_lock [OF assms(1) lock]
  show ?thesis
  proof (cases q1)
    case (Inl e)
    then show ?thesis using assms(3) lock l by (auto simp: bindM_def)
  next
    case (Inr u)
    have d1: "tx d1 = Locked []" "rows_ok (rows d1)" using l Inr assms(2) by (simp_all add: disturbed_def)
    obtain q2 d2 where ver: "ev_version db st sid d1 = (q2, d2)" by fastforce
    have d2: "rows d2 = rows d1" "tx d2 = Locked []" and q2: "\<And>n. q2 = Inr n \<Longrightarrow> n = current_version st sid (pg_log d1)"
      using max_version [OF d1(1) ver] rows_ok_filters(3) [OF d1(2)] by (auto simp: pg_log_def)
    show ?thesis
    proof (cases "q2 = Inr v")
      case False
      then have "isl q \<and> d' = d2" using assms(3) lock Inr ver by (cases q2) (auto simp: bindM_def)
      then show ?thesis using l d2 by auto
    next
      case True
      then have loop: "pg_append_loop rt db ledger_registry st sid v md 1 es d2 = (q, d')"
        using assms(3) lock Inr ver by (simp add: bindM_def)
      have "rows_ok (rows d2 @ [])" using d1(2) d2(1) by simp
      from append_loop [OF d2(2) this loop] obtain new where "rows d' = rows d1" "tx d' = Locked new"
        "\<And>ss. q = Inr ss \<Longrightarrow> ss = map stored_of new \<and> rows_ok new \<and> extends_log rt st sid v md (pg_log d') es ss"
        using d2(1) by (auto simp: pg_log_def)
      moreover from this have "pg_log d' = pg_log d1" by (simp add: pg_log_def)
      ultimately show ?thesis using l q2 [OF True] by (cases q) auto
    qed
  qed
qed

lemma append_transaction:
  assumes "pg_invar d" and "pg_append rt db ledger_registry st sid v es md d = (r, d')"
  shows "pg_invar d' \<and> (\<exists>l. rely (pg_log d) l \<and> log_wf l \<and> (pg_log d' = l \<and> (\<exists>e. r = Inl e) \<or>
    current_version st sid l = v \<and> (\<exists>ss. extends_log rt st sid v md l es ss \<and> pg_log d' = l @ ss \<and>
      (r = Inr ss \<or> (\<exists>e. r = Inl e)))))"
proof -
  have inv: "tx d = Idle" "rows_ok (rows d) \<and> log_wf (pg_log d)" using assms(1) by (simp_all add: pg_invar_def)
  have unchanged: ?thesis if "disturbed rely (rows d) (rows d')" "tx d' = Idle" "isl r"
    using disturbed_invar [OF that(1) inv(2)] that(2,3) by (auto simp: pg_invar_def isl_def)
  obtain q1 d1 where beg: "ev_begin db d = (q1, d1)" by fastforce
  note b = begin_tx [OF inv(1) beg]
  show ?thesis
  proof (cases q1)
    case (Inl e)
    then have d': "d' = d1" "isl r" using assms(2) beg by (auto simp: pg_append_def transaction_def bindM_def)
    show ?thesis by (rule unchanged) (use b Inl d' in simp_all)
  next
    case (Inr u)
    have d1: "tx d1 = Open" "rows_ok (rows d1)" using b Inr inv by (simp_all add: disturbed_def)
    let ?body = "bindM (ev_lock db APPEND_LOCK_KEY) (\<lambda>_. bindM (ev_version db st sid) (\<lambda>current.
       if current \<noteq> v then raiseM (ConcurrencyConflict st sid v current)
       else pg_append_loop rt db ledger_registry st sid v md 1 es))"
    obtain q d2 where body: "?body d1 = (q, d2)" by fastforce
    from append_body [OF d1 body] b have dis: "disturbed rely (rows d) (rows d2)"
      and or: "isl q \<and> tx d2 \<noteq> Idle \<or> (\<exists>new. q = Inr (map stored_of new) \<and> tx d2 = Locked new \<and> rows_ok new \<and>
       current_version st sid (pg_log d2) = v \<and> extends_log rt st sid v md (pg_log d2) es (map stored_of new))"
      using disturbed_trans by blast+
    note l = disturbed_invar [OF dis inv(2)]
    from or show ?thesis
    proof (elim disjE exE conjE)
      assume q: "isl q" "tx d2 \<noteq> Idle"
      obtain q3 d3 where rb: "ev_rollback db d2 = (q3, d3)" by fastforce
      have "d' = d3 \<and> isl r"
        using assms(2) beg Inr body q(1) rb
        by (cases q; cases q3) (auto simp: pg_append_def transaction_def bindM_def catchM_def)
      with roll_back [OF q(2) rb] have "disturbed rely (rows d2) (rows d')" "tx d' = Idle" "isl r" by auto
      then show ?thesis using disturbed_trans [OF dis] by - (rule unchanged)
    next
      fix new
      assume q: "q = Inr (map stored_of new)" "tx d2 = Locked new" "rows_ok new"
        and v: "current_version st sid (pg_log d2) = v"
        and ext: "extends_log rt st sid v md (pg_log d2) es (map stored_of new)"
      obtain q3 d3 where co: "ev_commit db d2 = (q3, d3)" by fastforce
      note c = commit_tx [OF q(2) co]
      have r: "d' = d3" "r = map_sum id (\<lambda>_. map stored_of new) q3"
        using assms(2) beg Inr body q(1) co
        by (cases q3; simp add: pg_append_def transaction_def bindM_def catchM_def)+
      have wf: "log_wf (pg_log d2 @ map stored_of new)" using l v ext by (intro extends_log_wf [OF _ _ ext]) auto
      from c show ?thesis
      proof (elim conjE disjE)
        assume "tx d3 = Idle" "rows d3 = rows d2 @ new"
        then have d3: "pg_invar d'" "pg_log d' = pg_log d2 @ map stored_of new"
          using l q(3) wf r(1) by (simp_all add: pg_invar_def pg_log_def)
        have "r = Inr (map stored_of new) \<or> (\<exists>e. r = Inl e)" using r(2) by (cases q3) auto
        with d3 l v ext show ?thesis by blast
      next
        assume "tx d3 = Idle" "rows d3 = rows d2" "q3 \<noteq> Inr ()"
        with dis r have "disturbed rely (rows d) (rows d')" "tx d' = Idle" "isl r" by (cases q3; simp)+
        then show ?thesis by - (rule unchanged)
      qed
    qed
  qed
qed

text \<open>The order of the selects is the order of the log.\<close>

lemma selected_in_order:
  assumes "rows_ok rs" and "log_wf (map stored_of rs)"
  shows "sort_key row_version (filter (row_in_stream st sid) rs) = filter (row_in_stream st sid) rs"
    and "sort_key row_global_position (filter (\<lambda>x. p < row_global_position x) rs) = filter (\<lambda>x. p < row_global_position x) rs"
proof -
  have "map row_version (filter (row_in_stream st sid) rs) = map se_version (stream_of st sid (map stored_of rs))"
    using rows_ok_stored(4) [OF assms(1)] by (simp add: rows_ok_filters(1) [OF assms(1)])
  also have "sorted \<dots>" using assms(2) by (auto simp: log_wf_def sorted_map sorted_wrt_map simp del: upt_Suc
      intro: sorted_wrt_mono_rel [OF _ sorted_wrt_upt])
  finally show "sort_key row_version (filter (row_in_stream st sid) rs) = filter (row_in_stream st sid) rs"
    by (rule sort_key_id_if_sorted)
  have "map row_global_position rs = map se_global_position (map stored_of rs)"
    using rows_ok_stored(3) [OF assms(1)] by simp
  then have "sorted (map row_global_position rs)"
    using assms(2) by (auto simp: log_wf_def simp del: map_map dest: strict_sorted_imp_sorted)
  then show "sort_key row_global_position (filter (\<lambda>x. p < row_global_position x) rs) = filter (\<lambda>x. p < row_global_position x) rs"
    by (intro sort_key_id_if_sorted sorted_filter)
qed

lemma rows_ok_subset: "rows_ok xs \<Longrightarrow> set ys \<subseteq> set xs \<Longrightarrow> rows_ok ys"
  by (auto simp: rows_ok_def)

lemma load_select:
  assumes "pg_invar d" and "pg_load_stream db st sid d = (r, d')"
  shows "pg_invar d' \<and> rely (pg_log d) (pg_log d') \<and> (\<forall>evs. r = Inr evs \<longrightarrow> evs = stream_of st sid (pg_log d'))"
proof -
  have inv: "tx d = Idle" "rows_ok (rows d) \<and> log_wf (pg_log d)" using assms(1) by (simp_all add: pg_invar_def)
  obtain q where sel: "ev_stream db st sid d = (q, d')"
    using assms(2) by (auto simp: pg_load_stream_def bindM_def split: prod.splits sum.splits)
  note s = select_stream [OF inv(1) sel]
  have l: "rows_ok (rows d')" "log_wf (pg_log d')" "rely (pg_log d) (pg_log d')"
    using disturbed_invar [OF _ inv(2)] s by blast+
  have "rows_ok (filter (row_in_stream st sid) (rows d'))" by (rule rows_ok_subset [OF l(1)]) auto
  then have "evs = stream_of st sid (pg_log d')" if "r = Inr evs" for evs
    using assms(2) sel s that selected_in_order(1) [OF l(1) l(2) [unfolded pg_log_def]] rows_ok_stored(1)
    by (cases q) (auto simp: pg_load_stream_def bindM_def pg_log_def rows_ok_filters(1) [OF l(1)])
  with l s show ?thesis by (auto simp: pg_invar_def)
qed

lemma read_select:
  assumes "pg_invar d" and "pg_read_all db p n d = (r, d')"
  shows "pg_invar d' \<and> rely (pg_log d) (pg_log d') \<and>
    (\<forall>evs. r = Inr evs \<longrightarrow> evs = py_take n (filter (\<lambda>e. p < se_global_position e) (pg_log d')))"
proof -
  have inv: "tx d = Idle" "rows_ok (rows d) \<and> log_wf (pg_log d)" using assms(1) by (simp_all add: pg_invar_def)
  obtain q where sel: "ev_from db p n d = (q, d')"
    using assms(2) by (auto simp: pg_read_all_def bindM_def split: prod.splits sum.splits)
  note s = select_from [OF inv(1) sel]
  have l: "rows_ok (rows d')" "log_wf (pg_log d')" "rely (pg_log d) (pg_log d')"
    using disturbed_invar [OF _ inv(2)] s by blast+
  let ?rs = "take (nat n) (filter (\<lambda>x. p < row_global_position x) (rows d'))"
  have "rows_ok ?rs" by (rule rows_ok_subset [OF l(1)]) (auto dest: in_set_takeD)
  then have "evs = py_take n (filter (\<lambda>e. p < se_global_position e) (pg_log d'))" if "r = Inr evs" for evs
    using assms(2) sel s that selected_in_order(2) [OF l(1) l(2) [unfolded pg_log_def]] rows_ok_stored(1) [of ?rs]
    by (cases q) (auto simp: pg_read_all_def bindM_def pg_log_def rows_ok_filters(2) [OF l(1)] py_take_take take_map)
  with l s show ?thesis by (auto simp: pg_invar_def)
qed

end

sublocale event_database \<subseteq> event_log rt "pg_store rt db ledger_registry" pg_log pg_invar rely for rt
proof
  fix d d' r st sid v es md
  assume inv: "pg_invar d" and app: "es_append (pg_store rt db ledger_registry) st sid v es md d = (r, d')"
  from append_transaction [OF inv app [unfolded pg_store_def event_store.select_convs]]
  show "pg_invar d'" and "\<exists>l. rely (pg_log d) l \<and> log_wf l \<and> (pg_log d' = l \<and> (\<exists>e. r = Inl e) \<or>
    current_version st sid l = v \<and> (\<exists>ss. extends_log rt st sid v md l es ss \<and> pg_log d' = l @ ss \<and>
      (r = Inr ss \<or> (\<exists>e. r = Inl e))))" by blast+
next
  fix d d' r evs st sid
  assume inv: "pg_invar d"
  note load = load_select [OF inv, of st sid]
  show "es_load_stream (pg_store rt db ledger_registry) st sid d = (r, d') \<Longrightarrow> pg_invar d' \<and> rely (pg_log d) (pg_log d')"
    "es_load_stream (pg_store rt db ledger_registry) st sid d = (Inr evs, d') \<Longrightarrow> evs = stream_of st sid (pg_log d')"
    unfolding pg_store_def event_store.select_convs using load by blast+
next
  fix d d' r evs p n
  assume inv: "pg_invar d"
  note read = read_select [OF inv, of p n]
  show "es_read_all (pg_store rt db ledger_registry) p n d = (r, d') \<Longrightarrow> pg_invar d' \<and> rely (pg_log d) (pg_log d')"
    "es_read_all (pg_store rt db ledger_registry) p n d = (Inr evs, d') \<Longrightarrow>
       evs = py_take n (filter (\<lambda>e. p < se_global_position e) (pg_log d'))"
    unfolding pg_store_def event_store.select_convs using read by blast+
qed (simp_all add: pg_invar_def others_refl others_append, rule others_trans)

context event_database
begin

lemma pg_event_log: "event_log rt (pg_store rt db ledger_registry) pg_log pg_invar rely"
  by unfold_locales

end

end
