(* ===== verification/Outbox.thy ===== *)
theory Outbox
  imports Tailing
begin

text \<open>
  The outbox relay, \<^verbatim>\<open>src/src/ledger/outbox/relay.py\<close>: the publishers, one round of the relay and the
  drain loop. The relay is the projection runner with one projector, the publisher, so it is a
  \<open>cursor_tail\<close>. The locale \<open>outbox\<close> adds a publisher that may fail before or after it delivered; the
  lemmas show at-least-once delivery in order under every failure, and exactly-once if none occurs.
\<close>

section \<open>Publishers\<close>

type_synonym 'x publisher = "'x projector"

record log_line =
  ll_global_position :: int
  ll_stream_type :: string
  ll_event_type :: string

definition log_line_of :: "stored_event \<Rightarrow> log_line" where
  "log_line_of e = \<lparr>ll_global_position = se_global_position e, ll_stream_type = se_stream_type e,
     ll_event_type = se_event_type e\<rparr>"

definition logging_publish :: "log_line list publisher" where
  "logging_publish e = (\<lambda>ls. (Inr (), ls @ [log_line_of e]))"

text \<open>\<open>pg_notify(channel, payload)\<close> is the parameter \<open>notify\<close>.\<close>

definition notify_payload :: "stored_event \<Rightarrow> json" where
  "notify_payload e = JObj [(''global_position'', JInt (se_global_position e)),
     (''stream_type'', JStr (se_stream_type e)), (''stream_id'', JStr (str_uuid (se_stream_id e))),
     (''event_type'', JStr (se_event_type e))]"

definition notify_publish :: "(string \<Rightarrow> json \<Rightarrow> ('x, exn, unit) action) \<Rightarrow> string \<Rightarrow> 'x publisher" where
  "notify_publish notify channel e = notify channel (notify_payload e)"

section \<open>The relay\<close>

record ('s, 'c, 'x) outbox_relay =
  or_store :: "'s event_store"
  or_checkpoints :: "'c checkpoint_store"
  or_publisher :: "'x publisher"
  or_name :: string
  or_batch_size :: int

definition relay_run_once :: "('s, 'c, 'x) outbox_relay \<Rightarrow> (('s, 'c, 'x) tail_world, exn, int) action" where
  "relay_run_once R =
     bindM (on_checkpoints (cp_load (or_checkpoints R) (or_name R))) (\<lambda>position.
     bindM (on_store (es_read_all (or_store R) position (or_batch_size R))) (\<lambda>batch.
     bindM (on_sink (foldM (\<lambda>_ e. bindM (or_publisher R e) (\<lambda>_. returnM (se_global_position e))) position batch))
       (\<lambda>position'.
     bindM (if batch \<noteq> [] then on_checkpoints (cp_save (or_checkpoints R) (or_name R) position') else returnM ()) (\<lambda>_.
     returnM (int (length batch))))))"

partial_function (option) relay_drain ::
  "('s, 'c, 'x) outbox_relay \<Rightarrow> int \<Rightarrow> ('s, 'c, 'x) tail_world \<Rightarrow>
   ((exn + int) \<times> ('s, 'c, 'x) tail_world) option" where
  "relay_drain R acc w =
     (case relay_run_once R w of
        (Inl e, w') \<Rightarrow> Some (Inl e, w')
      | (Inr handled, w') \<Rightarrow>
          if 0 < handled then relay_drain R (acc + handled) w' else Some (Inr acc, w'))"

declare relay_drain.simps [code]

text \<open>
  \<open>run_relay\<close> drains and sleeps until it is cancelled; \<open>passes\<close> is the number of passes before that.
  \<open>Inr ()\<close> is the cancellation, after which the process ends normally.
\<close>

primrec run_relay ::
  "('s, 'c, 'x) outbox_relay \<Rightarrow> nat \<Rightarrow> ('s, 'c, 'x) tail_world \<Rightarrow>
   ((exn + unit) \<times> ('s, 'c, 'x) tail_world) option" where
  "run_relay R 0 w = Some (Inr (), w)"
| "run_relay R (Suc passes) w =
     (case relay_drain R 0 w of
        None \<Rightarrow> None
      | Some (Inl e, w') \<Rightarrow> Some (Inl e, w')
      | Some (Inr _, w') \<Rightarrow> run_relay R passes w')"

text \<open>The relay as a runner.\<close>

definition relay_runner :: "('s, 'c, 'x) outbox_relay \<Rightarrow> ('s, 'c, 'x) projection_runner" where
  "relay_runner R = \<lparr>pr_store = or_store R, pr_checkpoints = or_checkpoints R, pr_name = or_name R,
     pr_projectors = [or_publisher R], pr_batch_size = or_batch_size R\<rparr>"

lemma feed_single: "feed_event [p] e = p e"
  by (auto simp: feed_event_def fun_eq_iff bindM_def split: prod.splits sum.splits)

lemma relay_run_once_runner: "relay_run_once R = runner_run_once (relay_runner R)"
  unfolding relay_run_once_def runner_run_once_def relay_runner_def projection_runner.select_convs
    feed_batch_def feed_single ..

lemma relay_drain_runner: "relay_drain R acc w = runner_drain (relay_runner R) acc w"
proof (cases "runner_drain (relay_runner R) acc w")
  case None
  have "Q = R \<longrightarrow> runner_drain (relay_runner R) acc w = Some y" if "relay_drain Q acc w = Some y" for Q acc w y
  proof (rule relay_drain.raw_induct [where P = "\<lambda>Q acc w y. Q = R \<longrightarrow> runner_drain (relay_runner R) acc w = Some y", OF _ that],
      intro impI)
    fix drain Q acc w y
    assume IH: "\<And>Q acc w y. drain Q acc w = Some y \<Longrightarrow> Q = R \<longrightarrow> runner_drain (relay_runner R) acc w = Some y"
      and body: "(case relay_run_once Q w of (Inl e, w') \<Rightarrow> Some (Inl e, w')
        | (Inr handled, w') \<Rightarrow> if 0 < handled then drain Q (acc + handled) w' else Some (Inr acc, w')) = Some y"
      and Q: "Q = R"
    then show "runner_drain (relay_runner R) acc w = Some y"
      by (subst runner_drain.simps) (auto simp: relay_run_once_runner split: prod.splits sum.splits if_splits)
  qed
  with None show ?thesis by (cases "relay_drain R acc w") force+
next
  case (Some y)
  have "Q = relay_runner R \<longrightarrow> relay_drain R acc w = Some y" if "runner_drain Q acc w = Some y" for Q acc w y
  proof (rule runner_drain.raw_induct [where P = "\<lambda>Q acc w y. Q = relay_runner R \<longrightarrow> relay_drain R acc w = Some y", OF _ that],
      intro impI)
    fix drain Q acc w y
    assume IH: "\<And>Q acc w y. drain Q acc w = Some y \<Longrightarrow> Q = relay_runner R \<longrightarrow> relay_drain R acc w = Some y"
      and body: "(case runner_run_once Q w of (Inl e, w') \<Rightarrow> Some (Inl e, w')
        | (Inr handled, w') \<Rightarrow> if 0 < handled then drain Q (acc + handled) w' else Some (Inr acc, w')) = Some y"
      and Q: "Q = relay_runner R"
    then show "relay_drain R acc w = Some y"
      by (subst relay_drain.simps) (auto simp: relay_run_once_runner split: prod.splits sum.splits if_splits)
  qed
  with Some show ?thesis by simp
qed

section \<open>Delivery in order\<close>

text \<open>
  A delivery log: every delivered position is in the log, and when a position is delivered all
  smaller ones have been delivered before.
\<close>

definition in_order :: "event_list \<Rightarrow> int list \<Rightarrow> bool" where
  "in_order log ds \<longleftrightarrow>
     (\<forall>i < length ds. ds ! i \<in> se_global_position ` set log \<and>
        (\<forall>e \<in> set log. se_global_position e < ds ! i \<longrightarrow> se_global_position e \<in> set (take i ds)))"

lemma in_order_Nil [simp]: "in_order log []"
  by (simp add: in_order_def)

lemma in_order_snoc:
  "in_order log (ds @ [p]) \<longleftrightarrow> in_order log ds \<and> p \<in> se_global_position ` set log \<and>
     (\<forall>e \<in> set log. se_global_position e < p \<longrightarrow> se_global_position e \<in> set ds)"
  unfolding in_order_def by (auto simp: nth_append less_Suc_eq)

lemma in_order_grows:
  assumes "log_wf (log @ new)" and "in_order log ds"
  shows "in_order (log @ new) ds"
  using assms(2)
proof (induction ds rule: rev_induct)
  case (snoc p ds)
  have "q < se_global_position e" if "e \<in> set new" and "q \<in> se_global_position ` set log" for e q
    using assms(1) that by (auto simp: log_wf_def sorted_wrt_append)
  with snoc show ?case by (force simp: in_order_snoc)
qed simp

locale outbox = cursor_tail rt store log invar rely cps position name "[publish]" batch_size
  for rt :: runtime and store :: "'s event_store" and log :: "'s \<Rightarrow> event_list"
    and invar :: "'s \<Rightarrow> bool" and rely :: "event_list \<Rightarrow> event_list \<Rightarrow> bool"
    and cps :: "'c checkpoint_store" and position :: "string \<Rightarrow> 'c \<Rightarrow> int"
    and name :: string and publish :: "'x publisher" and batch_size :: int +
  fixes delivered :: "'x \<Rightarrow> int list"
  assumes published: "publish e x = (Inr (), x') \<Longrightarrow> delivered x' = delivered x @ [se_global_position e]"
    and publish_failed: "publish e x = (Inl err, x') \<Longrightarrow>
      delivered x' = delivered x \<or> delivered x' = delivered x @ [se_global_position e]"
begin

lemma feed_in_order:
  assumes "log_wf (evs @ batch @ rest)" and "se_global_position ` set evs \<subseteq> set (delivered x)"
    and "in_order (evs @ batch @ rest) (delivered x)" and "feed_batch [publish] p batch x = (r, x')"
  shows "in_order (evs @ batch @ rest) (delivered x') \<and> set (delivered x) \<subseteq> set (delivered x') \<and>
    (\<not> isl r \<longrightarrow> se_global_position ` set batch \<subseteq> set (delivered x'))"
  using assms
proof (induction batch arbitrary: evs x p)
  case (Cons e batch)
  let ?l = "evs @ (e # batch) @ rest"
  obtain q x1 where pub: "publish e x = (q, x1)" by fastforce
  have before: "f \<in> set evs" if "f \<in> set ?l" "se_global_position f < se_global_position e" for f
  proof -
    have "sorted_wrt (<) (map se_global_position ?l)" using Cons.prems(1) by (simp add: log_wf_def)
    then have "\<forall>x \<in> set batch \<union> set rest. se_global_position e < se_global_position x" by (auto simp: sorted_wrt_append)
    then have "f \<notin> set batch \<union> set rest" "f \<noteq> e" using that(2) by (auto dest: less_asym)
    with that(1) show ?thesis by simp
  qed
  have ext: "in_order ?l (delivered x @ [se_global_position e])"
    using Cons.prems(2,3) before by (auto simp: in_order_snoc)
  show ?case
  proof (cases q)
    case (Inl err)
    with pub Cons.prems(4) have "r = Inl err" "x' = x1" by (auto simp: feed_single bindM_def)
    with publish_failed [of e x err x1] pub Inl ext Cons.prems(3) show ?thesis by auto
  next
    case (Inr u)
    have d: "delivered x1 = delivered x @ [se_global_position e]" using published pub Inr by simp
    have "feed_batch [publish] (se_global_position e) batch x1 = (r, x')"
      using Cons.prems(4) pub Inr by (simp add: feed_single bindM_def)
    from Cons.IH [OF _ _ _ this, of "evs @ [e]"] Cons.prems(1,2) ext d show ?thesis by auto
  qed
qed simp

text \<open>The invariant of a relay: nothing behind the checkpoint is undelivered, and delivery is in order.\<close>

definition outbox_inv :: "('s, 'c, 'x) tail_world \<Rightarrow> bool" where
  "outbox_inv w \<longleftrightarrow> invar (tw_store w) \<and> cursor_ok (cursor w) (tail_log w) \<and>
     se_global_position ` set (passed (cursor w) (tail_log w)) \<subseteq> set (delivered (tw_sink w)) \<and>
     in_order (tail_log w) (delivered (tw_sink w))"

lemma outbox_inv_written:
  assumes "outbox_inv w" and "invar s" and "rely (tail_log w) (log s)"
  shows "outbox_inv (w\<lparr>tw_store := s\<rparr>)"
proof -
  obtain new where new: "log s = tail_log w @ new" using rely_grows [OF assms(3)] ..
  have wf: "log_wf (tail_log w @ new)" using invar_wf [OF assms(2)] new by simp
  have ok: "cursor_ok (cursor w) (tail_log w)" using assms(1) by (simp add: outbox_inv_def)
  show ?thesis
    using assms(1,2) passed_grows [OF wf ok] in_order_grows [OF wf] new
    by (simp add: outbox_inv_def cursor_def tail_log_def)
qed

lemma outbox_inv_round:
  assumes "outbox_inv w" and run: "runner_run_once runner w = (r, w')"
  shows "outbox_inv w'"
proof -
  have inv: "invar (tw_store w)" using assms(1) by (simp add: outbox_inv_def)
  note c = run_once_cases [OF inv run]
  let ?l = "tail_log w'" and ?p = "cursor w"
  have inv': "invar (tw_store w')" and wf: "log_wf ?l" using c invar_wf by (auto simp: tail_log_def)
  have "outbox_inv (w\<lparr>tw_store := tw_store w'\<rparr>)"
    using outbox_inv_written [OF assms(1)] c by (simp add: tail_log_def)
  then have cur: "cursor_ok ?p ?l" and del: "se_global_position ` set (passed ?p ?l) \<subseteq> set (delivered (tw_sink w))"
    and ord: "in_order ?l (delivered (tw_sink w))"
    by (simp_all add: outbox_inv_def cursor_def tail_log_def)
  have fed: "in_order ?l (delivered (tw_sink w')) \<and> set (delivered (tw_sink w)) \<subseteq> set (delivered (tw_sink w')) \<and>
      (\<not> isl q \<longrightarrow> se_global_position ` set batch \<subseteq> set (delivered (tw_sink w')))"
    if "batch = take (nat batch_size) (unread ?p ?l)" "feed_batch [publish] ?p batch (tw_sink w) = (q, tw_sink w')" for q batch
  proof -
    have "?l = passed ?p ?l @ batch @ drop (nat batch_size) (unread ?p ?l)"
      using passed_unread [OF wf, of ?p] that(1) by simp
    with feed_in_order [of "passed ?p ?l" batch "drop (nat batch_size) (unread ?p ?l)", OF _ del _ that(2)] wf ord
    show ?thesis by simp
  qed
  have same: "cursor w' = ?p \<Longrightarrow> in_order ?l (delivered (tw_sink w')) \<Longrightarrow>
      set (delivered (tw_sink w)) \<subseteq> set (delivered (tw_sink w')) \<Longrightarrow> outbox_inv w'"
    using inv' cur del by (auto simp: outbox_inv_def)
  have step: "outbox_inv w'" if b: "batch = take (nat batch_size) (unread ?p ?l)" "batch \<noteq> []"
    and f: "feed_batch [publish] ?p batch (tw_sink w) = (Inr q, tw_sink w')" and w': "cursor w' = q" for q batch
    using fed [OF b(1) f] passed_after_batch [OF wf b] feed_batch_position [OF f] b(2) w' inv' del
    by (auto simp: outbox_inv_def)
  from c have "round_end lossy [publish] (nat batch_size) ?p ?l (tw_sink w) r (cursor w') (tw_sink w')" by blast
  then show ?thesis
  proof (cases rule: round_end.cases)
    case (projector_raised batch e)
    with fed [OF projector_raised(3,5)] same show ?thesis by auto
  next
    case (save_raised batch q e)
    with fed [OF save_raised(2,4)] same step [OF save_raised(2-4)] show ?thesis by auto
  next
    case (handled batch)
    with step show ?thesis by blast
  qed (use same ord in auto)
qed

text \<open>A drain keeps the invariant however it ends; one that returns leaves nothing unread.\<close>

lemma outbox_inv_drain:
  assumes "runner_drain runner acc w = Some (r, w')" and "outbox_inv w"
  shows "outbox_inv w' \<and> (isl r \<or> unread (cursor w') (tail_log w') = [])"
proof -
  let ?P = "\<lambda>R acc w y. R = runner \<longrightarrow> outbox_inv w \<longrightarrow>
    outbox_inv (snd y) \<and> (isl (fst y) \<or> unread (cursor (snd y)) (tail_log (snd y)) = [])"
  have "?P R acc w y" if "runner_drain R acc w = Some y" for R acc w y
  proof (rule runner_drain.raw_induct [where P = ?P, OF _ that], intro impI)
    fix drain R acc w y
    assume IH: "\<And>R acc w y. drain R acc w = Some y \<Longrightarrow> ?P R acc w y"
      and body: "(case runner_run_once R w of (Inl e, w') \<Rightarrow> Some (Inl e, w')
        | (Inr handled, w') \<Rightarrow> if 0 < handled then drain R (acc + handled) w' else Some (Inr acc, w')) = Some y"
      and R: "R = runner" and inv: "outbox_inv w"
    obtain q v where run: "runner_run_once runner w = (q, v)" by fastforce
    note inv' = outbox_inv_round [OF inv run]
    have "unread (cursor v) (tail_log v) = []" if "q = Inr n" "n \<le> 0" for n
      using run_once_cases [OF _ run] inv that batch_positive
      by (auto simp: outbox_inv_def min_def elim!: round_end.cases split: if_splits)
    with inv' IH body [unfolded R run]
    show "outbox_inv (snd y) \<and> (isl (fst y) \<or> unread (cursor (snd y)) (tail_log (snd y)) = [])"
      by (cases q) (auto split: if_splits)
  qed
  from this [OF assms(1)] assms(2) show ?thesis by simp
qed

end

section \<open>Exactly once, if nothing fails\<close>

definition memory_relay :: "runtime \<Rightarrow> (event_list, positions, log_line list) outbox_relay" where
  "memory_relay rt = \<lparr>or_store = memory_store rt ledger_registry, or_checkpoints = memory_checkpoints,
     or_publisher = logging_publish, or_name = ''outbox'', or_batch_size = 500\<rparr>"

lemma logging_outbox:
  "outbox rt (memory_store rt ledger_registry) (\<lambda>s. s) memory_invar (=) memory_checkpoints (\<lambda>n ps. dict_get0 ps n)
     logging_publish 500 (map ll_global_position)"
  by (intro outbox.intro cursor_tail.intro cursor_tail_axioms.intro outbox_axioms.intro
      reliable_event_log.axioms(1) memory.reliable_event_log_axioms memory_cp.checkpoint_contract_axioms)
    (auto simp: logging_publish_def log_line_of_def)

interpretation plain_outbox: outbox plain_runtime "memory_store plain_runtime ledger_registry" "\<lambda>s. s" memory_invar "(=)"
  memory_checkpoints "\<lambda>n ps. dict_get0 ps n" "''outbox''" logging_publish 500 "map ll_global_position"
  by (rule logging_outbox)

lemma memory_relay_tail:
  "reliable_tail rt (memory_store rt ledger_registry) (\<lambda>s. s) memory_invar memory_checkpoints
     (\<lambda>n ps. dict_get0 ps n) [logging_publish] 500 (\<lambda>ls evs. ls = map log_line_of evs) (\<lambda>_. True)"
  by (intro reliable_tail.intro synced_tail.intro outbox.axioms(1) [OF logging_outbox] synced_tail_axioms.intro
      memory.reliable_event_log_axioms reliable_tail_axioms.intro)
    (auto simp: memory_checkpoints_def memory_checkpoint_load_def memory_checkpoint_save_def feed_single logging_publish_def)

interpretation plain_relay: reliable_tail plain_runtime "memory_store plain_runtime ledger_registry" "\<lambda>s. s"
  memory_invar memory_checkpoints "\<lambda>n ps. dict_get0 ps n" "''outbox''" "[logging_publish]" 500
  "\<lambda>ls evs. ls = map log_line_of evs" "\<lambda>_. True"
  by (rule memory_relay_tail)

lemma memory_relay_idle:
  assumes "unread (dict_get0 (tw_checkpoints w) ''outbox'') (tw_store w) = []"
  shows "relay_drain (memory_relay rt) acc w = Some (Inr acc, w)"
proof -
  have "relay_run_once (memory_relay rt) w = (Inr 0, w)"
    using assms by (simp add: relay_run_once_def memory_relay_def bindM_def on_checkpoints_def on_store_def on_sink_def
        memory_checkpoints_def memory_checkpoint_load_def memory_store_def memory_read_all_def py_take_def unread_def)
  then show ?thesis by (subst relay_drain.simps) simp
qed

section \<open>Properties\<close>

text \<open>
  The life of a relay: rounds that return or raise, restarts in between, and writes of others.
\<close>

inductive relay_reachable ::
  "('s \<Rightarrow> event_list) \<Rightarrow> ('s \<Rightarrow> bool) \<Rightarrow> (event_list \<Rightarrow> event_list \<Rightarrow> bool) \<Rightarrow> (string \<Rightarrow> 'c \<Rightarrow> int) \<Rightarrow> ('x \<Rightarrow> int list) \<Rightarrow>
   ('s, 'c, 'x) outbox_relay \<Rightarrow> ('s, 'c, 'x) tail_world \<Rightarrow> bool"
  for log invar rely position delivered R where
  started: "invar (tw_store w) \<Longrightarrow> position (or_name R) (tw_checkpoints w) = 0 \<Longrightarrow> delivered (tw_sink w) = [] \<Longrightarrow>
    relay_reachable log invar rely position delivered R w"
| round: "relay_reachable log invar rely position delivered R w \<Longrightarrow> relay_run_once R w = (r, w') \<Longrightarrow>
    relay_reachable log invar rely position delivered R w'"
| written: "relay_reachable log invar rely position delivered R w \<Longrightarrow> invar s \<Longrightarrow> rely (log (tw_store w)) (log s) \<Longrightarrow>
    relay_reachable log invar rely position delivered R (w\<lparr>tw_store := s\<rparr>)"

text \<open>
  Whatever fails (reading the log, the publisher before or after it delivered, loading or saving the
  checkpoint) and whoever writes to the log, every event at or before the checkpoint has been
  delivered, only events of the log are delivered, and no event is ever delivered before all earlier
  events of the log have been; a pass of \<open>run_relay\<close> that returns has delivered the whole log.
\<close>

lemma relay_inv_iff:
  assumes "outbox rt (or_store R) log invar rely (or_checkpoints R) position (or_publisher R) (or_batch_size R) delivered"
  shows "outbox.outbox_inv log invar position (or_name R) delivered w \<longleftrightarrow>
    invar (tw_store w) \<and> cursor_ok (position (or_name R) (tw_checkpoints w)) (log (tw_store w)) \<and>
    se_global_position ` set (passed (position (or_name R) (tw_checkpoints w)) (log (tw_store w))) \<subseteq> set (delivered (tw_sink w)) \<and>
    in_order (log (tw_store w)) (delivered (tw_sink w))"
  by (simp add: outbox.outbox_inv_def [OF assms] cursor_tail.cursor_def [OF outbox.axioms(1) [OF assms]]
      cursor_tail.tail_log_def [OF outbox.axioms(1) [OF assms]])

lemma relay_runner_eq:
  assumes "outbox rt (or_store R) log invar rely (or_checkpoints R) position (or_publisher R) (or_batch_size R) delivered"
  shows "relay_runner R = cursor_tail.runner (or_store R) (or_checkpoints R) (or_name R) [or_publisher R] (or_batch_size R)"
  by (simp add: relay_runner_def cursor_tail.runner_def [OF outbox.axioms(1) [OF assms]])

lemma relay_reachable_inv:
  assumes out: "outbox rt (or_store R) log invar rely (or_checkpoints R) position (or_publisher R) (or_batch_size R) delivered"
    and "relay_reachable log invar rely position delivered R w"
  shows "outbox.outbox_inv log invar position (or_name R) delivered w"
  using assms(2)
proof induction
  case (started w)
  note cur = outbox.axioms(1) [OF out]
  have "log_wf (log (tw_store w))" using event_log.invar_wf [OF cursor_tail.axioms(1) [OF cur] started(1)] .
  then have "passed 0 (log (tw_store w)) = []" by (auto simp: passed_def log_wf_def filter_empty_conv not_le)
  with started show ?case unfolding relay_inv_iff [OF out] by (simp add: cursor_ok_def)
next
  case (round w r w')
  then show ?case using outbox.outbox_inv_round [OF out round.IH, of r w']
    by (simp add: relay_run_once_runner relay_runner_eq [OF out])
next
  case (written w s)
  then show ?case using outbox.outbox_inv_written [OF out written.IH, of s]
    by (simp add: cursor_tail.tail_log_def [OF outbox.axioms(1) [OF out]])
qed

lemma relay_passes_inv:
  assumes out: "outbox rt (or_store R) log invar rely (or_checkpoints R) position (or_publisher R) (or_batch_size R) delivered"
    and "outbox.outbox_inv log invar position (or_name R) delivered w" and "run_relay R passes w = Some (r, w')"
  shows "outbox.outbox_inv log invar position (or_name R) delivered w' \<and>
    (r = Inr () \<and> 0 < passes \<longrightarrow> unread (position (or_name R) (tw_checkpoints w')) (log (tw_store w')) = [])"
  using assms(2,3)
proof (induction passes arbitrary: w)
  case (Suc passes)
  note cur = outbox.axioms(1) [OF out]
  from Suc.prems(2) obtain q v where drain: "relay_drain R 0 w = Some (q, v)" by (auto split: option.splits)
  from outbox.outbox_inv_drain [OF out drain [unfolded relay_drain_runner relay_runner_eq [OF out]] Suc.prems(1)]
  have v: "outbox.outbox_inv log invar position (or_name R) delivered v"
    "isl q \<or> unread (position (or_name R) (tw_checkpoints v)) (log (tw_store v)) = []"
    by (simp_all add: cursor_tail.cursor_def [OF cur] cursor_tail.tail_log_def [OF cur])
  show ?case
  proof (cases q)
    case (Inl e)
    with Suc.prems(2) drain v(1) show ?thesis by auto
  next
    case (Inr n)
    with Suc.prems(2) drain have rest: "run_relay R passes v = Some (r, w')" by simp
    with Suc.IH [OF v(1) rest] v(2) Inr show ?thesis by (cases passes) auto
  qed
qed simp

text \<open>
  C26. Exactly once if nothing fails: on the in-memory store with the logging publisher the drain
  loop terminates, returns the number of events it published, has then published one line per
  event of the whole log in log order, and a second drain publishes nothing.
\<close>

theorem relay_drain_publishes_exactly_once:
  assumes "memory_invar log"
  shows "\<exists>w'. relay_drain (memory_relay rt) 0 \<lparr>tw_store = log, tw_checkpoints = [], tw_sink = []\<rparr> =
      Some (Inr (int (length log)), w') \<and>
    tw_store w' = log \<and> tw_sink w' = map log_line_of log \<and> relay_drain (memory_relay rt) 0 w' = Some (Inr 0, w')"
proof -
  let ?w = "\<lparr>tw_store = log, tw_checkpoints = [], tw_sink = []\<rparr> :: (event_list, positions, log_line list) tail_world"
  let ?tl = "cursor_tail.tail_log (\<lambda>s. s)" and ?cur = "cursor_tail.cursor (\<lambda>n ps. dict_get0 ps n) ''outbox''"
  let ?syn = "synced_tail.synced (\<lambda>s. s) memory_invar (\<lambda>n ps. dict_get0 ps n) ''outbox'' (\<lambda>ls evs. ls = map log_line_of evs)"
  note tail = memory_relay_tail [of rt]
  note syn = reliable_tail.axioms(1) [OF tail]
  note cur = synced_tail.axioms(1) [OF syn]
  note defs = cursor_tail.cursor_def [OF cur] cursor_tail.tail_log_def [OF cur] synced_tail.synced_def [OF syn]
  have R: "relay_runner (memory_relay rt) =
      cursor_tail.runner (memory_store rt ledger_registry) memory_checkpoints ''outbox'' [logging_publish] 500"
    by (simp add: relay_runner_def memory_relay_def cursor_tail.runner_def [OF cur])
  have wf: "log_wf log" using assms by (simp add: memory_invar_def)
  have "passed 0 log = []" using wf by (auto simp: passed_def log_wf_def filter_empty_conv not_le)
  moreover have zero: "dict_get0 [] n = 0" for n :: string by (simp add: dict_get0_def)
  ultimately have start: "?syn ?w" unfolding defs using assms by (simp add: cursor_ok_def)
  from reliable_tail.drain_returns [OF tail start TrueI, of 0] unread_zero [OF wf] obtain w' where
    run: "runner_drain (relay_runner (memory_relay rt)) 0 ?w = Some (Inr (int (length log)), w')" and log': "tw_store w' = log"
    unfolding R by (auto simp: defs zero)
  from synced_tail.drain_drained [OF syn run [unfolded R]] start
  have sink: "tw_sink w' = map log_line_of log" and syn': "?syn w'"
    by (simp_all add: synced_tail.drained_def [OF syn] cursor_tail.tail_log_def [OF cur] log')
  let ?p = "dict_get0 (tw_checkpoints w') ''outbox''"
  have "map log_line_of (passed ?p log) = map log_line_of log" using syn' sink log' unfolding defs by simp
  then have "length (passed ?p log) = length log" by (metis length_map)
  then have "unread ?p log = []" using passed_unread [OF wf, of ?p] by (metis append_eq_conv_conj drop_all le_refl)
  then have "relay_drain (memory_relay rt) 0 w' = Some (Inr 0, w')" using log' by (intro memory_relay_idle) simp
  with run log' sink show ?thesis by (simp add: relay_drain_runner)
qed

theorem relay_drain_publishes_exactly_once_witness:
  "\<exists>w'. relay_drain (memory_relay plain_runtime) 0 \<lparr>tw_store = snd (memory_append plain_runtime ledger_registry ACCOUNT_STREAM 1 0
     [AccountE (AccountOpened ''USD'')] empty_metadata []), tw_checkpoints = [], tw_sink = []\<rparr> = Some (Inr 1, w')"
proof -
  let ?log = "snd (memory_append plain_runtime ledger_registry ACCOUNT_STREAM 1 0 [AccountE (AccountOpened ''USD'')] empty_metadata [])"
  obtain r log' where app: "memory_append plain_runtime ledger_registry ACCOUNT_STREAM 1 0 [AccountE (AccountOpened ''USD'')]
      empty_metadata [] = (r, log')" by fastforce
  have "memory_reachable plain_runtime ?log"
    by (rule memory_reachable.append [OF memory_reachable.init, where r = r]) (use app in simp)
  then have inv: "memory_invar ?log" by (rule memory_reachable_invar)
  have "length ?log = 1"
    using memory_append_loop_extends [of "[]" plain_runtime ACCOUNT_STREAM 1 0 empty_metadata 1 "[AccountE (AccountOpened ''USD'')]"]
      extends_log_stream(3)
    by (fastforce simp: memory_append_def current_version_def py_max_def positions_dense_def)
  with relay_drain_publishes_exactly_once [OF inv, of plain_runtime] show ?thesis by auto
qed

end
