(* ===== verification/Durable.thy ===== *)
theory Durable
  imports Postgres Outbox
begin

text \<open>
  What runs on Postgres: a database whose statements raise nothing but driver errors, so that
  \<open>ConcurrencyConflict\<close> comes from the store alone; the durable checkpoints of
  \<^verbatim>\<open>src/src/ledger/projections/pg_checkpoints.py\<close>; and the relay of \<^verbatim>\<open>src/src/ledger/outbox/main.py\<close>, which
  puts store, checkpoints and \<open>pg_notify\<close> together. \<open>plain_db\<close> is a small database that keeps the
  contract; it is there so that no hypothesis of this theory is empty.
\<close>

section \<open>Conflicts on Postgres\<close>

definition driver_errors :: "('d, exn, 'a) action \<Rightarrow> bool" where
  "driver_errors m \<longleftrightarrow> (\<forall>d e d'. m d = (Inl e, d') \<longrightarrow> (\<exists>t. e = InfrastructureError t))"

lemma driver_errorsD: "driver_errors m \<Longrightarrow> m d = (Inl e, d') \<Longrightarrow> \<exists>t. e = InfrastructureError t"
  by (auto simp: driver_errors_def)

locale driver_database = event_database db rows tx rely
  for db :: "'d event_statements" and rows :: "'d \<Rightarrow> event_row list" and tx :: "'d \<Rightarrow> tx_state"
    and rely :: "event_list \<Rightarrow> event_list \<Rightarrow> bool" +
  assumes driver_transaction: "driver_errors (ev_begin db)" "driver_errors (ev_commit db)" "driver_errors (ev_rollback db)"
    and driver_lock: "driver_errors (ev_lock db key)"
    and driver_version: "driver_errors (ev_version db st sid)"
    and driver_insert: "driver_errors (ev_insert db eid st sid v name schema payload md)"
    and driver_id: "driver_errors (ev_new_id db)"
begin

lemma version_at_most_current:
  assumes "rows_ok rs" and "log_wf (map stored_of rs)" and "x \<in> set rs" and "row_in_stream st sid x"
  shows "row_version x \<le> current_version st sid (map stored_of rs)"
proof -
  let ?l = "stream_of st sid (map stored_of rs)"
  have "stored_of x \<in> set ?l" using assms by (simp add: rows_ok_filters(1))
  then have "se_version (stored_of x) \<in> set (map int [1..<Suc (length ?l)])"
    using assms(2) by (metis imageI list.set_map log_wf_def)
  then show ?thesis using assms by (auto simp: current_version_wf rows_ok_stored(4))
qed

text \<open>Under the lock, after the version check, the unique constraint is never violated.\<close>

lemma append_loop_no_conflict:
  assumes "tx d = Locked new" and "rows_ok (rows d @ new)" and "log_wf (map stored_of (rows d @ new))"
    and "current_version st sid (map stored_of (rows d @ new)) = v + k - 1"
    and "pg_append_loop rt db ledger_registry st sid v md k es d = (Inl e, d')"
  shows "\<exists>t. e = InfrastructureError t"
  using assms
proof (induction es arbitrary: k d new d')
  case (Cons ev es)
  obtain qi d1 where id: "ev_new_id db d = (qi, d1)" by fastforce
  then have d1: "rows d1 = rows d" "tx d1 = Locked new" using fresh_id [OF id] Cons.prems(1) by simp_all
  show ?case
  proof (cases qi)
    case (Inl x)
    then show ?thesis using Cons.prems(5) driver_errorsD [OF driver_id id [unfolded Inl]] id
      by (auto simp: bindM_def Let_def)
  next
    case (Inr eid)
    let ?ins = "ev_insert db eid st sid (v + k) (class_name (class_of ev)) 1 (serialize rt ev) (metadata_to_json md)"
    obtain qa d2 where ins: "?ins d1 = (qa, d2)" by fastforce
    note row = insert_row [OF d1(2) ins]
    have loop: "pg_append_loop rt db ledger_registry st sid v md k (ev # es) d =
        (case qa of Inl x \<Rightarrow> (Inl x, d2)
         | Inr UniqueViolation \<Rightarrow> (Inl (ConcurrencyConflict st sid v (v + k)), d2)
         | Inr (Inserted pos at) \<Rightarrow> bindM (pg_append_loop rt db ledger_registry st sid v md (k + 1) es)
             (\<lambda>rest. returnM (\<lparr>se_global_position = pos, se_event_id = eid, se_stream_type = st, se_stream_id = sid,
                 se_version = v + k, se_event_type = class_name (class_of ev), se_schema_version = 1,
                 se_payload = serialize rt ev, se_metadata = md, se_occurred_at = at\<rparr> # rest)) d2)"
      using id Inr ins by (simp add: bindM_def Let_def split: sum.splits insert_answer.splits)
    show ?thesis
    proof (cases qa)
      case (Inl x)
      then have "e = x" using Cons.prems(5) unfolding loop by simp
      with driver_errorsD [OF driver_insert ins [unfolded Inl]] show ?thesis by simp
    next
      case (Inr answer)
      show ?thesis
      proof (cases answer)
        case UniqueViolation
        with row Inr d1 obtain x where "x \<in> set (rows d @ new)" "row_in_stream st sid x" "row_version x = v + k" by auto
        with version_at_most_current [OF Cons.prems(2,3)] Cons.prems(4) have False by fastforce
        then show ?thesis ..
      next
        case (Inserted pos at)
        let ?row = "\<lparr>row_global_position = pos, row_event_id = eid, row_stream_type = st, row_stream_id = sid,
             row_version = v + k, row_event_type = class_name (class_of ev), row_schema_version = 1, row_payload = serialize rt ev,
             row_metadata = Some (metadata_to_json md), row_occurred_at = at\<rparr>"
        let ?s = "stored_of ?row"
        obtain s where st: "to_stored ?row = Inr s" by (simp add: to_stored_def)
        have pos: "0 < pos" "\<forall>x \<in> set (rows d @ new). row_global_position x < pos"
          and d2: "rows d2 = rows d" "tx d2 = Locked (new @ [?row])" using row Inr Inserted d1 by auto
        have ok: "rows_ok (rows d2 @ new @ [?row])" using Cons.prems(2) d2(1) st by simp
        have fresh: "\<forall>x \<in> set (map stored_of (rows d @ new)). se_global_position x < se_global_position ?s"
          using pos(2) rows_ok_stored(3) [OF Cons.prems(2)] st by auto
        have v: "v + k = int (length (stream_of st sid (map stored_of (rows d @ new)))) + 1"
          using Cons.prems(3,4) by (simp add: current_version_wf)
        have "log_wf (map stored_of (rows d @ new) @ [?s])"
          by (rule log_wf_snoc [OF Cons.prems(3)]) (use pos fresh st v in simp_all)
        then have wf: "log_wf (map stored_of (rows d2 @ new @ [?row]))" using d2(1) by simp
        have cur: "current_version st sid (map stored_of (rows d2 @ new @ [?row])) = v + (k + 1) - 1"
        proof -
          have "in_stream st sid ?s" using st by (simp add: in_stream_def)
          then have "stream_of st sid (map stored_of (rows d2 @ new @ [?row])) =
              stream_of st sid (map stored_of (rows d @ new)) @ [?s]"
            using d2(1) by (simp add: stream_of_def)
          then show ?thesis unfolding current_version_wf [OF wf] using v by simp
        qed
        obtain qr d3 where rest: "pg_append_loop rt db ledger_registry st sid v md (k + 1) es d2 = (qr, d3)" by fastforce
        then have "qr = Inl e" using Cons.prems(5) Inr Inserted unfolding loop by (cases qr) (auto simp: bindM_def)
        with Cons.IH [OF d2(2) ok wf cur] rest show ?thesis by simp
      qed
    qed
  qed
qed simp

lemma append_body_error:
  assumes "tx d = Open" and "rows_ok (rows d)" and "log_wf (pg_log d)"
    and "bindM (ev_lock db APPEND_LOCK_KEY) (\<lambda>_. bindM (ev_version db st sid) (\<lambda>current.
       if current \<noteq> v then raiseM (ConcurrencyConflict st sid v current)
       else pg_append_loop rt db ledger_registry st sid v md 1 es)) d = (Inl e, d')"
  shows "(\<exists>t. e = InfrastructureError t) \<or>
    e = ConcurrencyConflict st sid v (current_version st sid (pg_log d')) \<and> current_version st sid (pg_log d') \<noteq> v"
proof -
  obtain ql d1 where lock: "ev_lock db APPEND_LOCK_KEY d = (ql, d1)" by fastforce
  note l = take_lock [OF assms(1) lock]
  show ?thesis
  proof (cases ql)
    case (Inl x)
    with assms(4) lock have "e = x" by (simp add: bindM_def)
    with driver_errorsD [OF driver_lock lock [unfolded Inl]] show ?thesis by simp
  next
    case (Inr u)
    have d1: "tx d1 = Locked []" "rows_ok (rows d1)" "log_wf (pg_log d1)"
      using l Inr disturbed_invar [of d d1] assms(2,3) by simp_all
    obtain qv d2 where ver: "ev_version db st sid d1 = (qv, d2)" by fastforce
    have d2: "rows d2 = rows d1" "tx d2 = Locked []" and qv: "\<And>n. qv = Inr n \<Longrightarrow> n = current_version st sid (pg_log d2)"
      using max_version [OF d1(1) ver] rows_ok_filters(3) [OF d1(2)] by (auto simp: pg_log_def)
    show ?thesis
    proof (cases qv)
      case (Inl x)
      with assms(4) lock Inr ver have "e = x" by (simp add: bindM_def)
      with driver_errorsD [OF driver_version ver [unfolded Inl]] show ?thesis by simp
    next
      case qv': (Inr n)
      show ?thesis
      proof (cases "n = v")
        case False
        with assms(4) lock Inr ver qv' qv [OF qv'] show ?thesis by (auto simp: bindM_def)
      next
        case True
        with assms(4) lock Inr ver qv' have "pg_append_loop rt db ledger_registry st sid v md 1 es d2 = (Inl e, d')"
          by (simp add: bindM_def)
        from append_loop_no_conflict [OF d2(2) _ _ _ this] d1 d2 qv [OF qv'] True show ?thesis by (simp add: pg_log_def)
      qed
    qed
  qed
qed

lemma append_error:
  assumes "pg_invar d" and "pg_append rt db ledger_registry st sid v es md d = (Inl e, d')"
  shows "(\<exists>t. e = InfrastructureError t) \<or>
    (\<exists>l. e = ConcurrencyConflict st sid v (current_version st sid l) \<and> current_version st sid l \<noteq> v \<and>
       rely (pg_log d) l \<and> rely l (pg_log d'))"
proof -
  have inv: "tx d = Idle" "rows_ok (rows d) \<and> log_wf (pg_log d)" using assms(1) by (simp_all add: pg_invar_def)
  obtain qb d1 where beg: "ev_begin db d = (qb, d1)" by fastforce
  note b = begin_tx [OF inv(1) beg]
  let ?body = "bindM (ev_lock db APPEND_LOCK_KEY) (\<lambda>_. bindM (ev_version db st sid) (\<lambda>current.
       if current \<noteq> v then raiseM (ConcurrencyConflict st sid v current)
       else pg_append_loop rt db ledger_registry st sid v md 1 es))"
  obtain q d2 where body: "?body d1 = (q, d2)" by fastforce
  obtain qr d3 where rb: "ev_rollback db d2 = (qr, d3)" by fastforce
  obtain qc d4 where co: "ev_commit db d2 = (qc, d4)" by fastforce
  have run: "(Inl e, d') = (case qb of Inl x \<Rightarrow> (Inl x, d1) | Inr _ \<Rightarrow> (case q of
        Inl x \<Rightarrow> (case qr of Inl y \<Rightarrow> (Inl y, d3) | Inr _ \<Rightarrow> (Inl x, d3))
      | Inr ss \<Rightarrow> (case qc of Inl y \<Rightarrow> (Inl y, d4) | Inr _ \<Rightarrow> (Inr ss, d4))))"
    using assms(2) beg body rb co
    by (auto simp: pg_append_def transaction_def bindM_def catchM_def split: sum.splits)
  have drv: "\<exists>t. x = InfrastructureError t" if "qb = Inl x \<or> qc = Inl x \<or> qr = Inl x" for x
    using that beg co rb driver_transaction by (auto dest: driver_errorsD)
  show ?thesis
  proof (cases "\<exists>t. e = InfrastructureError t")
    case False
    then have qb: "qb = Inr ()" and q: "q = Inl e" and d': "d' = d3"
      using run drv by (auto split: sum.splits)
    have d1: "tx d1 = Open" "rows_ok (rows d1)" "log_wf (pg_log d1)" "disturbed rely (rows d) (rows d1)"
      using b qb disturbed_invar [OF _ inv(2)] by simp_all
    have d2: "disturbed rely (rows d1) (rows d2)" "tx d2 \<noteq> Idle" using append_body [OF d1(1,2) body] q by auto
    have "disturbed rely (rows d2) (rows d')" using roll_back [OF d2(2) rb] d' by simp
    then have "rely (pg_log d) (pg_log d2)" "rely (pg_log d2) (pg_log d')"
      using disturbed_trans [OF d1(4) d2(1)] by (simp_all add: disturbed_def pg_log_def)
    with append_body_error [OF d1(1-3) body [unfolded q]] False show ?thesis by blast
  qed simp
qed

end

section \<open>A database\<close>

text \<open>One connection, no other client, identity values without holes, a clock that stands still.\<close>

record plain_state =
  pl_rows :: "event_row list"
  pl_tx :: tx_state

definition plain_refused :: "(plain_state, exn, 'a) action" where
  "plain_refused = (\<lambda>d. (Inl (InfrastructureError ''InterfaceError''), d))"

definition plain_insert ::
  "uuid \<Rightarrow> string \<Rightarrow> uuid \<Rightarrow> int \<Rightarrow> string \<Rightarrow> int \<Rightarrow> json_object \<Rightarrow> json_object \<Rightarrow> (plain_state, exn, insert_answer) action" where
  "plain_insert eid st sid v name schema payload md =
     (\<lambda>d. case pl_tx d of
        Locked new \<Rightarrow>
          if \<exists>x \<in> set (pl_rows d @ new). row_in_stream st sid x \<and> row_version x = v then (Inr UniqueViolation, d)
          else let pos = Max (insert 0 (set (map row_global_position (pl_rows d @ new)))) + 1
               in (Inr (Inserted pos 0), d\<lparr>pl_tx := Locked (new @ [\<lparr>row_global_position = pos, row_event_id = eid,
                 row_stream_type = st, row_stream_id = sid, row_version = v, row_event_type = name, row_schema_version = schema,
                 row_payload = payload, row_metadata = Some md, row_occurred_at = 0\<rparr>])\<rparr>)
      | _ \<Rightarrow> plain_refused d)"

definition plain_db :: "plain_state event_statements" where
  "plain_db =
     \<lparr>ev_begin = (\<lambda>d. if pl_tx d = Idle then (Inr (), d\<lparr>pl_tx := Open\<rparr>) else plain_refused d),
      ev_commit = (\<lambda>d. case pl_tx d of
          Locked new \<Rightarrow> (Inr (), d\<lparr>pl_rows := pl_rows d @ new, pl_tx := Idle\<rparr>)
        | _ \<Rightarrow> (Inr (), d\<lparr>pl_tx := Idle\<rparr>)),
      ev_rollback = (\<lambda>d. (Inr (), d\<lparr>pl_tx := Idle\<rparr>)),
      ev_lock = (\<lambda>key d. if pl_tx d = Open then (Inr (), d\<lparr>pl_tx := Locked []\<rparr>) else plain_refused d),
      ev_version = (\<lambda>st sid d. case pl_tx d of
          Locked new \<Rightarrow> (Inr (py_max (map row_version (filter (row_in_stream st sid) (pl_rows d @ new))) 0), d)
        | _ \<Rightarrow> plain_refused d),
      ev_insert = plain_insert,
      ev_stream = (\<lambda>st sid d. (Inr (sort_key row_version (filter (row_in_stream st sid) (pl_rows d))), d)),
      ev_from = (\<lambda>p n d. if n < 0 then plain_refused d
        else (Inr (take (nat n) (sort_key row_global_position (filter (\<lambda>x. p < row_global_position x) (pl_rows d)))), d)),
      ev_new_id = (\<lambda>d. (Inr (word_of_nat (length (pl_rows d))), d))\<rparr>"

interpretation plain_database: driver_database plain_db pl_rows pl_tx "(=)"
proof unfold_locales
  fix d d' :: plain_state and new eid st sid v name schema payload md ri
  assume "pl_tx d = Locked new" and "ev_insert plain_db eid st sid v name schema payload md d = (ri, d')"
  then show "pl_rows d' = pl_rows d \<and> (case ri of
      Inr (Inserted pos at) \<Rightarrow> 0 < pos \<and> (\<forall>x \<in> set (pl_rows d @ new). row_global_position x < pos) \<and>
        pl_tx d' = Locked (new @ [\<lparr>row_global_position = pos, row_event_id = eid, row_stream_type = st, row_stream_id = sid,
          row_version = v, row_event_type = name, row_schema_version = schema, row_payload = payload,
          row_metadata = Some md, row_occurred_at = at\<rparr>])
    | Inr UniqueViolation \<Rightarrow> pl_tx d' = Locked new \<and> (\<exists>x \<in> set (pl_rows d @ new). row_in_stream st sid x \<and> row_version x = v)
    | Inl e \<Rightarrow> pl_tx d' = Locked new)"
    by (auto simp: plain_db_def plain_insert_def Let_def intro!: zle_add1_eq_le [THEN iffD2] Max_ge split: if_splits)
qed (auto simp: plain_db_def plain_refused_def plain_insert_def disturbed_def driver_errors_def Let_def
    split: if_splits tx_state.splits)

section \<open>Checkpoints\<close>

text \<open>\<open>str.isidentifier\<close> and \<open>repr\<close> on ASCII texts.\<close>

definition identifier_start :: "char \<Rightarrow> bool" where
  "identifier_start ch \<longleftrightarrow>
     (let c = of_char ch :: nat in 65 \<le> c \<and> c \<le> 90 \<or> 97 \<le> c \<and> c \<le> 122 \<or> ch = CHR ''_'')"

definition isidentifier :: "string \<Rightarrow> bool" where
  "isidentifier t \<longleftrightarrow> t \<noteq> [] \<and> identifier_start (hd t) \<and>
     list_all (\<lambda>ch. identifier_start ch \<or> ch \<in> set ''0123456789'') t"

definition repr_char :: "char \<Rightarrow> char \<Rightarrow> string" where
  "repr_char quote ch =
     (let c = of_char ch :: nat; esc = CHR 0x5C
      in if ch = quote \<or> ch = esc then [esc, ch]
         else if c = 10 then [esc, CHR ''n''] else if c = 13 then [esc, CHR ''r''] else if c = 9 then [esc, CHR ''t'']
         else if c < 32 \<or> c = 127 then [esc, CHR ''x''] @ hex_digits 2 c
         else [ch])"

definition py_repr :: "string \<Rightarrow> string" where
  "py_repr t =
     (let quote = if CHR 0x27 \<in> set t \<and> CHR 0x22 \<notin> set t then CHR 0x22 else CHR 0x27
      in quote # concat (map (repr_char quote) t) @ [quote])"

text \<open>The two statements, with the table they name.\<close>

record 'c checkpoint_statements =
  ck_select :: "string \<Rightarrow> string \<Rightarrow> ('c, exn, int option) action"
  ck_upsert :: "string \<Rightarrow> string \<Rightarrow> int \<Rightarrow> ('c, exn, unit) action"

definition pg_checkpoint_load :: "'c checkpoint_statements \<Rightarrow> string \<Rightarrow> string \<Rightarrow> ('c, exn, int) action" where
  "pg_checkpoint_load ck table name =
     bindM (ck_select ck table name) (\<lambda>row. returnM (case row of None \<Rightarrow> 0 | Some p \<Rightarrow> p))"

definition pg_checkpoint_save :: "'c checkpoint_statements \<Rightarrow> string \<Rightarrow> string \<Rightarrow> int \<Rightarrow> ('c, exn, unit) action" where
  "pg_checkpoint_save ck table name position = ck_upsert ck table name position"

definition pg_checkpoints :: "'c checkpoint_statements \<Rightarrow> string \<Rightarrow> 'c checkpoint_store result" where
  "pg_checkpoints ck table =
     (if \<not> isidentifier table then Inl (ValueError (''unsafe checkpoint table name: '' @ py_repr table))
      else Inr \<lparr>cp_load = pg_checkpoint_load ck table, cp_save = pg_checkpoint_save ck table\<rparr>)"

text \<open>
  What Postgres documents of the two statements, for a table whose row of a name only the consumer
  of that name writes. An upsert whose answer is lost may or may not have been committed.
\<close>

locale checkpoint_table =
  fixes ck :: "'c checkpoint_statements" and table :: string and cell :: "string \<Rightarrow> 'c \<Rightarrow> int option"
  assumes selected: "ck_select ck table n c = (r, c') \<Longrightarrow> cell n c' = cell n c \<and> (\<forall>x. r = Inr x \<longrightarrow> x = cell n c)"
    and upserted: "ck_upsert ck table n p c = (u, c') \<Longrightarrow> cell n c' = Some p \<or> cell n c' = cell n c \<and> u \<noteq> Inr ()"
begin

definition saved :: "string \<Rightarrow> 'c \<Rightarrow> int" where
  "saved n c = (case cell n c of None \<Rightarrow> 0 | Some p \<Rightarrow> p)"

lemma checkpoints_contract:
  assumes "pg_checkpoints ck table = Inr cps"
  shows "checkpoint_contract cps saved"
proof -
  have cps: "cp_load cps = pg_checkpoint_load ck table" "cp_save cps = pg_checkpoint_save ck table"
    using assms by (auto simp: pg_checkpoints_def split: if_splits)
  show ?thesis
  proof
    fix n c r c' p e
    show "cp_load cps n c = (r, c') \<Longrightarrow> saved n c' = saved n c" "cp_load cps n c = (Inr p, c') \<Longrightarrow> p = saved n c"
      unfolding cps using selected [of n c]
      by (auto simp: pg_checkpoint_load_def saved_def bindM_def split: prod.splits sum.splits)
    show "cp_save cps n p c = (Inr (), c') \<Longrightarrow> saved n c' = p"
      "cp_save cps n p c = (Inl e, c') \<Longrightarrow> saved n c' = saved n c \<or> saved n c' = p"
      unfolding cps using upserted [of n p c] by (auto simp: pg_checkpoint_save_def saved_def)
  qed
qed

end

definition plain_checkpoint_rows :: "(string \<times> string, int) map checkpoint_statements" where
  "plain_checkpoint_rows =
     \<lparr>ck_select = \<lambda>t n c. (Inr (c (t, n)), c), ck_upsert = \<lambda>t n p c. (Inr (), c((t, n) \<mapsto> p))\<rparr>"

interpretation plain_checkpoint_table: checkpoint_table plain_checkpoint_rows "''relay_checkpoints''"
  "\<lambda>n c. c (''relay_checkpoints'', n)"
  by unfold_locales (auto simp: plain_checkpoint_rows_def)

section \<open>Properties\<close>

text \<open>
  C17. The Postgres append: with any database that keeps the documented contract, whoever appends
  through other connections meanwhile, an append leaves the table in order and the connection
  outside a transaction. If it returns, the stream was at the expected version when the lock was
  held, and exactly the returned envelopes were added, in one piece and beyond every committed
  position. If it raises \<open>ConcurrencyConflict\<close>, the stream was seen at the reported other version
  and nothing of the call is in the table; the handler for the unique constraint never runs. Any
  other error is the driver's, and then all of the events were committed or none.
\<close>

theorem pg_append_atomic:
  assumes "driver_database db rows tx rely"
    and "tx d = Idle" and "rows_ok (rows d)" and "log_wf (map stored_of (rows d))"
    and "pg_append rt db ledger_registry st sid v es md d = (r, d')"
  shows "tx d' = Idle \<and> rows_ok (rows d') \<and> log_wf (map stored_of (rows d')) \<and>
    (case r of
       Inr ss \<Rightarrow> \<exists>l. rely (map stored_of (rows d)) l \<and> current_version st sid l = v \<and>
         extends_log rt st sid v md l es ss \<and> map stored_of (rows d') = l @ ss
     | Inl (ConcurrencyConflict st' sid' v' actual) \<Rightarrow> (st', sid', v') = (st, sid, v) \<and> actual \<noteq> v \<and>
         (\<exists>l. rely (map stored_of (rows d)) l \<and> actual = current_version st sid l \<and> rely l (map stored_of (rows d')))
     | Inl e \<Rightarrow> (\<exists>t. e = InfrastructureError t) \<and>
         (\<exists>l. rely (map stored_of (rows d)) l \<and> (map stored_of (rows d') = l \<or>
            current_version st sid l = v \<and> (\<exists>ss. extends_log rt st sid v md l es ss \<and> map stored_of (rows d') = l @ ss))))"
proof -
  note drv = assms(1)
  note ev = driver_database.axioms(1) [OF drv]
  note defs = event_database.pg_log_def [OF ev] event_database.pg_invar_def [OF ev]
  have inv: "event_database.pg_invar rows tx d" using assms(2-4) by (simp add: defs)
  note tran = event_database.append_transaction [OF ev inv assms(5), unfolded defs]
  show ?thesis
  proof (cases r)
    case (Inr ss)
    with tran show ?thesis by auto
  next
    case (Inl e)
    with driver_database.append_error [OF drv inv, of rt st sid v es md e d'] assms(5)
    consider t where "e = InfrastructureError t"
      | l where "e = ConcurrencyConflict st sid v (current_version st sid l)" "current_version st sid l \<noteq> v"
          "rely (map stored_of (rows d)) l" "rely l (map stored_of (rows d'))"
      by (auto simp: defs)
    then show ?thesis using tran Inl by cases auto
  qed
qed

theorem pg_append_atomic_witness:
  "\<exists>ss d'. pg_append plain_runtime plain_db ledger_registry ''account'' 1 0 [AccountE AccountFrozen] empty_metadata
       \<lparr>pl_rows = [], pl_tx = Idle\<rparr> = (Inr ss, d') \<and>
     map stored_of (pl_rows d') = ss \<and> length ss = 1 \<and> log_wf ss"
proof -
  let ?d = "\<lparr>pl_rows = [], pl_tx = Idle\<rparr>"
  obtain r d' where run: "pg_append plain_runtime plain_db ledger_registry ''account'' 1 0 [AccountE AccountFrozen]
      empty_metadata ?d = (r, d')" by fastforce
  then have "\<not> isl r"
    by (auto simp: pg_append_def transaction_def bindM_def catchM_def plain_db_def plain_insert_def py_max_def
        Let_def)
  then obtain ss where r: "r = Inr ss" by (cases r) auto
  from pg_append_atomic [OF plain_database.driver_database_axioms _ _ _ run] r run show ?thesis
    by (auto dest: extends_log_stream(3))
qed

end
