(* ===== verification/Processes.thy ===== *)
theory Processes
  imports Durable Application Workflow
begin

text \<open>
  How the processes are put together: the choice of the store in
  \<^verbatim>\<open>src/src/ledger/eventstore/factory.py\<close>, the API's runtime context
  (\<^verbatim>\<open>src/src/ledger/api/context.py\<close>), the worker's activities (\<^verbatim>\<open>src/src/ledger/temporal/worker.py\<close>) and the relay (\<^verbatim>\<open>src/src/ledger/outbox/main.py\<close>).
  Connecting to Postgres (a pool on which the schema has been applied) and to Temporal are parameters.
\<close>

section \<open>The choice of the store\<close>

text \<open>
  The parameters: the statements of a pool, and a client of Temporal. One pool serves the event
  store, the idempotency table (once its schema could be applied), the checkpoint table and
  \<open>pg_notify\<close>; their tables are apart, so each has its own state.
\<close>

record ('d, 'i, 'c, 'x) pool =
  pool_events :: "'d event_statements"
  pool_idempotency :: "'i idem_statements result"
  pool_checkpoints :: "'c checkpoint_statements"
  pool_notify :: "string \<Rightarrow> json \<Rightarrow> ('x, exn, unit) action"

record ('d, 'i, 'c, 'x, 'g) network =
  create_pool :: "string \<Rightarrow> int \<Rightarrow> int \<Rightarrow> ('d, 'i, 'c, 'x) pool result"
  connect_temporal :: "string \<Rightarrow> string \<Rightarrow> 'g temporal_client result"

datatype ('d, 'i, 'c, 'x) opened_store =
    PostgresEventStore "('d, 'i, 'c, 'x) pool" "'d event_store"
  | InMemoryEventStore "event_list event_store"

definition open_event_store ::
  "runtime \<Rightarrow> ('d, 'i, 'c, 'x, 'g) network \<Rightarrow> settings \<Rightarrow> event_registry \<Rightarrow> ('d, 'i, 'c, 'x) opened_store result" where
  "open_event_store rt net cfg reg =
     (let dsn = database_url cfg
      in if startswith dsn ''postgresql://'' \<or> startswith dsn ''postgres://''
         then bindE (create_pool net dsn (db_pool_min_size cfg) (db_pool_max_size cfg)) (\<lambda>pool.
           Inr (PostgresEventStore pool (pg_store rt (pool_events pool) reg)))
         else Inr (InMemoryEventStore (memory_store rt reg)))"

section \<open>The API\<close>

datatype ('d, 'i, 'g) runtime_context =
    OnPostgres "('d, 'i, 'g) app_context"
  | InMemory "(event_list, idem_entries, 'g) app_context"

definition build_runtime_context ::
  "runtime \<Rightarrow> ('d, 'i, 'c, 'x, 'g) network \<Rightarrow> settings \<Rightarrow> ('d, 'i, 'g) runtime_context result" where
  "build_runtime_context rt net cfg =
     bindE build_event_registry (\<lambda>reg.
     bindE (open_event_store rt net cfg reg) (\<lambda>store.
     bindE (connect_temporal net (temporal_address cfg) (temporal_namespace cfg)) (\<lambda>client.
       let gateway = temporal_gateway client (temporal_task_queue cfg)
       in case store of
            PostgresEventStore pool st \<Rightarrow> bindE (pool_idempotency pool) (\<lambda>table.
              Inr (OnPostgres (build_context rt st reg gateway (pg_idempotency table))))
          | InMemoryEventStore st \<Rightarrow> Inr (InMemory (build_context rt st reg gateway memory_idempotency)))))"

text \<open>\<open>AppContext.aclose\<close>: only the Postgres store has something to close, its pool.\<close>

definition context_aclose :: "('w, exn, unit) action \<Rightarrow> ('d, 'i, 'g) runtime_context \<Rightarrow> ('w, exn, unit) action" where
  "context_aclose close_pool ctx = (case ctx of OnPostgres _ \<Rightarrow> close_pool | InMemory _ \<Rightarrow> returnM ())"

section \<open>The worker\<close>

text \<open>The repositories the worker's activities run on, by the kind of store.\<close>

definition worker_repositories ::
  "runtime \<Rightarrow> ('d, 'i, 'c, 'x, 'g) network \<Rightarrow> settings \<Rightarrow> ('d repositories + event_list repositories) result" where
  "worker_repositories rt net cfg =
     bindE build_event_registry (\<lambda>reg.
     bindE (open_event_store rt net cfg reg) (\<lambda>store.
       let repos = (case store of
             PostgresEventStore pool st \<Rightarrow> Inl (build_repositories rt st reg)
           | InMemoryEventStore st \<Rightarrow> Inr (build_repositories rt st reg))
       in bindE (connect_temporal net (temporal_address cfg) (temporal_namespace cfg)) (\<lambda>_. Inr repos)))"

text \<open>On Postgres the API and the worker act on the same store.\<close>

lemma worker_shares_repositories:
  assumes "build_runtime_context rt net cfg = Inr (OnPostgres ctx)"
  shows "worker_repositories rt net cfg = Inr (Inl (ctx_repositories ctx))"
proof -
  from assms obtain reg store client where r: "build_event_registry = Inr reg" "open_event_store rt net cfg reg = Inr store"
    "connect_temporal net (temporal_address cfg) (temporal_namespace cfg) = Inr client"
    by (auto simp: build_runtime_context_def result_iffs)
  have "build_runtime_context rt net cfg =
      (let gateway = temporal_gateway client (temporal_task_queue cfg)
       in case store of
            PostgresEventStore pool st \<Rightarrow> bindE (pool_idempotency pool) (\<lambda>table.
              Inr (OnPostgres (build_context rt st reg gateway (pg_idempotency table))))
          | InMemoryEventStore st \<Rightarrow> Inr (InMemory (build_context rt st reg gateway memory_idempotency)))"
    by (simp add: build_runtime_context_def r)
  with assms obtain pool st where store: "store = PostgresEventStore pool st"
    and "ctx_repositories ctx = build_repositories rt st reg"
    by (cases store) (auto simp: build_context_def result_iffs)
  then show ?thesis by (simp add: worker_repositories_def r)
qed

lemma worker_repositories_eq:
  assumes "worker_repositories rt net cfg = Inr (Inl R)"
    and "create_pool net (database_url cfg) (db_pool_min_size cfg) (db_pool_max_size cfg) = Inr pool"
  shows "R = build_repositories rt (pg_store rt (pool_events pool) ledger_registry) ledger_registry"
proof -
  from assms obtain store where "open_event_store rt net cfg ledger_registry = Inr store"
    by (auto simp: worker_repositories_def result_iffs build_event_registry_ok)
  with assms show ?thesis
    by (cases store) (auto simp: worker_repositories_def build_event_registry_ok open_event_store_def Let_def result_iffs
        split: if_splits)
qed

section \<open>The relay\<close>

definition relay_of_settings ::
  "runtime \<Rightarrow> ('d, 'i, 'c, 'x, 'g) network \<Rightarrow> settings \<Rightarrow> ('d, 'c, 'x) outbox_relay result" where
  "relay_of_settings rt net cfg =
     bindE build_event_registry (\<lambda>reg.
     bindE (open_event_store rt net cfg reg) (\<lambda>store.
       case store of
         InMemoryEventStore _ \<Rightarrow> Inl (RuntimeError ''ledger-relay requires a Postgres event store'')
       | PostgresEventStore pool st \<Rightarrow>
           bindE (pg_checkpoints (pool_checkpoints pool) ''relay_checkpoints'') (\<lambda>checkpoints.
             Inr \<lparr>or_store = st, or_checkpoints = checkpoints,
                  or_publisher = notify_publish (pool_notify pool) ''ledger_events'',
                  or_name = ''outbox'', or_batch_size = 500\<rparr>)))"

definition run_relay_process ::
  "runtime \<Rightarrow> ('d, 'i, 'c, 'x, 'g) network \<Rightarrow> settings \<Rightarrow> nat \<Rightarrow> ('d, 'c, 'x) tail_world \<Rightarrow>
   ((exn + unit) \<times> ('d, 'c, 'x) tail_world) option" where
  "run_relay_process rt net cfg passes w =
     (case relay_of_settings rt net cfg of
        Inl e \<Rightarrow> Some (Inl e, w)
      | Inr R \<Rightarrow> run_relay R passes w)"

section \<open>What the relay has told its listeners\<close>

text \<open>
  \<open>pg_notify\<close> delivers a payload to the listeners of a channel; if the call fails the payload may or
  may not have been delivered.
\<close>

locale notify_channel =
  fixes notify :: "string \<Rightarrow> json \<Rightarrow> ('x, exn, unit) action" and notified :: "'x \<Rightarrow> (string \<times> json) list"
  assumes sent: "notify channel payload x = (Inr (), x') \<Longrightarrow> notified x' = notified x @ [(channel, payload)]"
    and unsure: "notify channel payload x = (Inl e, x') \<Longrightarrow>
      notified x' = notified x \<or> notified x' = notified x @ [(channel, payload)]"

definition payload_position :: "json \<Rightarrow> int" where
  "payload_position payload =
     (case payload of JObj kvs \<Rightarrow> (case map_of kvs ''global_position'' of Some (JInt n) \<Rightarrow> n | _ \<Rightarrow> 0) | _ \<Rightarrow> 0)"

definition told :: "('x \<Rightarrow> (string \<times> json) list) \<Rightarrow> 'x \<Rightarrow> int list" where
  "told notified x = map (payload_position \<circ> snd) (notified x)"

lemma payload_position_notify [simp]: "payload_position (notify_payload e) = se_global_position e"
  by (simp add: payload_position_def notify_payload_def)

definition plain_notify :: "string \<Rightarrow> json \<Rightarrow> ((string \<times> json) list, exn, unit) action" where
  "plain_notify channel payload = (\<lambda>x. (Inr (), x @ [(channel, payload)]))"

interpretation plain_channel: notify_channel plain_notify "\<lambda>x. x"
  by unfold_locales (auto simp: plain_notify_def)

text \<open>The relay of the process keeps the contract of the outbox.\<close>

lemma relay_of_settings_eq:
  assumes "relay_of_settings rt net cfg = Inr R"
  obtains pool cps where "create_pool net (database_url cfg) (db_pool_min_size cfg) (db_pool_max_size cfg) = Inr pool"
    and "pg_checkpoints (pool_checkpoints pool) ''relay_checkpoints'' = Inr cps"
    and "R = \<lparr>or_store = pg_store rt (pool_events pool) ledger_registry, or_checkpoints = cps,
       or_publisher = notify_publish (pool_notify pool) ''ledger_events'', or_name = ''outbox'', or_batch_size = 500\<rparr>"
proof -
  from assms obtain store where store: "open_event_store rt net cfg ledger_registry = Inr store"
    by (auto simp: relay_of_settings_def result_iffs build_event_registry_ok)
  with assms that show ?thesis
    by (cases store) (auto simp: relay_of_settings_def build_event_registry_ok open_event_store_def Let_def result_iffs
        split: if_splits)
qed

lemma relay_of_settings_outbox:
  assumes R: "relay_of_settings rt net cfg = Inr R"
    and pool: "create_pool net (database_url cfg) (db_pool_min_size cfg) (db_pool_max_size cfg) = Inr pool"
    and db: "event_database (pool_events pool) rows tx rely"
    and ck: "checkpoint_table (pool_checkpoints pool) ''relay_checkpoints'' cell"
    and ch: "notify_channel (pool_notify pool) notified"
  shows "outbox rt (or_store R) (event_database.pg_log rows) (event_database.pg_invar rows tx) rely (or_checkpoints R)
    (checkpoint_table.saved cell) (or_publisher R) (or_batch_size R) (told notified)"
proof -
  from relay_of_settings_eq [OF R] pool obtain cps where cps: "pg_checkpoints (pool_checkpoints pool) ''relay_checkpoints'' = Inr cps"
    and R': "R = \<lparr>or_store = pg_store rt (pool_events pool) ledger_registry, or_checkpoints = cps,
       or_publisher = notify_publish (pool_notify pool) ''ledger_events'', or_name = ''outbox'', or_batch_size = 500\<rparr>"
    by (metis old.sum.inject(2))
  show ?thesis
    unfolding R' outbox_relay.select_convs
  proof (intro outbox.intro cursor_tail.intro cursor_tail_axioms.intro outbox_axioms.intro)
    show "event_log rt (pg_store rt (pool_events pool) ledger_registry) (event_database.pg_log rows)
        (event_database.pg_invar rows tx) rely"
      by (rule event_database.pg_event_log [OF db])
    show "checkpoint_contract cps (checkpoint_table.saved cell)"
      by (rule checkpoint_table.checkpoints_contract [OF ck cps])
    fix e x x' err
    show "notify_publish (pool_notify pool) ''ledger_events'' e x = (Inr (), x') \<Longrightarrow>
        told notified x' = told notified x @ [se_global_position e]"
      using notify_channel.sent [OF ch] by (simp add: notify_publish_def told_def)
    show "notify_publish (pool_notify pool) ''ledger_events'' e x = (Inl err, x') \<Longrightarrow>
        told notified x' = told notified x \<or> told notified x' = told notified x @ [se_global_position e]"
      unfolding notify_publish_def told_def by (drule notify_channel.unsure [OF ch]) auto
  qed simp
qed

section \<open>Properties\<close>

text \<open>
  C18. The relay on Postgres: let \<open>w\<close> be what any life of the relay process has led to (rounds that
  ended or failed anywhere, crashes and restarts in between, appends of other processes). However
  the next run of the process goes, afterwards every committed event at or before the saved
  checkpoint has been notified, nothing is notified before all earlier committed events have been,
  and if the run was cancelled after at least one full pass, every event in the table has been
  notified: the cursor skips no committed event.
\<close>

theorem relay_process_skips_nothing:
  assumes "relay_of_settings rt net cfg = Inr R"
    and "create_pool net (database_url cfg) (db_pool_min_size cfg) (db_pool_max_size cfg) = Inr pool"
    and "event_database (pool_events pool) rows tx rely"
    and "checkpoint_table (pool_checkpoints pool) ''relay_checkpoints'' cell"
    and "notify_channel (pool_notify pool) notified"
    and "relay_reachable (\<lambda>d. map stored_of (rows d)) (\<lambda>d. tx d = Idle \<and> rows_ok (rows d) \<and> log_wf (map stored_of (rows d)))
      rely (\<lambda>n c. case cell n c of None \<Rightarrow> 0 | Some p \<Rightarrow> p) (told notified) R w"
    and "run_relay_process rt net cfg passes w = Some (r, w')"
  shows "let log = map stored_of (rows (tw_store w')); sent = told notified (tw_sink w');
           checkpoint = (case cell ''outbox'' (tw_checkpoints w') of None \<Rightarrow> 0 | Some p \<Rightarrow> p)
    in se_global_position ` {e \<in> set log. se_global_position e \<le> checkpoint} \<subseteq> set sent \<and> in_order log sent \<and>
       (r = Inr () \<and> 0 < passes \<longrightarrow> se_global_position ` set log \<subseteq> set sent)"
proof -
  have fns: "event_database.pg_log rows = (\<lambda>d. map stored_of (rows d))"
    "event_database.pg_invar rows tx = (\<lambda>d. tx d = Idle \<and> rows_ok (rows d) \<and> log_wf (map stored_of (rows d)))"
    "checkpoint_table.saved cell = (\<lambda>n c. case cell n c of None \<Rightarrow> 0 | Some p \<Rightarrow> p)"
    using event_database.pg_log_def [OF assms(3)] event_database.pg_invar_def [OF assms(3)]
      checkpoint_table.saved_def [OF assms(4)] by (simp_all add: fun_eq_iff)
  note out = relay_of_settings_outbox [OF assms(1-5), unfolded fns]
  have name: "or_name R = ''outbox''" by (rule relay_of_settings_eq [OF assms(1)]) simp
  from assms(1,7) have run: "run_relay R passes w = Some (r, w')" by (simp add: run_relay_process_def)
  note inv = relay_passes_inv [OF out relay_reachable_inv [OF out assms(6)] run, unfolded relay_inv_iff [OF out], unfolded name]
  let ?p = "case cell ''outbox'' (tw_checkpoints w') of None \<Rightarrow> 0 | Some p \<Rightarrow> p" and ?log = "map stored_of (rows (tw_store w'))"
  have "se_global_position e \<le> ?p" if "unread ?p ?log = []" "e \<in> set ?log" for e
    using that unfolding unread_def filter_empty_conv by (auto simp: not_less)
  then show ?thesis using inv by (auto simp: Let_def passed_def)
qed

definition plain_row :: event_row where
  "plain_row = \<lparr>row_global_position = 1, row_event_id = 5, row_stream_type = ''account'', row_stream_id = 7, row_version = 1,
     row_event_type = ''AccountFrozen'', row_schema_version = 1, row_payload = [], row_metadata = None,
     row_occurred_at = 0\<rparr>"

definition plain_network ::
  "(plain_state, idem_table, (string \<times> string, int) map, (string \<times> json) list, (string \<times> transfer_input) list) network" where
  "plain_network =
     \<lparr>create_pool = \<lambda>_ _ _. Inr \<lparr>pool_events = plain_db, pool_idempotency = Inr plain_statements,
        pool_checkpoints = plain_checkpoint_rows, pool_notify = plain_notify\<rparr>,
      connect_temporal = \<lambda>_ _. Inr plain_client\<rparr>"

theorem relay_process_skips_nothing_witness:
  "\<exists>w'. run_relay_process plain_runtime plain_network default_settings 1
      \<lparr>tw_store = \<lparr>pl_rows = [plain_row], pl_tx = Idle\<rparr>, tw_checkpoints = Map.empty, tw_sink = []\<rparr> = Some (Inr (), w') \<and>
    1 \<in> set (told (\<lambda>x. x) (tw_sink w'))"
proof -
  let ?w = "\<lparr>tw_store = \<lparr>pl_rows = [plain_row], pl_tx = Idle\<rparr>, tw_checkpoints = Map.empty, tw_sink = []\<rparr> ::
    (plain_state, (string \<times> string, int) map, (string \<times> json) list) tail_world"
  let ?pool = "\<lparr>pool_events = plain_db, pool_idempotency = Inr plain_statements, pool_checkpoints = plain_checkpoint_rows,
    pool_notify = plain_notify\<rparr>"
  obtain R where R: "relay_of_settings plain_runtime plain_network default_settings = Inr R"
    and R': "R = \<lparr>or_store = pg_store plain_runtime plain_db ledger_registry,
      or_checkpoints = \<lparr>cp_load = pg_checkpoint_load plain_checkpoint_rows ''relay_checkpoints'',
        cp_save = pg_checkpoint_save plain_checkpoint_rows ''relay_checkpoints''\<rparr>,
      or_publisher = notify_publish plain_notify ''ledger_events'', or_name = ''outbox'', or_batch_size = 500\<rparr>"
    by (simp add: relay_of_settings_def build_event_registry_ok open_event_store_def plain_network_def default_settings_def
        startswith_def pg_checkpoints_def isidentifier_def identifier_start_def)
  obtain s where st: "to_stored plain_row = Inr s" by (simp add: to_stored_def metadata_from_json_def plain_row_def)
  then have s: "stored_of plain_row = s" "se_global_position s = 1" "se_version s = 1" by (auto simp: plain_row_def)
  have ok: "rows_ok [plain_row]" using st by simp
  have wf: "log_wf [s]" using log_wf_snoc [OF log_wf_Nil, of s] s by (simp add: stream_of_def)
  have start: "relay_reachable (\<lambda>d. map stored_of (pl_rows d))
      (\<lambda>d. pl_tx d = Idle \<and> rows_ok (pl_rows d) \<and> log_wf (map stored_of (pl_rows d))) (=)
      (\<lambda>n c. case c (''relay_checkpoints'', n) of None \<Rightarrow> 0 | Some p \<Rightarrow> p) (told (\<lambda>x. x)) R ?w"
    by (rule relay_reachable.started) (use s ok wf in \<open>auto simp: told_def\<close>)
  let ?w1 = "\<lparr>tw_store = \<lparr>pl_rows = [plain_row], pl_tx = Idle\<rparr>, tw_checkpoints = [(''relay_checkpoints'', ''outbox'') \<mapsto> 1],
    tw_sink = [(''ledger_events'', notify_payload s)]\<rparr>"
  note defs = relay_run_once_def R' bindM_def on_checkpoints_def on_store_def on_sink_def pg_checkpoint_load_def
    pg_checkpoint_save_def plain_checkpoint_rows_def pg_store_def pg_read_all_def plain_db_def notify_publish_def plain_notify_def
  have pos: "row_global_position plain_row = 1" by (simp add: plain_row_def)
  have first: "relay_run_once R ?w = (Inr 1, ?w1)" by (simp add: defs pos st s)
  have second: "relay_run_once R ?w1 = (Inr 0, ?w1)" by (simp add: defs pos)
  have "relay_drain R 0 ?w = relay_drain R 1 ?w1" by (subst relay_drain.simps) (simp add: first)
  also have "\<dots> = Some (Inr 1, ?w1)" by (subst relay_drain.simps) (simp add: second)
  finally have run: "run_relay_process plain_runtime plain_network default_settings 1 ?w = Some (Inr (), ?w1)"
    by (simp add: run_relay_process_def R)
  have pool: "create_pool plain_network (database_url default_settings) (db_pool_min_size default_settings)
      (db_pool_max_size default_settings) = Inr ?pool" by (simp add: plain_network_def)
  from relay_process_skips_nothing [OF R pool _ _ _ _ run, of pl_rows pl_tx "(=)" "\<lambda>n c. c (''relay_checkpoints'', n)" "\<lambda>x. x"]
    start plain_database.event_database_axioms plain_checkpoint_table.checkpoint_table_axioms plain_channel.notify_channel_axioms
  have "se_global_position ` set [s] \<subseteq> set (told (\<lambda>x. x) (tw_sink ?w1))" by (simp add: Let_def s)
  with run s show ?thesis by auto
qed

text \<open>
  C3. The saga on Postgres: with the repositories the worker builds from its settings, on any database
  that keeps the documented contract and whose other clients make only legal steps, under lost and
  repeated attempts, every run of the workflow leaves a table that is again a consistent ledger,
  reached by legal steps, and a connection outside any transaction.
\<close>

theorem saga_on_postgres_keeps_ledger_consistent:
  assumes "codec_round_trip rt" and "set_order_ok rt" and "input_ok d"
    and "worker_repositories rt net cfg = Inr (Inl R)"
    and "create_pool net (database_url cfg) (db_pool_min_size cfg) (db_pool_max_size cfg) = Inr pool"
    and "event_database (pool_events pool) rows tx rely"
    and "\<And>l l'. rely l l' \<Longrightarrow> ledger_ok rt l \<Longrightarrow> ledger_steps rt l l'"
    and "temporal_contract rt R estr drv"
    and "tx s = Idle" and "rows_ok (rows s)" and "ledger_ok rt (map stored_of (rows s))"
  shows "case workflow_run drv d (workflow_init s signals) of (r, w') \<Rightarrow>
    tx (wf_world w') = Idle \<and> rows_ok (rows (wf_world w')) \<and> ledger_ok rt (map stored_of (rows (wf_world w'))) \<and>
    ledger_steps rt (map stored_of (rows s)) (map stored_of (rows (wf_world w')))"
proof -
  note db = assms(6)
  have R: "R = build_repositories rt (pg_store rt (pool_events pool) ledger_registry) ledger_registry"
    by (rule worker_repositories_eq [OF assms(4,5)])
  have lg: "ledger_log rt (pg_store rt (pool_events pool) ledger_registry) (event_database.pg_log rows)
      (event_database.pg_invar rows tx) rely"
    by (intro ledger_log.intro ledger_log_axioms.intro event_database.pg_event_log [OF db] runtime_codec.intro assms(1,7))
  note defs = ledger_log.ok_def [OF lg] event_database.pg_log_def [OF db] event_database.pg_invar_def [OF db]
  obtain r w' where run: "workflow_run drv d (workflow_init s signals) = (r, w')" by fastforce
  have "ledger_log.ok rt (event_database.pg_log rows) (event_database.pg_invar rows tx) s"
    using assms(9-11) by (simp add: defs ledger_ok_def)
  with ledger_log.workflow_evolves [OF lg assms(2) assms(8) [unfolded R] assms(3) _ run] run show ?thesis
    by (simp add: defs workflow_init_def)
qed

theorem saga_on_postgres_keeps_ledger_consistent_witness:
  "case workflow_run (temporal_execute plain_runtime
       (build_repositories plain_runtime (pg_store plain_runtime plain_db ledger_registry) ledger_registry) exn_type_name)
     \<lparr>ti_transfer_id = 5, ti_source_account_id = 1, ti_destination_account_id = 2, ti_amount = usd 40,
      ti_reversal_of = None, ti_traceparent = None\<rparr> (workflow_init \<lparr>pl_rows = [], pl_tx = Idle\<rparr> [RETRY_CREDIT]) of (r, w') \<Rightarrow>
   ledger_ok plain_runtime (map stored_of (pl_rows (wf_world w')))"
proof -
  let ?R = "build_repositories plain_runtime (pg_store plain_runtime plain_db ledger_registry) ledger_registry"
  have "worker_repositories plain_runtime plain_network default_settings = Inr (Inl ?R)"
    by (simp add: worker_repositories_def build_event_registry_ok open_event_store_def plain_network_def default_settings_def
        startswith_def)
  moreover have "create_pool plain_network (database_url default_settings) (db_pool_min_size default_settings)
      (db_pool_max_size default_settings) = Inr \<lparr>pool_events = plain_db, pool_idempotency = Inr plain_statements,
        pool_checkpoints = plain_checkpoint_rows, pool_notify = plain_notify\<rparr>" by (simp add: plain_network_def)
  ultimately show ?thesis
    using saga_on_postgres_keeps_ledger_consistent [OF _ _ _ _ _ _ _ temporal_prompt_contract [OF temporal_execute_prompt],
        where rt = plain_runtime and net = plain_network and cfg = default_settings and R = ?R and rows = pl_rows and tx = pl_tx
        and rely = "(=)" and s = "\<lparr>pl_rows = [], pl_tx = Idle\<rparr>" and estr = exn_type_name and signals = "[RETRY_CREDIT]" and
        d = "\<lparr>ti_transfer_id = 5, ti_source_account_id = 1, ti_destination_account_id = 2, ti_amount = usd 40,
      ti_reversal_of = None, ti_traceparent = None\<rparr>"]
      plain_database.event_database_axioms
    by (simp add: input_ok_def money_ok_def usd_def split: prod.splits)
qed

end
