(* ===== verification/Mutation_Gate.thy ===== *)
theory Mutation_Gate
  imports Complex_Main Ledger_Prelude
begin

text \<open>
  The gate of the build that keeps the domain tests strong, \<^verbatim>\<open>src/scripts/mutation_gate.py\<close>: it reads the
  counts off the summary of the mutation run and fails below a floor. Texts are lists of code points.
  Parameters: the value of a Unicode decimal digit, and the rounding of a quotient to a float. What
  is printed is a list of report lines, without their layout. A count has at most the 4300 digits that
  \<open>int\<close> accepts.
\<close>

section \<open>Reading the summary\<close>

type_synonym codepoints = "nat list"

text \<open>\<open>str.isspace\<close>, which is what \<open>\s\<close> matches.\<close>

definition is_space :: "nat \<Rightarrow> bool" where
  "is_space c \<longleftrightarrow> c \<in> {9..13} \<union> {28..32} \<union> {0x85, 0xA0, 0x1680} \<union> {0x2000..0x200A} \<union> {0x2028, 0x2029, 0x202F, 0x205F, 0x3000}"

definition number_of :: "(nat \<Rightarrow> nat option) \<Rightarrow> codepoints \<Rightarrow> int" where
  "number_of digit ds = foldl (\<lambda>n d. 10 * n + int (the (digit d))) 0 ds"

text \<open>\<open>re.findall(rf"{emoji}\s*(\d+)", text)\<close>, as numbers.\<close>

function counts :: "(nat \<Rightarrow> nat option) \<Rightarrow> nat \<Rightarrow> codepoints \<Rightarrow> int list" where
  "counts digit emoji [] = []"
| "counts digit emoji (c # cs) =
     (if c = emoji
      then let rest = dropWhile is_space cs; ds = takeWhile (\<lambda>d. digit d \<noteq> None) rest
           in if ds = [] then counts digit emoji cs
              else number_of digit ds # counts digit emoji (drop (length ds) rest)
      else counts digit emoji cs)"
  by pat_completeness auto
termination
proof (relation "measure (\<lambda>(_, _, t). length t)")
  show "((digit, emoji, drop (length ds) rest), digit, emoji, c # cs) \<in> measure (\<lambda>(_, _, t). length t)"
    if "rest = dropWhile is_space cs" for digit :: "nat \<Rightarrow> nat option" and emoji c cs rest and ds :: codepoints
    using that length_dropWhile_le [of is_space cs] by simp
qed auto

definition last_count :: "(nat \<Rightarrow> nat option) \<Rightarrow> nat \<Rightarrow> codepoints \<Rightarrow> int" where
  "last_count digit emoji text = (let matches = counts digit emoji text in if matches = [] then 0 else last matches)"

section \<open>Survivors\<close>

definition is_linebreak :: "nat \<Rightarrow> bool" where
  "is_linebreak c \<longleftrightarrow> c \<in> {10..13} \<union> {28..30} \<union> {0x85, 0x2028, 0x2029}"

text \<open>\<open>str.splitlines\<close>; \<open>line\<close> is what has been read of the current line, backwards.\<close>

fun splitlines_from :: "codepoints \<Rightarrow> codepoints \<Rightarrow> codepoints list" where
  "splitlines_from line [] = (if line = [] then [] else [rev line])"
| "splitlines_from line [c] = (if is_linebreak c then [rev line] else [rev (c # line)])"
| "splitlines_from line (c # d # cs) =
     (if c = 13 \<and> d = 10 then rev line # splitlines_from [] cs
      else if is_linebreak c then rev line # splitlines_from [] (d # cs)
      else splitlines_from (c # line) (d # cs))"

definition strip :: "codepoints \<Rightarrow> codepoints" where
  "strip t = rev (dropWhile is_space (rev (dropWhile is_space t)))"

definition endswith :: "codepoints \<Rightarrow> codepoints \<Rightarrow> bool" where
  "endswith t suffix \<longleftrightarrow> length suffix \<le> length t \<and> drop (length t - length suffix) t = suffix"

definition survivors :: "codepoints \<Rightarrow> codepoints list" where
  "survivors listing = filter (\<lambda>ln. endswith ln (map of_char ''survived'')) (map strip (splitlines_from [] listing))"

section \<open>The gate\<close>

datatype report_line =
    Caught int int rat rat
  | Counts int int int int int
  | Surviving "codepoints list"
  | NoMutants
  | BelowFloor rat rat
  | Passed

text \<open>\<open>main\<close> on the output of the two commands: what it prints and the exit code.\<close>

definition mutation_gate ::
  "(nat \<Rightarrow> nat option) \<Rightarrow> (rat \<Rightarrow> rat) \<Rightarrow> rat \<Rightarrow> codepoints \<Rightarrow> codepoints \<Rightarrow> codepoints \<Rightarrow> report_line list \<times> int" where
  "mutation_gate digit rnd FLOOR out err listing =
     (let summary = out @ err;
          killed = last_count digit 0x1F389 summary;
          no_tests = last_count digit 0x1FAE5 summary;
          timeout = last_count digit 0x23F0 summary;
          suspicious = last_count digit 0x1F914 summary;
          survived = last_count digit 0x1F641 summary;
          caught = killed + timeout;
          not_caught = survived + suspicious;
          total = caught + not_caught;
          rate = (if total \<noteq> 0 then rnd (of_int caught / of_int total) else 0);
          report = [Caught caught total rate FLOOR, Counts killed survived timeout suspicious no_tests] @
            (if survivors listing \<noteq> [] then [Surviving (survivors listing)] else [])
      in if total = 0 then (report @ [NoMutants], 1)
         else if rate < FLOOR then (report @ [BelowFloor rate FLOOR], 1)
         else (report @ [Passed], 0))"

text \<open>
  Counts are never negative, so a passing run has tested mutants. With a rounding that is monotone
  and leaves the floor alone, a run is refused only if it tested nothing or if the exact share of
  caught mutants is below the floor.
\<close>

lemma number_of_nonneg: "0 \<le> number_of digit ds"
proof -
  have "0 \<le> foldl (\<lambda>n d. 10 * n + int (the (digit d))) acc ds" if "0 \<le> acc" for acc
    using that by (induction ds arbitrary: acc) auto
  then show ?thesis by (simp add: number_of_def)
qed

lemma last_count_nonneg: "0 \<le> last_count digit emoji t"
proof -
  have "\<forall>n \<in> set (counts digit emoji t). 0 \<le> n"
    by (induction digit emoji t rule: counts.induct) (auto simp: Let_def number_of_nonneg)
  then show ?thesis by (simp add: last_count_def Let_def)
qed

lemma gate_enforces_floor:
  fixes rnd :: "rat \<Rightarrow> rat" and digit :: "nat \<Rightarrow> nat option" and out err :: codepoints
  assumes "mono rnd" and "rnd FLOOR = FLOOR"
  defines "count \<equiv> \<lambda>emoji. last_count digit emoji (out @ err)"
  defines "caught \<equiv> count 0x1F389 + count 0x23F0"
  defines "tested \<equiv> caught + (count 0x1F641 + count 0x1F914)"
  shows "if snd (mutation_gate digit rnd FLOOR out err listing) = 0
    then 0 < tested \<and> FLOOR \<le> rnd (of_int caught / of_int tested)
    else tested = 0 \<or> of_int caught / of_int tested < FLOOR"
proof -
  have "0 \<le> tested" by (simp add: tested_def caught_def count_def last_count_nonneg)
  moreover have "snd (mutation_gate digit rnd FLOOR out err listing) = 0 \<longleftrightarrow>
      tested \<noteq> 0 \<and> FLOOR \<le> rnd (of_int caught / of_int tested)"
    by (auto simp: mutation_gate_def Let_def caught_def tested_def count_def)
  moreover have "rnd q < FLOOR \<Longrightarrow> q < FLOOR" for q
    using monoD [OF assms(1), of FLOOR q] assms(2) by (metis not_le)
  ultimately show ?thesis by (auto simp: not_le)
qed

end
