(* ===== verification/Spec2Isabelle.thy ===== *)
theory Spec2Isabelle
  imports Saga_Outcomes Service Processes Mutation_Gate
begin

text \<open>
  \<^bold>\<open>Verification of ledger-core, an event-sourced payment ledger.\<close>

  The program (\<^verbatim>\<open>src/src/ledger\<close>) keeps accounts, journal entries and transfers as streams of events in
  one append-only log. Aggregates are rebuilt by replaying a stream and saved with an optimistic
  version check. A transfer is a saga: a workflow calls activities that hold the amount on the
  source, post a balanced journal entry, debit and credit, and compensates or parks for an operator
  when a step fails. Read models and an outbox relay tail the log from a checkpoint. An HTTP API
  answers queries, changes accounts and starts sagas, with idempotency keys for deposits and
  transfers. The log lives in memory or in Postgres.

  \<^bold>\<open>How code becomes definitions.\<close> A class is a record, an enum a datatype, a method a function. An
  exception is the left summand of a sum (\<open>result\<close>); a coroutine that touches shared state is an
  \<open>action\<close>, a function from the state to a result and the new state. Python ints are \<open>int\<close>, UUIDs are
  128-bit words, strings are lists of characters. One action runs to its end without interleaving
  inside; interleavings between actions are step relations, and what other processes do to the log
  while a store operation runs is the parameter \<open>rely\<close> of the store's contract.

  \<^bold>\<open>Theories, in the order of the code.\<close>
  \<^item> \<open>Ledger_Prelude\<close>: sequencing of results and actions, Python's dicts, slices, \<open>max\<close> and \<open>sorted\<close>.
  \<^item> \<open>Shared_Kernel\<close> (\<^verbatim>\<open>domain/shared\<close>): errors, \<open>Money\<close>, the aggregate root; locale \<open>aggregate\<close>.
  \<^item> \<open>Domain_Events\<close> (the three \<^verbatim>\<open>events.py\<close>), \<open>Runtime\<close> (what comes from outside: pydantic's codec,
    \<open>uuid5\<close>, the clock, the iteration order of sets; \<open>plain_runtime\<close> is a concrete one).
  \<^item> \<open>Accounts\<close> (\<^verbatim>\<open>domain/accounts\<close>): the aggregate refines a two-bucket specification, its balances are
    never negative and the sums over its events, operations are recorded once and repeats are
    harmless on open accounts.
  \<^item> \<open>Journal\<close> (\<^verbatim>\<open>domain/ledger\<close>): exactly balanced entries are accepted; the posting service over its
    port, locale \<open>status_reader\<close>.
  \<^item> \<open>Transfers\<close> (\<^verbatim>\<open>domain/transfers\<close>): commands follow the documented state diagram; operation ids.
  \<^item> \<open>Serialization\<close> (\<^verbatim>\<open>eventstore/serialization.py\<close>, \<^verbatim>\<open>registry.py\<close>): round trip and upcasters.
  \<^item> \<open>Event_Store\<close> (\<^verbatim>\<open>eventstore/store.py\<close>, \<^verbatim>\<open>records.py\<close>, \<^verbatim>\<open>memory.py\<close>): the contract \<open>event_log\<close> and the
    in-memory store as an interpretation of it.
  \<^item> \<open>Repository\<close> (\<^verbatim>\<open>eventstore/repository.py\<close>), \<open>Ledger_State\<close> (consistent logs, legal steps of a ledger),
    \<open>Ledger_View\<close> (the ledger as three maps; what is saved loads back; posted legs net to zero).
  \<^item> \<open>Messages\<close>, \<open>Activities\<close>, \<open>Workflow\<close> (\<^verbatim>\<open>temporal\<close>): the saga. \<open>Saga_Control\<close>: which activities a run
    executes and with what outcome, for every execution service. \<open>Saga_Guarantees\<close>: an activity that
    returned has left its record in the log, so the result of a run says what the log holds, under
    lost attempts and other clients. \<open>Saga_Effects\<close>: the exact effect of each activity, with the class of
    each refusal of the posting service and the reversal of an entry. \<open>Saga_Outcomes\<close>: end-to-end runs that
    complete and that fail.
  \<^item> \<open>Tailing\<close> (\<^verbatim>\<open>projections/runner.py\<close>), \<open>Read_Models\<close> (\<^verbatim>\<open>projections/read_models.py\<close> and its service),
    \<open>Outbox\<close> (\<^verbatim>\<open>outbox/relay.py\<close>): consumers of the log; what a query or a relay has seen.
  \<^item> \<open>Postgres\<close> (\<^verbatim>\<open>eventstore/postgres.py\<close>, \<^verbatim>\<open>schema.py\<close>): the store over the SQL statements; any database
    that keeps \<open>event_database\<close> makes it an \<open>event_log\<close>. \<open>Durable\<close>: conflicts on Postgres and the durable
    checkpoints (\<^verbatim>\<open>projections/pg_checkpoints.py\<close>).
  \<^item> \<open>Idempotency\<close>, \<open>Http\<close>, \<open>Account_Routes\<close>, \<open>Transfer_Routes\<close>, \<open>Transfer_Requests\<close> (\<^verbatim>\<open>api\<close>): keys, problem
    details, every route, and concurrent requests under one key, also when the service loses the
    acknowledgement of a start.
  \<^item> \<open>Application\<close> (\<^verbatim>\<open>api/main.py\<close>, \<^verbatim>\<open>config/settings.py\<close>, \<^verbatim>\<open>ops/router.py\<close>): settings, probes, routers, the
    way of a request through key check, route and exception handlers, the statuses of errors as the API
    specification gives them, the life of the context.
  \<^item> \<open>Service\<close>: requests with any key and activities in any order on one in-memory store; the log stays
    well typed, balance and account endpoint agree.
  \<^item> \<open>Processes\<close> (\<^verbatim>\<open>eventstore/factory.py\<close>, \<^verbatim>\<open>api/context.py\<close>, \<^verbatim>\<open>temporal/worker.py\<close>, \<^verbatim>\<open>outbox/main.py\<close>): choice of
    the store, runtime context, the relay process, and the worker's saga on Postgres.
  \<^item> \<open>Mutation_Gate\<close> (\<^verbatim>\<open>src/scripts/mutation_gate.py\<close>): the build's gate on the strength of the domain tests.

  \<^bold>\<open>Interfaces.\<close> Every contract is a locale, and clients are verified against it: \<open>aggregate\<close> (three
  interpretations), \<open>event_codec\<close>, \<open>event_log\<close> (in-memory alone, in-memory shared, Postgres),
  \<open>event_sourced_repository\<close>, \<open>status_reader\<close> (projection and repository), \<open>checkpoint_contract\<close> (in-memory
  and Postgres), \<open>cursor_tail\<close> with \<open>outbox\<close> and \<open>synced_tail\<close>, \<open>gateway_log\<close> and \<open>saga_relation\<close>. The contracts of
  code that is not in the repository (\<open>event_database\<close>, \<open>driver_database\<close>, \<open>idempotency_table\<close>,
  \<open>checkpoint_table\<close>, \<open>notify_channel\<close>, \<open>temporal_service\<close>) state documented behaviour and are interpreted on
  small concrete instances, the \<open>plain\<close> ones, which also serve the witnesses.

  \<^bold>\<open>Loops.\<close> Loops over data are structural recursions. \<open>runner_drain\<close> and \<open>relay_drain\<close> may run for ever and
  are partial functions into \<open>option\<close>; \<open>None\<close> is not returning. That they return is proved where nobody
  else writes to the log. The resolution loop of a parked saga recurses over the signals that arrive
  and ends in \<open>AwaitingSignal\<close> when there is none left. Attempts of an activity
  are bounded by the retry policy of the code, and \<open>run_relay\<close> has the number of passes before its
  cancellation as an argument; no other fuel is used.

  \<^bold>\<open>What the modelling showed.\<close> If the credit and the parking of a transfer both exhaust their
  attempts, the transfer is recorded as failed although the source was debited. If the source is
  frozen after the hold, compensation raises and records nothing. A repeated operation on an inactive
  account raises instead of being a no-op. If starting a workflow takes effect but its answer is
  lost, the retry under the same idempotency key starts a second saga.

  \<^bold>\<open>Not modelled.\<close> The set-up of logging and tracing (\<^verbatim>\<open>observability/setup.py\<close>), apart from the switch
  that turns tracing on; matching of paths and validation of requests, which are FastAPI's and
  pydantic's; the command line entry points and \<^verbatim>\<open>eventstore/migrate.py\<close>, which only call uvicorn,
  asyncio and the driver; signal handling; the Temporal and asyncpg libraries themselves. None of them
  holds ledger state of its own. Cancellation of a coroutine in the middle of a database call appears
  only as a call whose answer is lost.
\<close>

end
